(* ===== verification/Prelude.thy ===== *)
theory Prelude
  imports Main "HOL-Library.Char_ord" "HOL-Library.List_Lexorder" "HOL-Library.Product_Lexorder"
    "HOL-Library.Option_ord" "HOL-Library.Multiset" "HOL-Library.Code_Target_Numeral"
begin

text \<open>
  What every component shares.

  \<^item> \<open>rbind\<close>, \<open>fold_r\<close>, \<open>map_r\<close>, \<open>ensure\<close>: Rust's \<open>Result\<close> as a sum (\<open>Inl\<close> the error,
    \<open>Inr\<close> the value), the \<open>?\<close> operator, a \<open>for\<close> loop whose body may return early with an error,
    and an early return guarded by a condition.
  \<^item> \<open>bt_put\<close>, \<open>bt_get\<close>: a \<open>BTreeMap\<close> as the list of its entries in key order, which is also the
    order the code iterates it in. The interface is the locale \<open>ordered_map\<close>.
  \<^item> \<open>accumulate\<close>: the loop \<open>match map.get_mut(key) { Some(v) => merge, None => insert }\<close>, which
    the hour folds and the history folds all use. The locale \<open>keyed_accumulator\<close> proves once that
    such a loop conserves whatever additive weight its merge conserves.
  \<^item> \<open>keep_largest\<close>: the loop that keeps the entry with the largest level of each key, and its locale
    \<open>largest_per_key\<close>.
  \<^item> checked and saturating unsigned arithmetic on \<open>nat\<close> with the width written out.
\<close>

named_theorems result_simps \<open>how results, early returns and result loops succeed\<close>
named_theorems bt_simps \<open>ordered association lists\<close>

subsection \<open>Results\<close>

definition rbind :: "'e + 'a \<Rightarrow> ('a \<Rightarrow> 'e + 'b) \<Rightarrow> 'e + 'b" where
  "rbind r f = (case r of Inl e \<Rightarrow> Inl e | Inr a \<Rightarrow> f a)"

definition ensure :: "bool \<Rightarrow> 'e \<Rightarrow> 'e + unit" where
  "ensure b e = (if b then Inr () else Inl e)"

definition ok_or :: "'e \<Rightarrow> 'a option \<Rightarrow> 'e + 'a" where
  "ok_or e v = (case v of None \<Rightarrow> Inl e | Some a \<Rightarrow> Inr a)"

fun fold_r :: "('a \<Rightarrow> 's \<Rightarrow> 'e + 's) \<Rightarrow> 'a list \<Rightarrow> 's \<Rightarrow> 'e + 's" where
  "fold_r f [] s = Inr s"
| "fold_r f (x # xs) s = rbind (f x s) (fold_r f xs)"

fun map_r :: "('a \<Rightarrow> 'e + 'b) \<Rightarrow> 'a list \<Rightarrow> 'e + 'b list" where
  "map_r f [] = Inr []"
| "map_r f (x # xs) = rbind (f x) (\<lambda>y. rbind (map_r f xs) (\<lambda>ys. Inr (y # ys)))"

lemma rbind_simps [simp]: "rbind (Inl e) f = Inl e" "rbind (Inr a) f = f a"
  by (simp_all add: rbind_def)

lemma rbind_Inr [result_simps]: "rbind r f = Inr b \<longleftrightarrow> (\<exists>a. r = Inr a \<and> f a = Inr b)"
  by (cases r) auto

lemma ensure_Inr [result_simps]: "ensure b e = Inr u \<longleftrightarrow> b"
  by (simp add: ensure_def)

lemma ensure_Inl [result_simps]: "ensure b e = Inl e' \<longleftrightarrow> \<not> b \<and> e' = e"
  by (auto simp: ensure_def)

lemma ensure_simps [simp]: "ensure True e = Inr ()" "ensure False e = Inl e"
  by (simp_all add: ensure_def)

lemma ok_or_Inr [result_simps]: "ok_or e v = Inr a \<longleftrightarrow> v = Some a"
  by (simp add: ok_or_def split: option.splits)

lemma ok_or_simps [simp]: "ok_or e None = Inl e" "ok_or e (Some a) = Inr a"
  by (simp_all add: ok_or_def)

lemma rbind_cong [fundef_cong]:
  "r = r' \<Longrightarrow> (\<And>a. r' = Inr a \<Longrightarrow> f a = g a) \<Longrightarrow> rbind r f = rbind r' g"
  by (cases r') auto

text \<open>A loop that returns keeps what every one of its rounds keeps.\<close>

lemma fold_r_invariant:
  assumes "fold_r f xs s = Inr t" and "P s"
    and "\<And>x s s'. x \<in> set xs \<Longrightarrow> P s \<Longrightarrow> f x s = Inr s' \<Longrightarrow> P s'"
  shows "P t"
  using assms by (induction xs arbitrary: s) (auto simp: result_simps)

lemma fold_r_append: "fold_r f (xs @ ys) s = rbind (fold_r f xs s) (fold_r f ys)"
  by (induction xs arbitrary: s) (simp_all add: rbind_def split: sum.splits)

text \<open>A loop whose rounds check an item first returns when every check passes and the rest returns.\<close>

lemma fold_r_checked:
  "fold_r (\<lambda>a s. rbind (check a) (\<lambda>_ :: unit. f a s)) xs s = Inr t \<longleftrightarrow>
     (\<forall>a \<in> set xs. check a = Inr ()) \<and> fold_r f xs s = Inr t"
  by (induction xs arbitrary: s) (auto simp: result_simps)

lemma map_r_Inr: "map_r f xs = Inr ys \<longleftrightarrow> list_all2 (\<lambda>x y. f x = Inr y) xs ys"
  by (induction xs arbitrary: ys) (auto simp: result_simps list_all2_Cons1)

subsection \<open>Ordered maps\<close>

text \<open>
  The entries of a \<open>BTreeMap\<close>, in key order. \<open>bt_put\<close> is \<open>insert\<close> (which replaces the value of a
  key that is there), \<open>bt_get\<close> is \<open>get\<close>.
\<close>

type_synonym ('k, 'v) btree = "('k \<times> 'v) list"

fun bt_get :: "('k, 'v) btree \<Rightarrow> 'k \<Rightarrow> 'v option" where
  "bt_get [] k = None"
| "bt_get (e # m) k = (if fst e = k then Some (snd e) else bt_get m k)"

fun bt_put :: "'k::linorder \<Rightarrow> 'v \<Rightarrow> ('k, 'v) btree \<Rightarrow> ('k, 'v) btree" where
  "bt_put k v [] = [(k, v)]"
| "bt_put k v (e # m) =
     (if fst e < k then e # bt_put k v m
      else if fst e = k then (k, v) # m
      else (k, v) # e # m)"

definition bt_ordered :: "('k::linorder, 'v) btree \<Rightarrow> bool" where
  "bt_ordered m \<longleftrightarrow> sorted_wrt (<) (map fst m)"

lemma bt_ordered_Nil [bt_simps, simp]: "bt_ordered []"
  by (simp add: bt_ordered_def)

lemma bt_ordered_Cons [bt_simps]:
  "bt_ordered (e # m) \<longleftrightarrow> (\<forall>x \<in> set m. fst e < fst x) \<and> bt_ordered m"
  by (auto simp: bt_ordered_def)

lemma bt_get_put [bt_simps]: "bt_get (bt_put k v m) = (bt_get m)(k := Some v)"
  by (induction m) (auto simp: fun_eq_iff)

lemma set_bt_put: "set (bt_put k v m) \<subseteq> insert (k, v) (set m)"
  by (induction m) auto

lemma bt_ordered_put [bt_simps]: "bt_ordered m \<Longrightarrow> bt_ordered (bt_put k v m)"
proof (induction m)
  case (Cons e m)
  then have later: "\<forall>x \<in> set m. fst e < fst x" and "bt_ordered m"
    by (simp_all add: bt_ordered_Cons)
  consider "fst e < k" | "fst e = k" | "k < fst e" by fastforce
  then show ?case
  proof cases
    case 1
    with Cons.IH \<open>bt_ordered m\<close> later show ?thesis
      using set_bt_put [of k v m] by (auto simp: bt_ordered_Cons)
  next
    case 2
    with Cons.prems show ?thesis by (auto simp: bt_ordered_Cons)
  next
    case 3
    with Cons.prems show ?thesis by (fastforce simp: bt_ordered_Cons)
  qed
qed (simp add: bt_ordered_Cons)

lemma bt_get_in: "bt_get m k = Some v \<Longrightarrow> (k, v) \<in> set m"
  by (induction m) (auto split: if_splits)

lemma bt_get_iff: "bt_ordered m \<Longrightarrow> bt_get m k = Some v \<longleftrightarrow> (k, v) \<in> set m"
  by (induction m) (auto simp: bt_ordered_Cons)

lemma bt_get_None: "bt_get m k = None \<longleftrightarrow> k \<notin> fst ` set m"
  by (induction m) auto

lemma bt_ordered_distinct: "bt_ordered m \<Longrightarrow> distinct (map fst m)"
  by (simp add: bt_ordered_def strict_sorted_iff)

text \<open>Two ordered maps with the same lookups are the same list, so a map is its lookups.\<close>

lemma option_eqI: "(\<And>v. a = Some v \<longleftrightarrow> b = Some v) \<Longrightarrow> a = b"
  by (cases a; cases b) auto

lemma bt_ext:
  assumes "bt_ordered m" and "bt_ordered n" and "\<And>k. bt_get m k = bt_get n k"
  shows "m = n"
proof -
  have "set m = set n"
    using assms by (force simp: bt_get_iff [symmetric])
  moreover have "sorted (map fst m)" "sorted (map fst n)"
    using assms(1,2) by (simp_all add: bt_ordered_def strict_sorted_iff)
  ultimately show ?thesis
    using assms(1,2) by (intro map_sorted_distinct_set_unique [where f = fst])
      (auto simp: bt_ordered_distinct inj_on_def bt_get_iff [symmetric])
qed

lemma bt_eqI:
  assumes "bt_ordered m" and "bt_ordered n" and keys: "fst ` set m = fst ` set n"
    and same_value: "\<And>k v w. (k, v) \<in> set m \<Longrightarrow> (k, w) \<in> set n \<Longrightarrow> v = w"
  shows "m = n"
proof (rule bt_ext [OF assms(1,2)])
  fix k
  show "bt_get m k = bt_get n k"
  proof (cases "bt_get m k")
    case None
    then show ?thesis using keys by (metis bt_get_None)
  next
    case (Some v)
    then obtain w where w: "bt_get n k = Some w"
      using keys by (metis bt_get_None not_None_eq)
    have "v = w" using same_value [OF bt_get_in [OF Some] bt_get_in [OF w]] .
    with Some w show ?thesis by simp
  qed
qed

text \<open>
  The interface: what a component may rely on when it keeps something in a map that is iterated
  in key order.
\<close>

locale ordered_map =
  fixes empty_map :: "'m"
    and lookup :: "'m \<Rightarrow> 'k::linorder \<Rightarrow> 'v option"
    and store :: "'k \<Rightarrow> 'v \<Rightarrow> 'm \<Rightarrow> 'm"
    and entries :: "'m \<Rightarrow> ('k \<times> 'v) list"
    and wf_map :: "'m \<Rightarrow> bool"
  assumes wf_empty: "wf_map empty_map"
    and wf_store: "wf_map m \<Longrightarrow> wf_map (store k v m)"
    and lookup_empty: "lookup empty_map k = None"
    and lookup_store: "wf_map m \<Longrightarrow> lookup (store k v m) = (lookup m)(k := Some v)"
    and entries_lookup: "wf_map m \<Longrightarrow> (k, v) \<in> set (entries m) \<longleftrightarrow> lookup m k = Some v"
    and entries_ordered: "wf_map m \<Longrightarrow> sorted_wrt (<) (map fst (entries m))"
begin

lemma entries_distinct: "wf_map m \<Longrightarrow> distinct (map fst (entries m))"
  using entries_ordered [of m] by (simp add: strict_sorted_iff)

lemma keys_store: "wf_map m \<Longrightarrow> fst ` set (entries (store k v m)) = insert k (fst ` set (entries m))"
proof -
  assume wf: "wf_map m"
  have key: "x \<in> fst ` set (entries n) \<longleftrightarrow> lookup n x \<noteq> None" if "wf_map n" for n x
    using entries_lookup [OF that, of x] by (force simp: image_iff)
  show ?thesis
    by (rule set_eqI) (simp only: key wf wf_store lookup_store insert_iff fun_upd_apply split: if_splits, simp)
qed

text \<open>Storing weighs what was stored instead of what the key held before.\<close>

lemma weight_store:
  fixes weight :: "'v \<Rightarrow> nat"
  assumes wf: "wf_map m"
  shows "(\<Sum>e \<leftarrow> entries (store k v m). weight (snd e)) +
           (case lookup m k of None \<Rightarrow> 0 | Some u \<Rightarrow> weight u) =
         (\<Sum>e \<leftarrow> entries m. weight (snd e)) + weight v"
proof -
  let ?w = "\<lambda>e :: 'k \<times> 'v. weight (snd e)"
  have as_sum: "(\<Sum>e \<leftarrow> entries n. ?w e) = (\<Sum>e \<in> set (entries n). ?w e)" if "wf_map n" for n
    using entries_distinct [OF that] by (simp add: sum_list_distinct_conv_sum_set distinct_map)
  let ?rest = "{e \<in> set (entries m). fst e \<noteq> k}"
  have stored: "set (entries (store k v m)) = insert (k, v) ?rest"
    using wf by (auto simp: wf_store entries_lookup lookup_store split: if_splits)
  have new: "(\<Sum>e \<in> set (entries (store k v m)). ?w e) = weight v + (\<Sum>e \<in> ?rest. ?w e)"
    unfolding stored by (subst sum.insert) auto
  have old: "(\<Sum>e \<in> set (entries m). ?w e) =
      (case lookup m k of None \<Rightarrow> 0 | Some u \<Rightarrow> weight u) + (\<Sum>e \<in> ?rest. ?w e)"
  proof (cases "lookup m k")
    case None
    with wf have "set (entries m) = ?rest" by (auto simp: entries_lookup)
    with None show ?thesis by simp
  next
    case (Some u)
    with wf have "set (entries m) = insert (k, u) ?rest" by (auto simp: entries_lookup)
    then have "(\<Sum>e \<in> set (entries m). ?w e) = (\<Sum>e \<in> insert (k, u) ?rest. ?w e)" by simp
    also have "\<dots> = weight u + (\<Sum>e \<in> ?rest. ?w e)" by (subst sum.insert) auto
    finally show ?thesis using Some by simp
  qed
  from new old show ?thesis using wf by (simp add: as_sum wf_store)
qed

end

interpretation bt: ordered_map "[]" bt_get bt_put "\<lambda>m. m" bt_ordered
  by unfold_locales (simp_all add: bt_simps bt_get_iff bt_ordered_def [symmetric])

text \<open>
  The loop that looks an item's key up and either grows the value there or starts one.
\<close>

definition upsert :: "'k::linorder \<Rightarrow> 'v \<Rightarrow> ('v \<Rightarrow> 'e + 'v) \<Rightarrow> ('k, 'v) btree \<Rightarrow> 'e + ('k, 'v) btree" where
  "upsert k start grow m =
     (case bt_get m k of
        Some v \<Rightarrow> rbind (grow v) (\<lambda>w. Inr (bt_put k w m))
      | None \<Rightarrow> Inr (bt_put k start m))"

definition accumulate ::
    "('a \<Rightarrow> 'k::linorder) \<Rightarrow> ('a \<Rightarrow> 'v) \<Rightarrow> ('v \<Rightarrow> 'a \<Rightarrow> 'e + 'v) \<Rightarrow> 'a list \<Rightarrow> ('k, 'v) btree \<Rightarrow>
     'e + ('k, 'v) btree" where
  "accumulate key start grow = fold_r (\<lambda>a. upsert (key a) (start a) (\<lambda>v. grow v a))"

locale keyed_accumulator =
  fixes key :: "'a \<Rightarrow> 'k::linorder"
    and start :: "'a \<Rightarrow> 'v"
    and grow :: "'v \<Rightarrow> 'a \<Rightarrow> 'e + 'v"
    and value_key :: "'v \<Rightarrow> 'k"
    and good_item :: "'a \<Rightarrow> bool"
    and good :: "'v \<Rightarrow> bool"
    and item_weight :: "'a \<Rightarrow> nat"
    and weight :: "'v \<Rightarrow> nat"
  assumes start_good: "good_item a \<Longrightarrow> good (start a)"
    and start_key: "good_item a \<Longrightarrow> value_key (start a) = key a"
    and start_weight: "good_item a \<Longrightarrow> weight (start a) = item_weight a"
    and grow_good: "good v \<Longrightarrow> good_item a \<Longrightarrow> value_key v = key a \<Longrightarrow> grow v a = Inr w \<Longrightarrow> good w"
    and grow_key: "good v \<Longrightarrow> good_item a \<Longrightarrow> value_key v = key a \<Longrightarrow> grow v a = Inr w \<Longrightarrow>
        value_key w = value_key v"
    and grow_weight: "good v \<Longrightarrow> good_item a \<Longrightarrow> value_key v = key a \<Longrightarrow> grow v a = Inr w \<Longrightarrow>
        weight w = weight v + item_weight a"
begin

definition well_kept :: "('k, 'v) btree \<Rightarrow> bool" where
  "well_kept m \<longleftrightarrow> bt_ordered m \<and> (\<forall>(k, v) \<in> set m. good v \<and> value_key v = k)"

definition total :: "('k, 'v) btree \<Rightarrow> nat" where
  "total m = (\<Sum>e \<leftarrow> m. weight (snd e))"

lemma well_kept_Nil: "well_kept []"
  by (simp add: well_kept_def)

lemma well_kept_put:
  assumes "well_kept m" and "good v" and "value_key v = k"
  shows "well_kept (bt_put k v m)"
  using assms set_bt_put [of k v m] by (auto simp: well_kept_def bt_simps)

lemma upsert_keeps:
  assumes m: "well_kept m" and a: "good_item a"
    and step: "upsert (key a) (start a) (\<lambda>v. grow v a) m = Inr n"
  shows "well_kept n \<and> total n = total m + item_weight a
    \<and> fst ` set n = insert (key a) (fst ` set m)"
proof (cases "bt_get m (key a)")
  case None
  with step have n: "n = bt_put (key a) (start a) m" by (simp add: upsert_def)
  have "total n = total m + item_weight a"
    using m None a bt.weight_store [where m = m and k = "key a" and v = "start a" and weight = weight]
    by (simp add: n total_def well_kept_def start_weight)
  moreover have "well_kept n"
    unfolding n using m a by (intro well_kept_put) (simp_all add: start_good start_key)
  ultimately show ?thesis
    using m bt.keys_store [of m "key a" "start a"] by (simp add: n well_kept_def)
next
  case (Some v)
  with m have v: "good v" "value_key v = key a"
    by (auto simp: well_kept_def dest: bt_get_in)
  from Some step obtain w where w: "grow v a = Inr w" and n: "n = bt_put (key a) w m"
    by (auto simp: upsert_def result_simps)
  have "total n = total m + item_weight a"
    using m Some bt.weight_store [where m = m and k = "key a" and v = w and weight = weight] grow_weight [OF v(1) a v(2) w]
    by (simp add: n total_def well_kept_def)
  moreover have "well_kept n"
    unfolding n using m grow_good [OF v(1) a v(2) w] grow_key [OF v(1) a v(2) w] v(2)
    by (intro well_kept_put) simp_all
  ultimately show ?thesis
    using m bt.keys_store [of m "key a" w] by (simp add: n well_kept_def)
qed

lemma accumulate_keeps:
  assumes "accumulate key start grow xs m = Inr n" and "well_kept m" and "\<forall>a \<in> set xs. good_item a"
  shows "well_kept n \<and> total n = total m + (\<Sum>a \<leftarrow> xs. item_weight a)
    \<and> fst ` set n = key ` set xs \<union> fst ` set m"
  using assms
proof (induction xs arbitrary: m)
  case (Cons a xs)
  then obtain k where step: "upsert (key a) (start a) (\<lambda>v. grow v a) m = Inr k"
    and rest: "accumulate key start grow xs k = Inr n"
    by (auto simp: accumulate_def result_simps)
  from upsert_keeps [OF _ _ step] Cons.prems Cons.IH [OF rest] show ?case by auto
qed (simp add: accumulate_def)

end

text \<open>
  The same loop when it is known when growing succeeds: as long as every weight stays under its
  cap. Then a loop over items that fit together returns.
\<close>

locale capped_accumulator =
  fixes key :: "'a \<Rightarrow> 'k::linorder"
    and start :: "'a \<Rightarrow> 'v"
    and grow :: "'v \<Rightarrow> 'a \<Rightarrow> 'e + 'v"
    and value_key :: "'v \<Rightarrow> 'k"
    and good_item :: "'a \<Rightarrow> bool"
    and good :: "'v \<Rightarrow> bool"
    and item_weight :: "'w \<Rightarrow> 'a \<Rightarrow> nat"
    and weight :: "'w \<Rightarrow> 'v \<Rightarrow> nat"
    and cap :: "'w \<Rightarrow> nat"
  assumes weighed: "keyed_accumulator key start grow value_key good_item good (item_weight w) (weight w)"
    and grow_fits: "good v \<Longrightarrow> good_item a \<Longrightarrow> value_key v = key a \<Longrightarrow>
        (\<And>w. weight w v + item_weight w a \<le> cap w) \<Longrightarrow> \<exists>u. grow v a = Inr u"
begin

sublocale kept: keyed_accumulator key start grow value_key good_item good "item_weight w" "weight w"
  for w
  by (rule weighed)

lemma accumulate_returns:
  assumes "kept.well_kept m" and "\<forall>a \<in> set xs. good_item a"
    and "\<And>w. kept.total w m + (\<Sum>a \<leftarrow> xs. item_weight w a) \<le> cap w"
  shows "\<exists>n. accumulate key start grow xs m = Inr n"
  using assms
proof (induction xs arbitrary: m)
  case (Cons a xs)
  have "\<exists>n. upsert (key a) (start a) (\<lambda>v. grow v a) m = Inr n"
  proof (cases "bt_get m (key a)")
    case (Some v)
    then have v: "(key a, v) \<in> set m" by (rule bt_get_in)
    then have le: "weight w v \<le> kept.total w m" for w
      unfolding kept.total_def using member_le_sum_list [of "weight w v" "map (\<lambda>e. weight w (snd e)) m"]
      by force
    have "weight w v + item_weight w a \<le> cap w" for w
      using Cons.prems(3) [of w] le [of w] by simp
    with v Cons.prems(1,2) have "\<exists>u. grow v a = Inr u"
      by (intro grow_fits) (auto simp: kept.well_kept_def)
    with Some show ?thesis by (auto simp: upsert_def)
  qed (simp add: upsert_def)
  then obtain n where step: "upsert (key a) (start a) (\<lambda>v. grow v a) m = Inr n" ..
  have "\<exists>k. accumulate key start grow xs n = Inr k"
    using Cons.prems kept.upsert_keeps [OF Cons.prems(1) _ step]
    by (intro Cons.IH) (auto simp: algebra_simps)
  with step show ?case by (simp add: accumulate_def)
qed (simp add: accumulate_def)

end

subsection \<open>The largest per key\<close>

text \<open>A map that keeps, for each key, the entry of the item with the largest score: an item replaces what
  is there only when its score is larger.\<close>

definition keep_largest ::
    "('a \<Rightarrow> 'k::linorder option) \<Rightarrow> ('a \<Rightarrow> 'n::linorder) \<Rightarrow> ('a \<Rightarrow> 'v) \<Rightarrow> ('v \<Rightarrow> 'n) \<Rightarrow> 'a \<Rightarrow>
     ('k, 'v) btree \<Rightarrow> ('k, 'v) btree" where
  "keep_largest key score entry level a m =
     (case key a of
        None \<Rightarrow> m
      | Some k \<Rightarrow> if (case bt_get m k of None \<Rightarrow> True | Some v \<Rightarrow> level v < score a) then bt_put k (entry a) m else m)"

locale largest_per_key =
  fixes key :: "'a \<Rightarrow> 'k::linorder option"
    and score :: "'a \<Rightarrow> 'n::linorder"
    and entry :: "'a \<Rightarrow> 'v"
    and level :: "'v \<Rightarrow> 'n"
  assumes level_entry: "level (entry a) = score a"
    and entry_unique: "key a = Some k \<Longrightarrow> key b = Some k \<Longrightarrow> score a = score b \<Longrightarrow> entry a = entry b"
begin

definition top :: "'a set \<Rightarrow> 'k \<Rightarrow> 'a \<Rightarrow> bool" where
  "top items k a \<longleftrightarrow> a \<in> items \<and> key a = Some k \<and> (\<forall>b \<in> items. key b = Some k \<longrightarrow> score b \<le> score a)"

definition tops :: "'a set \<Rightarrow> ('k, 'v) btree \<Rightarrow> bool" where
  "tops items m \<longleftrightarrow> bt_ordered m \<and>
     (\<forall>k. case bt_get m k of
        None \<Rightarrow> \<forall>a \<in> items. key a \<noteq> Some k
      | Some v \<Rightarrow> \<exists>a. top items k a \<and> entry a = v)"

lemma topsD:
  assumes "tops items m"
  shows "bt_ordered m"
    "case bt_get m k of None \<Rightarrow> \<forall>a \<in> items. key a \<noteq> Some k | Some v \<Rightarrow> \<exists>a. top items k a \<and> entry a = v"
  using assms unfolding tops_def by blast+

lemma top_entry: "top items k a \<Longrightarrow> top items k b \<Longrightarrow> entry a = entry b"
  unfolding top_def by (blast intro: entry_unique order_antisym)

lemma tops_get:
  assumes "tops items m"
  shows "bt_get m k = Some v \<longleftrightarrow> (\<exists>a. top items k a \<and> entry a = v)"
proof (cases "bt_get m k")
  case None
  with topsD(2) [OF assms, of k] show ?thesis by (auto simp: top_def)
next
  case (Some w)
  with topsD(2) [OF assms, of k] obtain a where "top items k a" "entry a = w" by auto
  with Some top_entry [of items k a] show ?thesis by auto
qed

lemma tops_empty: "tops {} []"
  by (simp add: tops_def)

lemma tops_step:
  assumes "tops items m"
  shows "tops (insert a items) (keep_largest key score entry level a m)"
  unfolding tops_def
proof (rule conjI; (rule allI)?)
  show "bt_ordered (keep_largest key score entry level a m)"
    using topsD(1) [OF assms] by (simp add: keep_largest_def bt_simps split: option.split)
  fix k
  note old = topsD(2) [OF assms, of k]
  show "case bt_get (keep_largest key score entry level a m) k of
      None \<Rightarrow> \<forall>b \<in> insert a items. key b \<noteq> Some k
    | Some v \<Rightarrow> \<exists>b. top (insert a items) k b \<and> entry b = v"
  proof (cases "key a = Some k")
    case True
    show ?thesis
    proof (cases "bt_get m k")
      case None
      with old have "top (insert a items) k a" using True by (auto simp: top_def)
      with None True show ?thesis by (auto simp: keep_largest_def bt_simps)
    next
      case (Some v)
      with old obtain b where b: "top items k b" "entry b = v" by auto
      with level_entry [of b] have level: "level v = score b" by simp
      show ?thesis
      proof (cases "score b < score a")
        case True
        with b \<open>key a = Some k\<close> have "top (insert a items) k a" by (fastforce simp: top_def)
        with True Some level \<open>key a = Some k\<close> show ?thesis by (auto simp: keep_largest_def bt_simps)
      next
        case False
        with b \<open>key a = Some k\<close> have "top (insert a items) k b" by (auto simp: top_def)
        with False Some level b \<open>key a = Some k\<close> show ?thesis by (auto simp: keep_largest_def)
      qed
    qed
  next
    case False
    then have get: "bt_get (keep_largest key score entry level a m) k = bt_get m k"
      by (auto simp: keep_largest_def bt_simps split: option.split)
    have "top (insert a items) k b \<longleftrightarrow> top items k b" for b using False by (auto simp: top_def)
    with old False show ?thesis unfolding get by (simp split: option.splits)
  qed
qed

lemma tops_fold:
  "tops items m \<Longrightarrow> tops (items \<union> set as) (fold (keep_largest key score entry level) as m)"
proof (induction as arbitrary: items m)
  case (Cons a as)
  from Cons.IH [OF tops_step [OF Cons.prems, of a]] show ?case by simp
qed simp

lemma tops_folds:
  "tops items m \<Longrightarrow>
     tops (items \<union> set (concat ass)) (fold (fold (keep_largest key score entry level)) ass m)"
proof (induction ass arbitrary: items m)
  case (Cons as ass)
  from Cons.IH [OF tops_fold [OF Cons.prems, of as]] show ?case by (simp add: Un_assoc)
qed simp

lemma tops_unique:
  assumes "tops items m" "tops items n"
  shows "m = n"
proof (rule bt_ext)
  show "bt_ordered m" "bt_ordered n" by (rule topsD(1) [OF assms(1)], rule topsD(1) [OF assms(2)])
  show "bt_get m k = bt_get n k" for k
    by (rule option_eqI) (simp only: tops_get [OF assms(1)] tops_get [OF assms(2)])
qed

lemma tops_entry:
  assumes "tops items m"
  shows "(k, v) \<in> set m \<longleftrightarrow> (\<exists>a. top items k a \<and> entry a = v)"
  using tops_get [OF assms] bt_get_iff [OF topsD(1) [OF assms]] by simp

end

subsection \<open>Unsigned arithmetic at its width\<close>

definition checked_add :: "nat \<Rightarrow> nat \<Rightarrow> nat option" where
  "checked_add a b = (if a + b < 2 ^ 64 then Some (a + b) else None)"

definition saturating_add :: "nat \<Rightarrow> nat \<Rightarrow> nat" where
  "saturating_add a b = min (a + b) (2 ^ 64 - 1)"

lemma checked_add_Some [result_simps]: "checked_add a b = Some c \<longleftrightarrow> c = a + b \<and> c < 2 ^ 64"
  by (auto simp: checked_add_def)

end
