(* ===== verification/Text_Bytes.thy ===== *)
theory Text_Bytes
  imports Prelude
begin

text \<open>
  Text. A Rust \<open>&str\<close> is its UTF-8 bytes, so it is a \<open>string\<close> here with one \<open>char\<close> per byte:
  \<open>length\<close> is \<open>len()\<close>, \<open>char_count\<close> is \<open>chars().count()\<close>, \<open><\<close> is the byte order \<open>str\<close> is compared
  with. Decimal numerals stand for the \<open>Display\<close> and \<open>FromStr\<close> of the unbounded integers the code
  computes money with.
\<close>

subsection \<open>Byte classes\<close>

definition byte :: "char \<Rightarrow> nat" where
  "byte c = of_char c"

definition is_ascii :: "char \<Rightarrow> bool" where
  "is_ascii c \<longleftrightarrow> byte c < 128"

definition is_digit :: "char \<Rightarrow> bool" where
  "is_digit c \<longleftrightarrow> 48 \<le> byte c \<and> byte c \<le> 57"

definition is_ascii_lower :: "char \<Rightarrow> bool" where
  "is_ascii_lower c \<longleftrightarrow> 97 \<le> byte c \<and> byte c \<le> 122"

definition is_ascii_upper :: "char \<Rightarrow> bool" where
  "is_ascii_upper c \<longleftrightarrow> 65 \<le> byte c \<and> byte c \<le> 90"

definition is_ascii_alphanumeric :: "char \<Rightarrow> bool" where
  "is_ascii_alphanumeric c \<longleftrightarrow> is_digit c \<or> is_ascii_lower c \<or> is_ascii_upper c"

definition to_ascii_lowercase :: "string \<Rightarrow> string" where
  "to_ascii_lowercase s = map (\<lambda>c. if is_ascii_upper c then char_of (byte c + 32) else c) s"

text \<open>Scalar values: every byte but a continuation byte \<open>10xxxxxx\<close> starts one.\<close>

definition char_count :: "string \<Rightarrow> nat" where
  "char_count s = length (filter (\<lambda>c. \<not> (128 \<le> byte c \<and> byte c < 192)) s)"

text \<open>
  \<open>char::is_control\<close>: U+0000 to U+001F and U+007F are single bytes, U+0080 to U+009F are the byte
  0xC2 followed by 0x80 to 0x9F.
\<close>

fun has_control :: "string \<Rightarrow> bool" where
  "has_control [] = False"
| "has_control (c # cs) =
     (byte c < 32 \<or> byte c = 127 \<or>
      (byte c = 194 \<and> (case cs of [] \<Rightarrow> False | d # _ \<Rightarrow> 128 \<le> byte d \<and> byte d < 160)) \<or>
      has_control cs)"

lemma byte_bound: "byte c < 256"
  using of_char_mod_256 [of c, where ?'a = nat] unfolding byte_def
  by (metis mod_less_divisor zero_less_numeral)

lemma byte_inject: "byte c = byte d \<longleftrightarrow> c = d"
  by (simp add: byte_def)

lemma byte_0: "byte (CHR ''0'') = 48"
  by code_simp

lemma char_count_le: "char_count s \<le> length s"
  by (simp add: char_count_def)

lemma length_to_ascii_lowercase [simp]: "length (to_ascii_lowercase s) = length s"
  by (simp add: to_ascii_lowercase_def)

text \<open>\<open>str::from_utf8\<close> accepts the byte sequences of scalar values: no overlong form, no surrogate, nothing
  past U+10FFFF.\<close>

definition continuation :: "char \<Rightarrow> bool" where
  "continuation c \<longleftrightarrow> 128 \<le> byte c \<and> byte c < 192"

fun utf8_valid :: "string \<Rightarrow> bool" where
  "utf8_valid [] = True"
| "utf8_valid (c # cs) =
     (if byte c < 128 then utf8_valid cs
      else if 194 \<le> byte c \<and> byte c \<le> 223 then
        (case cs of d # r \<Rightarrow> continuation d \<and> utf8_valid r | _ \<Rightarrow> False)
      else if 224 \<le> byte c \<and> byte c \<le> 239 then
        (case cs of d # e # r \<Rightarrow> continuation d \<and> (byte c = 224 \<longrightarrow> 160 \<le> byte d) \<and>
            (byte c = 237 \<longrightarrow> byte d < 160) \<and> continuation e \<and> utf8_valid r | _ \<Rightarrow> False)
      else if 240 \<le> byte c \<and> byte c \<le> 244 then
        (case cs of d # e # f # r \<Rightarrow> continuation d \<and> (byte c = 240 \<longrightarrow> 144 \<le> byte d) \<and>
            (byte c = 244 \<longrightarrow> byte d < 144) \<and> continuation e \<and> continuation f \<and> utf8_valid r | _ \<Rightarrow> False)
      else False)"

text \<open>\<open>char::is_whitespace\<close>: the bytes of the whitespace scalar value a text starts with, 0 for none.\<close>

fun whitespace_size :: "string \<Rightarrow> nat" where
  "whitespace_size [] = 0"
| "whitespace_size (c # cs) =
     (if 9 \<le> byte c \<and> byte c \<le> 13 \<or> byte c = 32 then 1
      else if byte c = 194 then (case cs of d # _ \<Rightarrow> if byte d \<in> {133, 160} then 2 else 0 | _ \<Rightarrow> 0)
      else case cs of
        d # e # _ \<Rightarrow>
          if (byte c, byte d, byte e) \<in> {(225, 154, 128), (226, 129, 159), (227, 128, 128)} \<or>
             byte c = 226 \<and> byte d = 128 \<and> (128 \<le> byte e \<and> byte e \<le> 138 \<or> byte e \<in> {168, 169, 175})
          then 3 else 0
      | _ \<Rightarrow> 0)"

function trim_start :: "string \<Rightarrow> string" where
  "trim_start s = (if whitespace_size s = 0 then s else trim_start (drop (whitespace_size s) s))"
  by pat_completeness auto
termination
proof (relation "measure length")
  fix s assume "whitespace_size s \<noteq> 0"
  then show "(drop (whitespace_size s) s, s) \<in> measure length" by (cases s) auto
qed simp

definition whitespace_suffix :: "string \<Rightarrow> nat" where
  "whitespace_suffix s =
     (case filter (\<lambda>k. k \<le> length s \<and> whitespace_size (drop (length s - k) s) = k) [1, 2, 3] of
        [] \<Rightarrow> 0 | k # _ \<Rightarrow> k)"

function trim_end :: "string \<Rightarrow> string" where
  "trim_end s =
     (if whitespace_suffix s = 0 \<or> s = [] then s else trim_end (take (length s - whitespace_suffix s) s))"
  by pat_completeness auto
termination by (relation "measure length") auto

declare trim_start.simps [simp del] trim_end.simps [simp del]

definition trim :: "string \<Rightarrow> string" where
  "trim s = trim_end (trim_start s)"

definition text_contains :: "string \<Rightarrow> string \<Rightarrow> bool" where
  "text_contains x s \<longleftrightarrow> list_ex (\<lambda>i. take (length x) (drop i s) = x) [0..<Suc (length s)]"

subsection \<open>Decimal numerals\<close>

definition digit_value :: "char \<Rightarrow> nat" where
  "digit_value c = byte c - 48"

definition digit_char :: "nat \<Rightarrow> char" where
  "digit_char n = char_of (48 + n)"

definition digits_value :: "string \<Rightarrow> nat" where
  "digits_value s = foldl (\<lambda>n c. 10 * n + digit_value c) 0 s"

fun decimal_string :: "nat \<Rightarrow> string" where
  "decimal_string n =
     (if n < 10 then [digit_char n] else decimal_string (n div 10) @ [digit_char (n mod 10)])"

declare decimal_string.simps [simp del]

lemma byte_digit_char: "n < 10 \<Longrightarrow> byte (digit_char n) = 48 + n"
  by (simp add: byte_def digit_char_def)

lemma is_digit_digit_char: "n < 10 \<Longrightarrow> is_digit (digit_char n)"
  by (simp add: is_digit_def byte_digit_char)

lemma digit_value_digit_char: "n < 10 \<Longrightarrow> digit_value (digit_char n) = n"
  by (simp add: digit_value_def byte_digit_char)

lemma digits_value_append1: "digits_value (s @ [c]) = 10 * digits_value s + digit_value c"
  by (simp add: digits_value_def)

lemma digits_value_decimal_string [simp]: "digits_value (decimal_string n) = n"
proof (induction n rule: decimal_string.induct)
  case (1 n)
  show ?case
  proof (cases "n < 10")
    case True
    then show ?thesis
      by (simp add: decimal_string.simps [of n] digits_value_def digit_value_digit_char)
  next
    case False
    with "1.IH" show ?thesis
      by (simp add: decimal_string.simps [of n] digits_value_append1 digit_value_digit_char)
  qed
qed

lemma decimal_string_digits: "c \<in> set (decimal_string n) \<Longrightarrow> is_digit c"
proof (induction n rule: decimal_string.induct)
  case (1 n)
  then show ?case
    by (cases "n < 10") (auto simp: decimal_string.simps [of n] is_digit_digit_char)
qed

lemma decimal_string_not_Nil [simp]: "decimal_string n \<noteq> []"
  by (subst decimal_string.simps) simp

lemma hd_decimal_string: "0 < n \<Longrightarrow> byte (hd (decimal_string n)) \<noteq> 48"
proof (induction n rule: decimal_string.induct)
  case (1 n)
  then show ?case
    by (cases "n < 10") (simp_all add: decimal_string.simps [of n] byte_digit_char)
qed

lemma decimal_string_0: "decimal_string 0 = ''0''"
  by code_simp

lemma length_decimal_string_one: "1 < length (decimal_string n) \<Longrightarrow> 0 < n"
  by (cases "n = 0") (simp_all add: decimal_string_0)

lemma length_decimal_string: "n < 10 ^ k \<Longrightarrow> 0 < k \<Longrightarrow> length (decimal_string n) \<le> k"
proof (induction n arbitrary: k rule: decimal_string.induct)
  case (1 n)
  show ?case
  proof (cases "n < 10")
    case True
    with 1(3) show ?thesis by (subst decimal_string.simps) simp
  next
    case False
    then obtain j where k: "k = Suc j" and j: "0 < j"
      using 1(2,3) by (cases k; cases "k - 1") auto
    with 1(2) have "n div 10 < 10 ^ j"
      by (simp add: div_less_iff_less_mult mult.commute)
    from "1.IH" [OF False this j] False k show ?thesis
      by (subst decimal_string.simps) simp
  qed
qed

lemma digits_value_bound: "list_all is_digit s \<Longrightarrow> digits_value s < 10 ^ length s"
proof (induction s rule: rev_induct)
  case (snoc c s)
  then have "digits_value s + 1 \<le> 10 ^ length s" and "digit_value c < 10"
    by (auto simp: is_digit_def digit_value_def)
  then have "10 * digits_value s + digit_value c < 10 * 10 ^ length s" by linarith
  then show ?case by (simp add: digits_value_append1)
qed (simp add: digits_value_def)

lemma length_decimal_string_iff: "0 < k \<Longrightarrow> length (decimal_string n) \<le> k \<longleftrightarrow> n < 10 ^ k"
proof
  assume "length (decimal_string n) \<le> k"
  then have "(10::nat) ^ length (decimal_string n) \<le> 10 ^ k" by simp
  moreover have "n < 10 ^ length (decimal_string n)"
    using digits_value_bound [of "decimal_string n"] by (simp add: list_all_iff decimal_string_digits)
  ultimately show "n < 10 ^ k" by linarith
qed (rule length_decimal_string)

text \<open>A numeral without leading zeros is the one its value prints as.\<close>

lemma digit_char_digit_value: "is_digit c \<Longrightarrow> digit_char (digit_value c) = c"
  by (simp add: is_digit_def digit_value_def digit_char_def byte_def)

lemma canonical_numeral:
  assumes "s \<noteq> []" and "list_all is_digit s" and "1 < length s \<longrightarrow> hd s \<noteq> CHR ''0''"
  shows "decimal_string (digits_value s) = s \<and> (hd s \<noteq> CHR ''0'' \<longrightarrow> 0 < digits_value s)"
  using assms
proof (induction s rule: rev_induct)
  case (snoc c s)
  then have c: "is_digit c" and digit: "digit_value c < 10" by (auto simp: is_digit_def digit_value_def)
  have nonzero: "c \<noteq> CHR ''0'' \<longrightarrow> 0 < digit_value c"
    using c byte_inject [of c "CHR ''0''"] by (auto simp: is_digit_def digit_value_def byte_0)
  show ?case
  proof (cases "s = []")
    case True
    then show ?thesis
      using c digit nonzero by (simp add: digits_value_def decimal_string.simps digit_char_digit_value)
  next
    case False
    with snoc have "decimal_string (digits_value s) = s" and "0 < digits_value s"
      by (auto simp: Suc_le_eq)
    with digit c show ?thesis
      by (simp add: digits_value_append1 decimal_string.simps [of "10 * digits_value s + digit_value c"]
          digit_char_digit_value)
  qed
qed simp

subsection \<open>Splitting and parsing\<close>

text \<open>\<open>str::split_once\<close> and \<open>str::split\<close> at a byte.\<close>

definition split_once :: "char \<Rightarrow> string \<Rightarrow> (string \<times> string) option" where
  "split_once c s =
     (if c \<in> set s then Some (takeWhile (\<lambda>d. d \<noteq> c) s, tl (dropWhile (\<lambda>d. d \<noteq> c) s)) else None)"

fun split_on :: "char \<Rightarrow> string \<Rightarrow> string list" where
  "split_on c [] = [[]]"
| "split_on c (d # s) =
     (if d = c then [] # split_on c s
      else case split_on c s of [] \<Rightarrow> [[d]] | p # ps \<Rightarrow> (d # p) # ps)"

text \<open>\<open>parse\<close> of an integer type with least value \<open>low\<close> and greatest value \<open>high\<close>.\<close>

definition parse_integer :: "int \<Rightarrow> int \<Rightarrow> string \<Rightarrow> int option" where
  "parse_integer low high s =
     (let (neg, ds) = (case s of
            [] \<Rightarrow> (False, [])
          | c # cs \<Rightarrow> if c = CHR ''-'' \<and> low < 0 then (True, cs)
              else if c = CHR ''+'' then (False, cs) else (False, s))
      in if ds = [] \<or> \<not> list_all is_digit ds then None
         else let v = (if neg then - int (digits_value ds) else int (digits_value ds))
           in if low \<le> v \<and> v \<le> high then Some v else None)"

abbreviation "parse_i32 \<equiv> parse_integer (- (2 ^ 31)) (2 ^ 31 - 1)"
abbreviation "parse_u32 \<equiv> parse_integer 0 (2 ^ 32 - 1)"
abbreviation "parse_i64 \<equiv> parse_integer (- (2 ^ 63)) (2 ^ 63 - 1)"

text \<open>\<open>{:0w}\<close> of a value that is not negative.\<close>

definition zero_padded :: "nat \<Rightarrow> nat \<Rightarrow> string" where
  "zero_padded w n = replicate (w - length (decimal_string n)) CHR ''0'' @ decimal_string n"

lemma split_once_append: "c \<notin> set a \<Longrightarrow> split_once c (a @ c # b) = Some (a, b)"
  by (induction a) (auto simp: split_once_def)

lemma split_on_not_Nil [simp]: "split_on c s \<noteq> []"
  by (induction s) (auto split: list.splits)

lemma split_on_none: "c \<notin> set a \<Longrightarrow> split_on c a = [a]"
  by (induction a) auto

lemma split_on_append: "c \<notin> set a \<Longrightarrow> split_on c (a @ c # b) = a # split_on c b"
  by (induction a) auto

lemma digits_value_zeros: "digits_value (replicate k CHR ''0'' @ s) = digits_value s"
  by (induction k) (simp_all add: digits_value_def digit_value_def byte_0)

lemma zero_padded_digits: "list_all is_digit (zero_padded w n)"
  using decimal_string_digits by (auto simp: zero_padded_def list_all_iff is_digit_def byte_0)

lemma zero_padded_not_Nil [simp]: "zero_padded w n \<noteq> []"
  by (simp add: zero_padded_def)

lemma digits_value_zero_padded [simp]: "digits_value (zero_padded w n) = n"
  by (simp add: zero_padded_def digits_value_zeros)

lemma digits_no_char: "list_all is_digit s \<Longrightarrow> \<not> is_digit c \<Longrightarrow> c \<notin> set s"
  by (auto simp: list_all_iff)

lemma parse_integer_digits:
  assumes "list_all is_digit s" "s \<noteq> []" "low \<le> int (digits_value s)" "int (digits_value s) \<le> high"
  shows "parse_integer low high s = Some (int (digits_value s))"
proof (cases s)
  case (Cons c cs)
  with assms(1) have "is_digit c" by simp
  moreover have "\<not> is_digit CHR ''-''" "\<not> is_digit CHR ''+''" by code_simp+
  ultimately have "c \<noteq> CHR ''-''" "c \<noteq> CHR ''+''" by auto
  with assms Cons show ?thesis by (simp add: parse_integer_def)
qed (use assms in simp)

subsection \<open>Trimming and validity\<close>

lemma utf8_valid_ascii: "list_all is_ascii a \<Longrightarrow> utf8_valid a"
  by (induction a) (auto simp: is_ascii_def)

lemma digits_ascii: "list_all is_digit s \<Longrightarrow> list_all is_ascii s"
  by (induction s) (auto simp: is_ascii_def is_digit_def)

lemma whitespace_size_digit: "is_digit c \<Longrightarrow> whitespace_size (c # cs) = 0"
  by (auto simp: is_digit_def split: list.splits)

lemma trim_digits:
  assumes "list_all is_digit s"
  shows "trim s = s"
proof -
  have none: "whitespace_size (drop k s) = 0" for k
  proof (cases "drop k s")
    case (Cons c cs)
    then have "c \<in> set s" by (metis in_set_dropD list.set_intros(1))
    with assms Cons whitespace_size_digit show ?thesis by (auto simp: list_all_iff)
  qed simp
  then have "whitespace_suffix s = 0" by (simp add: whitespace_suffix_def)
  with none [of 0] show ?thesis by (simp add: trim_def trim_start.simps [of s] trim_end.simps [of s])
qed

end
