(* ===== verification/Usage_Rows.thy ===== *)
theory Usage_Rows
  imports Text_Bytes
begin

text \<open>
  The Usage data model of \<open>packages/service/src/usage/mod.rs\<close>: the enums a measurement is keyed by,
  a normalized event, an upload-shaped row, the boundary checks \<open>validate_event\<close>, \<open>validate_row\<close>
  and \<open>validate_dated_row\<close>, and the text and count checks they are made of. \<open>u64\<close> counts are
  \<open>nat\<close>; every count a check lets through is at most \<open>max_safe_count\<close> = \<open>2 ^ 53 - 1\<close>. What the
  code asks of the \<open>chrono\<close> and \<open>url\<close> crates is the record \<open>externs\<close>.
\<close>

subsection \<open>What other crates answer\<close>

record externs =
  naive_date :: "string \<Rightarrow> int option"
    \<comment> \<open>\<open>chrono::NaiveDate::parse_from_str(_, "%Y-%m-%d")\<close>, the date as a day number\<close>
  sunday_weekday :: "int \<Rightarrow> nat"
    \<comment> \<open>\<open>weekday().num_days_from_sunday()\<close> of a day number\<close>
  instant_of :: "string \<Rightarrow> int option"
    \<comment> \<open>\<open>chrono::DateTime::parse_from_rfc3339\<close>, the instant in nanoseconds since 1970\<close>
  secs_text :: "int \<Rightarrow> string"
    \<comment> \<open>\<open>to_rfc3339_opts(SecondsFormat::Secs, true)\<close> of a whole second since 1970\<close>
  instant_ok :: "int \<Rightarrow> bool"
    \<comment> \<open>whether chrono represents the instant, which its checked additions ask\<close>
  https_url_host :: "string \<Rightarrow> bool"
    \<comment> \<open>whether \<open>url::Url::parse\<close> accepts the text with scheme \<open>https\<close> and a host\<close>

definition is_rfc3339 :: "externs \<Rightarrow> string \<Rightarrow> bool" where
  "is_rfc3339 x s \<longleftrightarrow> instant_of x s \<noteq> None"

subsection \<open>Enums\<close>

text \<open>\<open>UsageAgent\<close>, \<open>BillingChannel\<close>, \<open>InferenceProvider\<close>, \<open>ChannelSource\<close>, \<open>ContextBucket\<close>.\<close>

datatype usage_agent =
  Codex | ClaudeCode | Grok | OpenCode | Pi | Cursor | Gemini | Copilot | Kilo | Antigravity

datatype inference_provider =
  Openai | Anthropic | Google | Xai | Moonshot | Deepseek | Cursor | Unknown

datatype channel_source = Explicit | AgentDefault | Unknown

datatype context_bucket = Le128k | Gt128kLe200k | Gt200kLe256k | Gt256kLe272k | Gt272k

datatype billing_channel =
  OpenaiDirect | AzureOpenai | AnthropicDirect | AwsBedrock | GoogleVertex | Openrouter
| XaiDirect | MoonshotDirect | DeepseekDirect | GoogleDirect | Unknown

fun agent_str :: "usage_agent \<Rightarrow> string" where
  "agent_str Codex = ''codex''"
| "agent_str ClaudeCode = ''claude_code''"
| "agent_str Grok = ''grok''"
| "agent_str OpenCode = ''opencode''"
| "agent_str Pi = ''pi''"
| "agent_str usage_agent.Cursor = ''cursor''"
| "agent_str Gemini = ''gemini''"
| "agent_str Copilot = ''copilot''"
| "agent_str Kilo = ''kilo''"
| "agent_str Antigravity = ''antigravity''"

fun channel_str :: "billing_channel \<Rightarrow> string" where
  "channel_str OpenaiDirect = ''openai_direct''"
| "channel_str AzureOpenai = ''azure_openai''"
| "channel_str AnthropicDirect = ''anthropic_direct''"
| "channel_str AwsBedrock = ''aws_bedrock''"
| "channel_str GoogleVertex = ''google_vertex''"
| "channel_str Openrouter = ''openrouter''"
| "channel_str XaiDirect = ''xai_direct''"
| "channel_str MoonshotDirect = ''moonshot_direct''"
| "channel_str DeepseekDirect = ''deepseek_direct''"
| "channel_str GoogleDirect = ''google_direct''"
| "channel_str billing_channel.Unknown = ''unknown''"

text \<open>The JSON text of a \<open>ChannelSource\<close> keeps its quotes: \<open>row_key\<close> uses \<open>serde_json::to_string\<close>.\<close>

fun source_json :: "channel_source \<Rightarrow> string" where
  "source_json Explicit = CHR 0x22 # ''explicit'' @ [CHR 0x22]"
| "source_json AgentDefault = CHR 0x22 # ''agent_default'' @ [CHR 0x22]"
| "source_json channel_source.Unknown = CHR 0x22 # ''unknown'' @ [CHR 0x22]"

fun context_str :: "context_bucket \<Rightarrow> string" where
  "context_str Le128k = ''le_128k''"
| "context_str Gt128kLe200k = ''gt_128k_le_200k''"
| "context_str Gt200kLe256k = ''gt_200k_le_256k''"
| "context_str Gt256kLe272k = ''gt_256k_le_272k''"
| "context_str Gt272k = ''gt_272k''"

definition context_bucket_of :: "nat \<Rightarrow> context_bucket" where
  "context_bucket_of n =
     (if n \<le> 128000 then Le128k
      else if n \<le> 200000 then Gt128kLe200k
      else if n \<le> 256000 then Gt200kLe256k
      else if n \<le> 272000 then Gt256kLe272k
      else Gt272k)"

text \<open>The derived \<open>Ord\<close> of an enum is the order its variants are declared in.\<close>

fun agent_rank :: "usage_agent \<Rightarrow> nat" where
  "agent_rank Codex = 0" | "agent_rank ClaudeCode = 1" | "agent_rank Grok = 2"
| "agent_rank OpenCode = 3" | "agent_rank Pi = 4" | "agent_rank usage_agent.Cursor = 5"
| "agent_rank Gemini = 6" | "agent_rank Copilot = 7" | "agent_rank Kilo = 8"
| "agent_rank Antigravity = 9"

fun channel_rank :: "billing_channel \<Rightarrow> nat" where
  "channel_rank OpenaiDirect = 0" | "channel_rank AzureOpenai = 1"
| "channel_rank AnthropicDirect = 2" | "channel_rank AwsBedrock = 3"
| "channel_rank GoogleVertex = 4" | "channel_rank Openrouter = 5"
| "channel_rank XaiDirect = 6" | "channel_rank MoonshotDirect = 7"
| "channel_rank DeepseekDirect = 8" | "channel_rank GoogleDirect = 9"
| "channel_rank billing_channel.Unknown = 10"

fun provider_rank :: "inference_provider \<Rightarrow> nat" where
  "provider_rank Openai = 0" | "provider_rank Anthropic = 1" | "provider_rank Google = 2"
| "provider_rank Xai = 3" | "provider_rank Moonshot = 4" | "provider_rank Deepseek = 5"
| "provider_rank inference_provider.Cursor = 6" | "provider_rank inference_provider.Unknown = 7"

lemma agent_rank_inject: "agent_rank a = agent_rank b \<longleftrightarrow> a = b"
  by (cases a; cases b; simp)

lemma channel_rank_inject: "channel_rank c = channel_rank d \<longleftrightarrow> c = d"
  by (cases c; cases d; simp)

lemma provider_rank_inject: "provider_rank p = provider_rank q \<longleftrightarrow> p = q"
  by (cases p; cases q; simp)

lemmas rank_inject = agent_rank_inject channel_rank_inject provider_rank_inject

instantiation usage_agent :: linorder
begin
definition less_eq_usage_agent_def: "a \<le> b \<longleftrightarrow> agent_rank a \<le> agent_rank b"
definition less_usage_agent_def: "a < b \<longleftrightarrow> agent_rank a < agent_rank b"
instance by standard (auto simp: less_eq_usage_agent_def less_usage_agent_def rank_inject)
end

instantiation billing_channel :: linorder
begin
definition less_eq_billing_channel_def: "a \<le> b \<longleftrightarrow> channel_rank a \<le> channel_rank b"
definition less_billing_channel_def: "a < b \<longleftrightarrow> channel_rank a < channel_rank b"
instance by standard (auto simp: less_eq_billing_channel_def less_billing_channel_def rank_inject)
end

instantiation inference_provider :: linorder
begin
definition less_eq_inference_provider_def: "a \<le> b \<longleftrightarrow> provider_rank a \<le> provider_rank b"
definition less_inference_provider_def: "a < b \<longleftrightarrow> provider_rank a < provider_rank b"
instance by standard
  (auto simp: less_eq_inference_provider_def less_inference_provider_def rank_inject)
end

lemma channel_str_inject [simp]: "channel_str c = channel_str d \<longleftrightarrow> c = d"
  by (cases c; cases d; simp)

lemma agent_str_inject [simp]: "agent_str a = agent_str b \<longleftrightarrow> a = b"
  by (cases a; cases b; simp)

lemma source_json_inject [simp]: "source_json a = source_json b \<longleftrightarrow> a = b"
  by (cases a; cases b; simp)

lemma context_str_inject [simp]: "context_str a = context_str b \<longleftrightarrow> a = b"
  by (cases a; cases b; simp)

subsection \<open>Text and count checks\<close>

datatype usage_error = UsageError string

definition max_safe_count :: nat where
  "max_safe_count = 9007199254740991"

definition bounded_model_text :: "string \<Rightarrow> string option" where
  "bounded_model_text value =
     (if value \<noteq> [] \<and> char_count value \<le> 128 \<and> \<not> has_control value then Some value else None)"

definition bounded_text :: "string \<Rightarrow> nat \<Rightarrow> string option" where
  "bounded_text value mx =
     (if value = [] \<or> mx < length value \<or> \<not> list_all is_ascii value
        \<or> \<not> list_all (\<lambda>c. is_ascii_alphanumeric c \<or> c \<in> set ''._:+-/*'') value
        \<or> \<not> is_ascii_alphanumeric (hd value)
      then None else Some value)"

definition parse_nonnegative_decimal_integer :: "string \<Rightarrow> nat option" where
  "parse_nonnegative_decimal_integer value =
     (if value = [] \<or> (1 < length value \<and> hd value = CHR ''0'') \<or> \<not> list_all is_digit value
      then None else Some (digits_value value))"

definition parse_optional_source_cost :: "string option \<Rightarrow> usage_error + nat" where
  "parse_optional_source_cost value =
     (case value of
        None \<Rightarrow> Inr 0
      | Some v \<Rightarrow> ok_or (UsageError ''invalid source cost'') (parse_nonnegative_decimal_integer v))"

definition calendar_date :: "externs \<Rightarrow> string \<Rightarrow> bool" where
  "calendar_date x value \<longleftrightarrow>
     length value = 10 \<and> value ! 4 = CHR ''-'' \<and> value ! 7 = CHR ''-'' \<and> naive_date x value \<noteq> None"

definition safe_sum :: "nat list \<Rightarrow> nat option" where
  "safe_sum values =
     (case fold (\<lambda>v s. Option.bind s (\<lambda>n. checked_add n v)) values (Some 0) of
        None \<Rightarrow> None
      | Some t \<Rightarrow> if t \<le> max_safe_count then Some t else None)"

text \<open>A project key is the basename of a work tree, kept only while it is short and printable.\<close>

definition bounded_project_key :: "string \<Rightarrow> string option" where
  "bounded_project_key value =
     (if value = [] \<or> value = ''.'' \<or> value = ''..'' \<or> 128 < char_count value \<or> has_control value
      then None else Some value)"

lemma parse_decimal_string [simp]: "parse_nonnegative_decimal_integer (decimal_string n) = Some n"
proof -
  have "list_all is_digit (decimal_string n)"
    by (simp add: list_all_iff decimal_string_digits)
  moreover have "hd (decimal_string n) \<noteq> CHR ''0''" if "1 < length (decimal_string n)"
    using hd_decimal_string [OF length_decimal_string_one [OF that]] by (auto simp: byte_def)
  ultimately show ?thesis by (simp add: parse_nonnegative_decimal_integer_def)
qed

subsection \<open>Events and rows\<close>

text \<open>
  \<open>NormalizedUsageEvent\<close>: one request a log records. The field names carry the prefix \<open>ev\<close> here
  and \<open>row\<close> on \<open>UsageRow\<close>, which the source tells apart by type.
\<close>

record billable_tools =
  web_search :: nat
  web_fetch :: nat

record usage_event =
  ev_occurred_at :: string
  ev_agent :: usage_agent
  ev_model :: string
  ev_billing_channel :: billing_channel
  ev_channel_source :: channel_source
  ev_input_tokens :: nat
  ev_cache_read_tokens :: nat
  ev_cache_write_5m_tokens :: nat
  ev_cache_write_1h_tokens :: nat
  ev_cache_write_inferred_tokens :: nat
  ev_output_tokens :: nat
  ev_reasoning_tokens :: nat
  ev_requests :: nat
  ev_context_bucket :: context_bucket
  ev_service_tier :: string
  ev_speed :: string
  ev_inference_geo :: string
  ev_billable_tools :: billable_tools
  ev_source_cost_microusd :: "string option"
  ev_source_cost_covered_requests :: nat
  ev_project_key :: "string option"

record usage_row =
  row_agent :: usage_agent
  row_billing_channel :: billing_channel
  row_channel_source :: channel_source
  row_model :: string
  row_context_bucket :: context_bucket
  row_service_tier :: string
  row_speed :: string
  row_inference_geo :: string
  row_input_tokens :: nat
  row_cache_read_tokens :: nat
  row_cache_write_5m_tokens :: nat
  row_cache_write_1h_tokens :: nat
  row_cache_write_inferred_tokens :: nat
  row_output_tokens :: nat
  row_reasoning_tokens :: nat
  row_requests :: nat
  row_web_search_requests :: nat
  row_web_fetch_requests :: nat
  row_source_cost_microusd :: "string option"
  row_source_cost_covered_requests :: nat

text \<open>\<open>DatedUsageRow\<close>: a row and the UTC date that prices it.\<close>

record dated_row =
  dated_date :: string
  dated_project_key :: string
  dated_row :: usage_row

subsection \<open>Boundary checks\<close>

text \<open>
  The two checks an event and a row share, on the values they read: the channel names its source,
  and a source cost covers its requests.
\<close>

definition check_channel :: "billing_channel \<Rightarrow> channel_source \<Rightarrow> usage_error + unit" where
  "check_channel channel source =
     (if channel = billing_channel.Unknown
      then ensure (source = channel_source.Unknown)
             (UsageError ''unknown channel requires unknown source'')
      else ensure (source \<noteq> channel_source.Unknown)
             (UsageError ''known channel cannot have unknown source''))"

definition check_dimension :: "string \<Rightarrow> usage_error + unit" where
  "check_dimension dimension =
     ensure (bounded_text dimension 64 \<noteq> None \<and> CHR ''/'' \<notin> set dimension)
       (UsageError ''invalid Usage dimension'')"

definition check_count :: "nat \<Rightarrow> usage_error + unit" where
  "check_count n =
     ensure (n \<le> max_safe_count) (UsageError ''Usage count exceeds JSON safe integer range'')"

definition each :: "('a \<Rightarrow> usage_error + unit) \<Rightarrow> 'a list \<Rightarrow> usage_error + unit" where
  "each check xs = fold_r (\<lambda>a _. check a) xs ()"

definition check_subsets ::
    "nat \<Rightarrow> nat \<Rightarrow> nat \<Rightarrow> nat \<Rightarrow> nat \<Rightarrow> nat \<Rightarrow> nat \<Rightarrow> usage_error + unit" where
  "check_subsets input cache_read write_5m write_1h write_inferred outp reasoning =
     rbind
       (ok_or (UsageError ''Usage input count overflow'')
         (Option.bind (checked_add cache_read write_5m) (\<lambda>n.
          Option.bind (checked_add n write_1h) (\<lambda>n. checked_add n write_inferred))))
       (\<lambda>classified. ensure (\<not> (input < classified \<or> outp < reasoning))
          (UsageError ''Usage token subset invariant failed''))"

definition check_source_cost :: "string option \<Rightarrow> nat \<Rightarrow> nat \<Rightarrow> usage_error + unit" where
  "check_source_cost source_cost covered requests =
     rbind (ensure (covered \<le> requests) (UsageError ''source cost coverage exceeds requests'')) (\<lambda>_.
       (case source_cost of
          Some cost \<Rightarrow>
            rbind (ensure (length cost \<le> 32)
              (UsageError ''source cost exceeds protocol bound'')) (\<lambda>_.
            rbind (ok_or (UsageError ''invalid source cost'')
              (parse_nonnegative_decimal_integer cost)) (\<lambda>_.
            ensure (covered \<noteq> 0) (UsageError ''source cost requires covered requests'')))
        | None \<Rightarrow> ensure (covered = 0)
            (UsageError ''source cost coverage requires source cost'')))"

definition validate_event :: "usage_event \<Rightarrow> usage_error + unit" where
  "validate_event e =
     rbind (ensure (bounded_model_text (ev_model e) \<noteq> None) (UsageError ''invalid Usage model'')) (\<lambda>_.
     rbind (check_channel (ev_billing_channel e) (ev_channel_source e)) (\<lambda>_.
     rbind (each check_dimension [ev_service_tier e, ev_speed e, ev_inference_geo e]) (\<lambda>_.
     rbind (ensure (\<not> (ev_requests e = 0 \<or> max_safe_count < ev_requests e))
       (UsageError ''invalid Usage request count'')) (\<lambda>_.
     rbind (each check_count
       [ev_input_tokens e, ev_cache_read_tokens e, ev_cache_write_5m_tokens e,
        ev_cache_write_1h_tokens e, ev_cache_write_inferred_tokens e, ev_output_tokens e,
        ev_reasoning_tokens e, web_search (ev_billable_tools e), web_fetch (ev_billable_tools e),
        ev_source_cost_covered_requests e]) (\<lambda>_.
     rbind (check_subsets (ev_input_tokens e) (ev_cache_read_tokens e)
       (ev_cache_write_5m_tokens e) (ev_cache_write_1h_tokens e)
       (ev_cache_write_inferred_tokens e) (ev_output_tokens e) (ev_reasoning_tokens e)) (\<lambda>_.
     check_source_cost (ev_source_cost_microusd e) (ev_source_cost_covered_requests e)
       (ev_requests e)))))))"

definition validate_row :: "usage_row \<Rightarrow> usage_error + unit" where
  "validate_row r =
     rbind (ensure (bounded_model_text (row_model r) \<noteq> None) (UsageError ''invalid Usage row'')) (\<lambda>_.
     rbind (ensure (row_requests r \<noteq> 0)
       (UsageError ''Usage facts require a positive request count'')) (\<lambda>_.
     rbind (check_channel (row_billing_channel r) (row_channel_source r)) (\<lambda>_.
     rbind (each check_count
       [row_input_tokens r, row_cache_read_tokens r, row_cache_write_5m_tokens r,
        row_cache_write_1h_tokens r, row_cache_write_inferred_tokens r, row_output_tokens r,
        row_reasoning_tokens r, row_requests r, row_web_search_requests r,
        row_web_fetch_requests r, row_source_cost_covered_requests r]) (\<lambda>_.
     rbind (each check_dimension [row_service_tier r, row_speed r, row_inference_geo r]) (\<lambda>_.
     rbind (check_subsets (row_input_tokens r) (row_cache_read_tokens r)
       (row_cache_write_5m_tokens r) (row_cache_write_1h_tokens r)
       (row_cache_write_inferred_tokens r) (row_output_tokens r) (row_reasoning_tokens r)) (\<lambda>_.
     check_source_cost (row_source_cost_microusd r) (row_source_cost_covered_requests r)
       (row_requests r)))))))"

definition validate_dated_row :: "externs \<Rightarrow> dated_row \<Rightarrow> usage_error + unit" where
  "validate_dated_row x r =
     rbind (ensure (calendar_date x (dated_date r)) (UsageError ''invalid Usage row date'')) (\<lambda>_.
       validate_row (dated_row r))"

subsection \<open>What the checks establish\<close>

definition row_ok :: "usage_row \<Rightarrow> bool" where
  "row_ok r \<longleftrightarrow> validate_row r = Inr ()"

text \<open>The amount a source-cost field names, in micro-USD.\<close>

definition cost_value :: "string option \<Rightarrow> nat" where
  "cost_value c = (case c of None \<Rightarrow> 0 | Some v \<Rightarrow> digits_value v)"

text \<open>
  What a row measures, named, so that a statement can speak of every count and the source cost at
  once.
\<close>

datatype row_measure =
  InputTokens | CacheReadTokens | CacheWrite5m | CacheWrite1h | CacheWriteInferred
| OutputTokens | ReasoningTokens | Requests | WebSearchRequests | WebFetchRequests | CoveredRequests | SourceCost

fun measured :: "row_measure \<Rightarrow> usage_row \<Rightarrow> nat" where
  "measured InputTokens r = row_input_tokens r"
| "measured CacheReadTokens r = row_cache_read_tokens r"
| "measured CacheWrite5m r = row_cache_write_5m_tokens r"
| "measured CacheWrite1h r = row_cache_write_1h_tokens r"
| "measured CacheWriteInferred r = row_cache_write_inferred_tokens r"
| "measured OutputTokens r = row_output_tokens r"
| "measured ReasoningTokens r = row_reasoning_tokens r"
| "measured Requests r = row_requests r"
| "measured WebSearchRequests r = row_web_search_requests r"
| "measured WebFetchRequests r = row_web_fetch_requests r"
| "measured CoveredRequests r = row_source_cost_covered_requests r"
| "measured SourceCost r = cost_value (row_source_cost_microusd r)"

lemma each_Inr [result_simps]: "each check xs = Inr u \<longleftrightarrow> (\<forall>a \<in> set xs. check a = Inr ())"
  unfolding each_def by (induction xs) (auto simp: result_simps)

lemma check_subsets_Inr [result_simps]:
  "check_subsets i a b c d t r = Inr u \<longleftrightarrow> a + b + c + d < 2 ^ 64 \<and> a + b + c + d \<le> i \<and> r \<le> t"
  by (auto simp: check_subsets_def result_simps bind_eq_Some_conv not_less)

lemma check_source_cost_Inr [result_simps]:
  "check_source_cost sc cov rq = Inr u \<longleftrightarrow> cov \<le> rq \<and>
     (case sc of None \<Rightarrow> cov = 0
      | Some v \<Rightarrow> length v \<le> 32 \<and> parse_nonnegative_decimal_integer v \<noteq> None \<and> cov \<noteq> 0)"
  by (cases sc) (auto simp: check_source_cost_def result_simps)

lemmas validate_row_Inr = validate_row_def [THEN arg_cong [where f = "\<lambda>t. t = Inr ()"],
  simplified result_simps]

lemma parse_optional_source_cost_Inr:
  "parse_optional_source_cost c = Inr n \<Longrightarrow> n = cost_value c"
  by (auto simp: parse_optional_source_cost_def cost_value_def result_simps
      parse_nonnegative_decimal_integer_def split: option.splits if_splits)

lemma row_ok_measured_le: "row_ok r \<Longrightarrow> f \<noteq> SourceCost \<Longrightarrow> measured f r \<le> max_safe_count"
  by (cases f) (auto simp: row_ok_def validate_row_Inr check_count_def result_simps)

lemma row_ok_subsets:
  "row_ok r \<Longrightarrow>
     row_cache_read_tokens r + row_cache_write_5m_tokens r + row_cache_write_1h_tokens r +
       row_cache_write_inferred_tokens r \<le> row_input_tokens r \<and>
     row_reasoning_tokens r \<le> row_output_tokens r"
  by (simp add: row_ok_def validate_row_Inr result_simps)

lemma row_ok_requests: "row_ok r \<Longrightarrow> 0 < row_requests r"
  by (simp add: row_ok_def validate_row_Inr result_simps)

lemma row_ok_cost:
  "row_ok r \<Longrightarrow>
     row_source_cost_covered_requests r \<le> row_requests r \<and>
     (row_source_cost_covered_requests r = 0 \<longleftrightarrow> row_source_cost_microusd r = None)"
  by (auto simp: row_ok_def validate_row_Inr result_simps split: option.splits)

text \<open>A concrete instance of what the other crates answer, for the examples.\<close>

definition sample_externs :: externs where
  "sample_externs = \<lparr>naive_date = (\<lambda>s. if s = ''2026-07-01'' then Some 20635 else None),
     sunday_weekday = (\<lambda>d. nat ((d + 4) mod 7)), instant_of = (\<lambda>s. if length s = 20 then Some 0 else None),
     secs_text = (\<lambda>t. replicate (nat t) CHR ''s''), instant_ok = (\<lambda>_. True),
     https_url_host = (\<lambda>s. take 8 s = ''https://'')\<rparr>"

end
