(* ===== verification/Usage_Fold.thy ===== *)
theory Usage_Fold
  imports Usage_Rows
begin

text \<open>
  How measurements add up (\<open>packages/service/src/usage/mod.rs\<close>): \<open>add_row\<close>, the hour folds
  \<open>aggregate_hourly_facts\<close>, \<open>fold_project_dimension\<close> and \<open>fold_rows_into_other\<close>, and the period
  totals \<open>fold_usage_rows\<close>, \<open>summary_totals\<close>, \<open>add_summary_totals\<close>. The hour folds are instances
  of \<open>keyed_accumulator\<close>, so that each conserves every count and the source cost.
\<close>

subsection \<open>Adding one row to another\<close>

definition safe_add :: "string \<Rightarrow> string \<Rightarrow> nat \<Rightarrow> nat \<Rightarrow> usage_error + nat" where
  "safe_add overflow unsafe a b =
     rbind (ok_or (UsageError overflow) (checked_add a b)) (\<lambda>n.
     rbind (ensure (\<not> max_safe_count < n) (UsageError unsafe)) (\<lambda>_. Inr n))"

definition add_row_counts :: "usage_row \<Rightarrow> usage_row \<Rightarrow> usage_error + usage_row" where
  "add_row_counts t s =
     (let plus = safe_add ''Usage count overflow'' ''Usage count exceeds JSON safe integer range'' in
      rbind (plus (row_input_tokens t) (row_input_tokens s)) (\<lambda>input.
      rbind (plus (row_cache_read_tokens t) (row_cache_read_tokens s)) (\<lambda>cache_read.
      rbind (plus (row_cache_write_5m_tokens t) (row_cache_write_5m_tokens s)) (\<lambda>write_5m.
      rbind (plus (row_cache_write_1h_tokens t) (row_cache_write_1h_tokens s)) (\<lambda>write_1h.
      rbind (plus (row_cache_write_inferred_tokens t) (row_cache_write_inferred_tokens s)) (\<lambda>write_inferred.
      rbind (plus (row_output_tokens t) (row_output_tokens s)) (\<lambda>outp.
      rbind (plus (row_reasoning_tokens t) (row_reasoning_tokens s)) (\<lambda>reasoning.
      rbind (plus (row_requests t) (row_requests s)) (\<lambda>requests.
      rbind (plus (row_web_search_requests t) (row_web_search_requests s)) (\<lambda>search.
      rbind (plus (row_web_fetch_requests t) (row_web_fetch_requests s)) (\<lambda>fetch.
      rbind (plus (row_source_cost_covered_requests t) (row_source_cost_covered_requests s)) (\<lambda>covered.
      Inr (t\<lparr>row_input_tokens := input, row_cache_read_tokens := cache_read,
             row_cache_write_5m_tokens := write_5m, row_cache_write_1h_tokens := write_1h,
             row_cache_write_inferred_tokens := write_inferred, row_output_tokens := outp,
             row_reasoning_tokens := reasoning, row_requests := requests,
             row_web_search_requests := search, row_web_fetch_requests := fetch,
             row_source_cost_covered_requests := covered\<rparr>)))))))))))))"

definition add_row :: "usage_row \<Rightarrow> usage_row \<Rightarrow> usage_error + usage_row" where
  "add_row t s =
     rbind (add_row_counts t s) (\<lambda>t.
     rbind (parse_optional_source_cost (row_source_cost_microusd t)) (\<lambda>left.
     rbind (parse_optional_source_cost (row_source_cost_microusd s)) (\<lambda>right.
     (let t = t\<lparr>row_source_cost_microusd :=
                  (if row_source_cost_covered_requests t = 0 then None
                   else Some (decimal_string (left + right)))\<rparr>
      in rbind (validate_row t) (\<lambda>_. Inr t)))))"

definition row_key :: "usage_row \<Rightarrow> string list" where
  "row_key r =
     [agent_str (row_agent r), channel_str (row_billing_channel r),
      source_json (row_channel_source r), row_model r, context_str (row_context_bucket r),
      row_service_tier r, row_speed r, row_inference_geo r]"

lemma safe_add_Inr [result_simps]:
  "safe_add o' u a b = Inr n \<longleftrightarrow> n = a + b \<and> a + b \<le> max_safe_count"
  by (auto simp: safe_add_def result_simps max_safe_count_def)

lemma safe_add_fits: "a + b \<le> max_safe_count \<Longrightarrow> safe_add o' u a b = Inr (a + b)"
  by (simp add: safe_add_Inr)

lemma add_row_measured:
  assumes "add_row t s = Inr r" and "row_ok t" and "row_ok s"
  shows "measured f r = measured f t + measured f s"
proof (cases f)
  case SourceCost
  show ?thesis
  proof (cases "row_source_cost_covered_requests t + row_source_cost_covered_requests s = 0")
    case True
    with assms SourceCost row_ok_cost [of t] row_ok_cost [of s] show ?thesis
      by (auto simp: add_row_def add_row_counts_def Let_def result_simps cost_value_def)
  next
    case False
    with assms SourceCost show ?thesis
      by (auto simp: add_row_def add_row_counts_def Let_def result_simps
          dest!: parse_optional_source_cost_Inr) (simp_all add: cost_value_def)
  qed
qed (use assms(1) in \<open>auto simp: add_row_def add_row_counts_def Let_def result_simps\<close>)

lemma add_row_ok: "add_row t s = Inr r \<Longrightarrow> row_ok r"
  by (auto simp: add_row_def Let_def result_simps row_ok_def)

lemma add_row_key: "add_row t s = Inr r \<Longrightarrow> row_key r = row_key t"
  by (auto simp: add_row_def add_row_counts_def Let_def result_simps row_key_def)

lemma row_key_identity:
  "row_key r = row_key s \<longleftrightarrow>
     row_agent r = row_agent s \<and> row_billing_channel r = row_billing_channel s \<and>
     row_channel_source r = row_channel_source s \<and> row_model r = row_model s \<and>
     row_context_bucket r = row_context_bucket s \<and> row_service_tier r = row_service_tier s \<and>
     row_speed r = row_speed s \<and> row_inference_geo r = row_inference_geo s"
  by (simp add: row_key_def)

text \<open>
  When adding succeeds: every sum stays a JSON-safe integer and the cost keeps to 32 digits.
\<close>

definition measure_cap :: "row_measure \<Rightarrow> nat" where
  "measure_cap m = (if m = SourceCost then 10 ^ 32 - 1 else max_safe_count)"

lemma row_ok_parse_cost:
  "row_ok r \<Longrightarrow> parse_optional_source_cost (row_source_cost_microusd r) =
     Inr (cost_value (row_source_cost_microusd r))"
  by (auto simp: row_ok_def validate_row_Inr parse_optional_source_cost_def cost_value_def
      parse_nonnegative_decimal_integer_def split: option.splits if_splits)

lemma add_row_returns:
  assumes t: "row_ok t" and s: "row_ok s" and fits: "\<And>m. measured m t + measured m s \<le> measure_cap m"
  shows "\<exists>r. add_row t s = Inr r"
proof -
  have cap: "measured m t + measured m s \<le> max_safe_count" if "m \<noteq> SourceCost" for m
    using fits [of m] that by (simp add: measure_cap_def)
  note caps = cap [of InputTokens] cap [of CacheReadTokens] cap [of CacheWrite5m]
    cap [of CacheWrite1h] cap [of CacheWriteInferred] cap [of OutputTokens] cap [of ReasoningTokens]
    cap [of Requests] cap [of WebSearchRequests] cap [of WebFetchRequests] cap [of CoveredRequests]
  let ?u = "t\<lparr>row_input_tokens := row_input_tokens t + row_input_tokens s,
      row_cache_read_tokens := row_cache_read_tokens t + row_cache_read_tokens s,
      row_cache_write_5m_tokens := row_cache_write_5m_tokens t + row_cache_write_5m_tokens s,
      row_cache_write_1h_tokens := row_cache_write_1h_tokens t + row_cache_write_1h_tokens s,
      row_cache_write_inferred_tokens := row_cache_write_inferred_tokens t + row_cache_write_inferred_tokens s,
      row_output_tokens := row_output_tokens t + row_output_tokens s,
      row_reasoning_tokens := row_reasoning_tokens t + row_reasoning_tokens s,
      row_requests := row_requests t + row_requests s,
      row_web_search_requests := row_web_search_requests t + row_web_search_requests s,
      row_web_fetch_requests := row_web_fetch_requests t + row_web_fetch_requests s,
      row_source_cost_covered_requests := row_source_cost_covered_requests t + row_source_cost_covered_requests s\<rparr>"
  obtain u where u: "add_row_counts t s = Inr u" and u_def: "u = ?u"
    using caps by (simp add: add_row_counts_def Let_def safe_add_fits)
  have cost: "row_source_cost_microusd u = row_source_cost_microusd t" by (simp add: u_def)
  have len: "length (decimal_string (measured SourceCost t + measured SourceCost s)) \<le> 32"
    using fits [of SourceCost] by (intro length_decimal_string) (simp_all add: measure_cap_def)
  let ?r = "u\<lparr>row_source_cost_microusd :=
      (if row_source_cost_covered_requests u = 0 then None
       else Some (decimal_string (measured SourceCost t + measured SourceCost s)))\<rparr>"
  have "validate_row ?r = Inr ()"
    using t s caps len row_ok_subsets [OF t] row_ok_subsets [OF s] row_ok_cost [OF t] row_ok_cost [OF s]
    unfolding u_def
    by (simp add: row_ok_def validate_row_Inr check_count_def max_safe_count_def result_simps)
  then have "add_row t s = Inr ?r"
    using u cost t s by (simp add: add_row_def row_ok_parse_cost Let_def split: if_splits)
  then show ?thesis ..
qed

subsection \<open>One hour's facts\<close>

record local_fact =
  fact_project_key :: string
  fact_row :: usage_row

definition row_of_event :: "usage_event \<Rightarrow> usage_row" where
  "row_of_event e =
     \<lparr>row_agent = ev_agent e, row_billing_channel = ev_billing_channel e,
      row_channel_source = ev_channel_source e, row_model = ev_model e,
      row_context_bucket = ev_context_bucket e, row_service_tier = ev_service_tier e,
      row_speed = ev_speed e, row_inference_geo = ev_inference_geo e,
      row_input_tokens = ev_input_tokens e, row_cache_read_tokens = ev_cache_read_tokens e,
      row_cache_write_5m_tokens = ev_cache_write_5m_tokens e,
      row_cache_write_1h_tokens = ev_cache_write_1h_tokens e,
      row_cache_write_inferred_tokens = ev_cache_write_inferred_tokens e,
      row_output_tokens = ev_output_tokens e, row_reasoning_tokens = ev_reasoning_tokens e,
      row_requests = ev_requests e,
      row_web_search_requests = web_search (ev_billable_tools e),
      row_web_fetch_requests = web_fetch (ev_billable_tools e),
      row_source_cost_microusd = ev_source_cost_microusd e,
      row_source_cost_covered_requests = ev_source_cost_covered_requests e\<rparr>"

definition event_project_key :: "usage_event \<Rightarrow> string" where
  "event_project_key e =
     (case Option.bind (ev_project_key e) bounded_project_key of None \<Rightarrow> [] | Some k \<Rightarrow> k)"

definition event_key :: "usage_event \<Rightarrow> string list" where
  "event_key e = row_key (row_of_event e) @ [event_project_key e]"

definition fact_of_event :: "usage_event \<Rightarrow> local_fact" where
  "fact_of_event e = \<lparr>fact_project_key = event_project_key e, fact_row = row_of_event e\<rparr>"

definition grow_fact :: "local_fact \<Rightarrow> usage_event \<Rightarrow> usage_error + local_fact" where
  "grow_fact f e =
     rbind (add_row (fact_row f) (row_of_event e)) (\<lambda>r. Inr (f\<lparr>fact_row := r\<rparr>))"

definition aggregate_hourly_facts :: "usage_event list \<Rightarrow> usage_error + local_fact list" where
  "aggregate_hourly_facts events =
     rbind
       (fold_r (\<lambda>e rows. rbind (validate_event e) (\<lambda>_.
          upsert (event_key e) (fact_of_event e) (\<lambda>f. grow_fact f e) rows)) events [])
       (\<lambda>rows. Inr (map snd rows))"

definition fold_project_dimension :: "local_fact list \<Rightarrow> usage_error + usage_row list" where
  "fold_project_dimension facts =
     rbind
       (fold_r (\<lambda>f rows. upsert (row_key (fact_row f)) (fact_row f)
          (\<lambda>r. add_row r (fact_row f)) rows) facts [])
       (\<lambda>rows. Inr (map snd rows))"

definition aggregate_hour_rows :: "usage_event list \<Rightarrow> usage_error + usage_row list" where
  "aggregate_hour_rows events = rbind (aggregate_hourly_facts events) fold_project_dimension"

lemma validate_event_row_ok: "validate_event e = Inr () \<Longrightarrow> row_ok (row_of_event e)"
  by (simp add: row_ok_def validate_row_Inr) (simp add: row_of_event_def validate_event_def
      result_simps check_count_def max_safe_count_def split: option.splits)

interpretation facts: capped_accumulator event_key fact_of_event grow_fact
  "\<lambda>f. row_key (fact_row f) @ [fact_project_key f]" "\<lambda>e. validate_event e = Inr ()"
  "\<lambda>f. row_ok (fact_row f)" "\<lambda>m e. measured m (row_of_event e)" "\<lambda>m f. measured m (fact_row f)"
  measure_cap
proof unfold_locales
  fix f :: local_fact and e :: usage_event
  assume "row_ok (fact_row f)" "validate_event e = Inr ()"
    and "\<And>m. measured m (fact_row f) + measured m (row_of_event e) \<le> measure_cap m"
  then have "\<exists>r. add_row (fact_row f) (row_of_event e) = Inr r"
    by (intro add_row_returns) (auto simp: validate_event_row_ok)
  then show "\<exists>u. grow_fact f e = Inr u" by (auto simp: grow_fact_def)
qed (auto simp: fact_of_event_def event_key_def grow_fact_def result_simps validate_event_row_ok
      add_row_key add_row_measured intro: add_row_ok)

interpretation projects: capped_accumulator "\<lambda>f. row_key (fact_row f)" fact_row
  "\<lambda>r f. add_row r (fact_row f)" row_key "\<lambda>f. row_ok (fact_row f)" row_ok
  "\<lambda>m f. measured m (fact_row f)" measured measure_cap
  by unfold_locales
    (auto simp: add_row_key add_row_measured intro: add_row_ok intro!: add_row_returns)

lemma aggregate_hourly_facts_sound:
  assumes "aggregate_hourly_facts events = Inr facts"
  shows "(\<forall>e \<in> set events. validate_event e = Inr ()) \<and> (\<forall>f \<in> set facts. row_ok (fact_row f)) \<and>
    sorted_wrt (<) (map (\<lambda>f. row_key (fact_row f) @ [fact_project_key f]) facts) \<and>
    (\<Sum>f \<leftarrow> facts. measured m (fact_row f)) = (\<Sum>e \<leftarrow> events. measured m (row_of_event e))"
proof -
  from assms obtain rows where rows: "facts = map snd rows"
    and valid: "\<forall>e \<in> set events. validate_event e = Inr ()"
    and run: "accumulate event_key fact_of_event grow_fact events [] = Inr rows"
    by (auto simp: aggregate_hourly_facts_def result_simps fold_r_checked accumulate_def)
  note kept = facts.kept.accumulate_keeps [OF run facts.kept.well_kept_Nil valid, of m]
  have "map (\<lambda>f. row_key (fact_row f) @ [fact_project_key f]) facts = map fst rows"
    using kept by (auto simp: rows facts.kept.well_kept_def)
  then have "sorted_wrt (<) (map (\<lambda>f. row_key (fact_row f) @ [fact_project_key f]) facts)"
    using kept by (simp add: facts.kept.well_kept_def bt_ordered_def del: map_map map_eq_conv)
  then show ?thesis
    using kept valid by (auto simp: rows facts.kept.well_kept_def facts.kept.total_def comp_def)
qed

text \<open>
  Two valid rows with the same identity and the same measures are the same row, the text of the
  source cost included, because a cost is kept as the numeral it prints as.
\<close>

lemma row_ok_cost_text:
  "row_ok r \<Longrightarrow> row_source_cost_microusd r =
     (if row_source_cost_covered_requests r = 0 then None
      else Some (decimal_string (measured SourceCost r)))"
  using canonical_numeral [of "the (row_source_cost_microusd r)"]
  by (auto simp: row_ok_def validate_row_Inr cost_value_def parse_nonnegative_decimal_integer_def
      split: option.splits if_splits)

lemma row_ok_eqI:
  fixes r s :: usage_row
  assumes "row_ok r" and "row_ok s" and "row_key r = row_key s" and m: "\<And>m. measured m r = measured m s"
  shows "r = s"
proof -
  have "row_source_cost_microusd r = row_source_cost_microusd s"
    using m [of CoveredRequests] m [of SourceCost]
    by (subst row_ok_cost_text [OF assms(1)], subst row_ok_cost_text [OF assms(2)])
      (simp del: measured.simps(12))
  then show ?thesis
    using assms(3) m [of InputTokens] m [of CacheReadTokens] m [of CacheWrite5m]
      m [of CacheWrite1h] m [of CacheWriteInferred] m [of OutputTokens] m [of ReasoningTokens]
      m [of Requests] m [of WebSearchRequests] m [of WebFetchRequests] m [of CoveredRequests]
    by (intro usage_row.equality) (simp_all add: row_key_identity)
qed

text \<open>The measures of one key alone are conserved as well, so a value is determined by its key.\<close>

interpretation fact_of_key: keyed_accumulator event_key fact_of_event grow_fact
  "\<lambda>f. row_key (fact_row f) @ [fact_project_key f]" "\<lambda>e. validate_event e = Inr ()"
  "\<lambda>f. row_ok (fact_row f)"
  "\<lambda>e. if event_key e = k then measured m (row_of_event e) else 0"
  "\<lambda>f. if row_key (fact_row f) @ [fact_project_key f] = k then measured m (fact_row f) else 0"
  for k m
  by unfold_locales
    (auto simp: fact_of_event_def event_key_def grow_fact_def result_simps validate_event_row_ok
      add_row_key add_row_measured intro: add_row_ok)

lemma bt_weight_at:
  assumes "bt_ordered m" and "(k, v) \<in> set m"
  shows "(\<Sum>e \<leftarrow> m. if fst e = k then w (snd e) else (0 :: nat)) = w v"
  using assms
proof (induction m)
  case (Cons e m)
  have rest: "(\<Sum>e \<leftarrow> m. if fst e = k then w (snd e) else (0 :: nat)) = 0" if "\<forall>e \<in> set m. fst e \<noteq> k"
    using that by (induction m) auto
  obtain j u where e: "e = (j, u)" by (cases e)
  from Cons.prems have later: "\<forall>x \<in> set m. j < fst x" by (simp add: e bt_ordered_Cons)
  show ?case
  proof (cases "j = k")
    case True
    with Cons.prems later have "u = v" by (auto simp: e)
    moreover have "\<forall>x \<in> set m. fst x \<noteq> k" using True later by auto
    ultimately show ?thesis using True rest by (simp add: e)
  qed (use Cons in \<open>auto simp: e bt_ordered_Cons\<close>)
qed simp

lemma accumulate_facts_value:
  assumes run: "accumulate event_key fact_of_event grow_fact events [] = Inr rows"
    and valid: "\<forall>e \<in> set events. validate_event e = Inr ()" and "(k, f) \<in> set rows"
  shows "measured m (fact_row f) =
    (\<Sum>e \<leftarrow> events. if event_key e = k then measured m (row_of_event e) else 0)"
proof -
  note kept = fact_of_key.accumulate_keeps [OF run fact_of_key.well_kept_Nil valid, of k m]
  let ?amount = "\<lambda>f. measured m (fact_row f)"
  have "(\<Sum>e \<leftarrow> rows. if fst e = k then ?amount (snd e) else 0) = ?amount f"
    using kept assms(3) by (intro bt_weight_at) (simp_all add: fact_of_key.well_kept_def)
  moreover have "map (\<lambda>e. if fst e = k then ?amount (snd e) else 0) rows =
      map (\<lambda>e. if row_key (fact_row (snd e)) @ [fact_project_key (snd e)] = k then ?amount (snd e) else 0) rows"
    using kept by (auto simp: fact_of_key.well_kept_def)
  ultimately show ?thesis using kept by (simp add: fact_of_key.total_def)
qed

lemma fold_project_dimension_sound:
  assumes "fold_project_dimension facts = Inr rows" and "\<forall>f \<in> set facts. row_ok (fact_row f)"
  shows "(\<forall>r \<in> set rows. row_ok r) \<and> sorted_wrt (<) (map row_key rows) \<and>
    (\<Sum>r \<leftarrow> rows. measured m r) = (\<Sum>f \<leftarrow> facts. measured m (fact_row f))"
proof -
  from assms(1) obtain entries where rows: "rows = map snd entries"
    and run: "accumulate (\<lambda>f. row_key (fact_row f)) fact_row (\<lambda>r f. add_row r (fact_row f)) facts []
      = Inr entries"
    by (auto simp: fold_project_dimension_def result_simps accumulate_def)
  note kept = projects.kept.accumulate_keeps [OF run projects.kept.well_kept_Nil assms(2), of m]
  have "map row_key rows = map fst entries"
    using kept by (auto simp: rows projects.kept.well_kept_def)
  then have "sorted_wrt (<) (map row_key rows)"
    using kept by (simp add: projects.kept.well_kept_def bt_ordered_def del: map_map map_eq_conv)
  then show ?thesis
    using kept by (auto simp: rows projects.kept.well_kept_def projects.kept.total_def comp_def)
qed

subsection \<open>An hour folded to its wire bound\<close>

definition usage_other_model :: string where
  "usage_other_model = ''other''"

fun fold_overflow :: "usage_row list \<Rightarrow> usage_row option \<Rightarrow> usage_error + usage_row option" where
  "fold_overflow [] folded = Inr folded"
| "fold_overflow (r # rs) (Some t) = rbind (add_row t r) (\<lambda>t. fold_overflow rs (Some t))"
| "fold_overflow (r # rs) None = fold_overflow rs (Some (r\<lparr>row_model := usage_other_model\<rparr>))"

fun merge_or_push :: "usage_row \<Rightarrow> usage_row list \<Rightarrow> usage_error + usage_row list" where
  "merge_or_push folded [] = Inr [folded]"
| "merge_or_push folded (r # rs) =
     (if row_key r = row_key folded
      then rbind (add_row r folded) (\<lambda>t. Inr (t # rs))
      else rbind (merge_or_push folded rs) (\<lambda>rs. Inr (r # rs)))"

definition by_requests :: "usage_row list \<Rightarrow> usage_row list" where
  "by_requests = sort_key (\<lambda>r. (- int (row_requests r), row_key r))"

definition fold_rows_into_other :: "usage_row list \<Rightarrow> nat \<Rightarrow> usage_error + usage_row list" where
  "fold_rows_into_other rows limit =
     (if length rows \<le> limit \<or> limit = 0 then Inr rows
      else
        let rows = by_requests rows;
            overflow = drop (limit - 1) rows;
            rows = take (limit - 1) rows
        in rbind (fold_overflow overflow None) (\<lambda>folded.
           rbind (case folded of Some f \<Rightarrow> merge_or_push f rows | None \<Rightarrow> Inr rows) (\<lambda>rows.
           Inr (sort_key row_key rows))))"

lemma measured_model [simp]: "measured m (r\<lparr>row_model := t\<rparr>) = measured m r"
  by (cases m) simp_all

lemma row_ok_other: "row_ok r \<Longrightarrow> row_ok (r\<lparr>row_model := usage_other_model\<rparr>)"
proof -
  have "bounded_model_text usage_other_model \<noteq> None" by code_simp
  then show "row_ok r \<Longrightarrow> row_ok (r\<lparr>row_model := usage_other_model\<rparr>)"
    by (simp add: row_ok_def validate_row_Inr split: option.splits)
qed

lemma add_row_model: "add_row t s = Inr r \<Longrightarrow> row_model r = row_model t"
  using add_row_key row_key_identity by blast

lemma fold_overflow_keeps:
  assumes "fold_overflow rs folded = Inr out" and "\<forall>r \<in> set rs. row_ok r"
    and "\<forall>t. folded = Some t \<longrightarrow> row_ok t \<and> row_model t = usage_other_model"
    and "rs = [] \<longrightarrow> folded \<noteq> None"
  shows "\<exists>t. out = Some t \<and> row_ok t \<and> row_model t = usage_other_model \<and>
    measured m t = (case folded of None \<Rightarrow> 0 | Some f \<Rightarrow> measured m f) + (\<Sum>r \<leftarrow> rs. measured m r)"
  using assms
proof (induction rs folded rule: fold_overflow.induct)
  case (2 r rs t)
  from "2.prems" obtain u where u: "add_row t r = Inr u" and "fold_overflow rs (Some u) = Inr out"
    by (auto simp: result_simps)
  with "2.IH" [OF u] "2.prems" add_row_ok [OF u] add_row_model [OF u]
    add_row_measured [OF u, of m]
  show ?case by auto
qed (auto simp: row_ok_other)

lemma merge_or_push_keeps:
  assumes "merge_or_push f rows = Inr out" and "row_ok f" and "\<forall>r \<in> set rows. row_ok r"
  shows "(\<forall>r \<in> set out. row_ok r) \<and> length out \<le> Suc (length rows) \<and>
    (\<Sum>r \<leftarrow> out. measured m r) = measured m f + (\<Sum>r \<leftarrow> rows. measured m r)"
  using assms
  by (induction f rows arbitrary: out rule: merge_or_push.induct)
    (fastforce simp: result_simps add_row_measured dest: add_row_ok split: if_splits)+

lemma merge_or_push_keys:
  assumes "merge_or_push f rows = Inr out" and "distinct (map row_key rows)"
  shows "distinct (map row_key out) \<and> row_key ` set out = insert (row_key f) (row_key ` set rows)"
  using assms
proof (induction f rows arbitrary: out rule: merge_or_push.induct)
  case (2 f r rs)
  show ?case
  proof (cases "row_key r = row_key f")
    case True
    with "2.prems" obtain t where t: "add_row r f = Inr t" and "out = t # rs"
      by (auto simp: result_simps)
    with True "2.prems"(2) add_row_key [OF t] show ?thesis by auto
  next
    case False
    with "2.prems" obtain rest where "merge_or_push f rs = Inr rest" and "out = r # rest"
      by (auto simp: result_simps)
    with False "2.prems"(2) "2.IH" [OF False] show ?thesis by auto
  qed
qed simp

lemma merge_or_push_others:
  assumes "merge_or_push f rows = Inr out" and "row_model r \<noteq> row_model f"
  shows "r \<in> set out \<longleftrightarrow> r \<in> set rows"
  using assms
  by (induction f rows arbitrary: out rule: merge_or_push.induct)
    (auto simp: result_simps row_key_identity dest: add_row_model split: if_splits)

lemma fold_overflow_returns:
  assumes "\<forall>r \<in> set rs. row_ok r" and "\<forall>t. folded = Some t \<longrightarrow> row_ok t"
    and "\<And>m. (case folded of None \<Rightarrow> 0 | Some f \<Rightarrow> measured m f) + (\<Sum>r \<leftarrow> rs. measured m r) \<le> measure_cap m"
  shows "\<exists>out. fold_overflow rs folded = Inr out"
  using assms
proof (induction rs folded rule: fold_overflow.induct)
  case (2 r rs t)
  have "measured m t + measured m r \<le> measure_cap m" for m
    using "2.prems"(3) [of m] by simp
  then obtain u where u: "add_row t r = Inr u"
    using "2.prems" add_row_returns [of t r] by auto
  have "\<exists>out. fold_overflow rs (Some u) = Inr out"
    using "2.prems" add_row_ok [OF u] add_row_measured [OF u]
    by (intro "2.IH" [OF u]) (auto simp: algebra_simps)
  with u show ?case by simp
qed (auto simp: row_ok_other)

lemma merge_or_push_returns:
  assumes "row_ok f" and "\<forall>r \<in> set rows. row_ok r"
    and "\<And>m. measured m f + (\<Sum>r \<leftarrow> rows. measured m r) \<le> measure_cap m"
  shows "\<exists>out. merge_or_push f rows = Inr out"
  using assms
proof (induction f rows rule: merge_or_push.induct)
  case (2 f r rs)
  have "measured m r + measured m f \<le> measure_cap m" for m
    using "2.prems"(3) [of m] by simp
  then have "\<exists>u. add_row r f = Inr u"
    using "2.prems" by (intro add_row_returns) auto
  moreover have "measured m f + (\<Sum>r \<leftarrow> rs. measured m r) \<le> measure_cap m" for m
    using "2.prems"(3) [of m] by simp
  then have "\<exists>out. merge_or_push f rs = Inr out" if "row_key r \<noteq> row_key f"
    using "2.prems" by (intro "2.IH" [OF that]) auto
  ultimately show ?case by auto
qed simp

text \<open>The two ways the fold returns.\<close>

lemma fold_rows_into_other_cases:
  assumes "fold_rows_into_other rows limit = Inr out" and "\<forall>r \<in> set rows. row_ok r"
  obtains "out = rows" and "length rows \<le> limit \<or> limit = 0"
  | f merged where "limit < length rows" and "0 < limit"
    and "fold_overflow (drop (limit - 1) (by_requests rows)) None = Inr (Some f)"
    and "row_model f = usage_other_model" and "row_ok f"
    and "\<And>m. measured m f = (\<Sum>r \<leftarrow> drop (limit - 1) (by_requests rows). measured m r)"
    and "merge_or_push f (take (limit - 1) (by_requests rows)) = Inr merged"
    and "out = sort_key row_key merged"
proof (cases "length rows \<le> limit \<or> limit = 0")
  case False
  let ?over = "drop (limit - 1) (by_requests rows)"
  from False assms(1) obtain folded where folded: "fold_overflow ?over None = Inr folded"
    and rest: "rbind (case folded of Some f \<Rightarrow> merge_or_push f (take (limit - 1) (by_requests rows))
        | None \<Rightarrow> Inr (take (limit - 1) (by_requests rows))) (\<lambda>rows. Inr (sort_key row_key rows)) = Inr out"
    by (auto simp: fold_rows_into_other_def Let_def rbind_Inr [of "fold_overflow _ _"]
        simp del: One_nat_def)
  have "?over \<noteq> []" using False by (auto simp: by_requests_def)
  moreover have "\<forall>r \<in> set ?over. row_ok r"
    using assms(2) by (auto simp: by_requests_def dest: in_set_dropD)
  ultimately have f: "\<exists>f. folded = Some f \<and> row_ok f \<and> row_model f = usage_other_model \<and>
      measured m f = (\<Sum>r \<leftarrow> ?over. measured m r)" for m
    using fold_overflow_keeps [OF folded, of m] by auto
  then obtain g where g: "folded = Some g" by blast
  with rest obtain merged
    where "merge_or_push g (take (limit - 1) (by_requests rows)) = Inr merged"
      and "out = sort_key row_key merged"
    by (auto simp: result_simps simp del: One_nat_def)
  with False folded f g show ?thesis
    by (intro that(2) [of g merged]) (simp_all del: One_nat_def)
qed (use assms that(1) in \<open>auto simp: fold_rows_into_other_def\<close>)

lemma sum_sort_key: "(\<Sum>r \<leftarrow> sort_key k rows. f r) = (\<Sum>r \<leftarrow> rows. (f r :: nat))"
proof -
  have "sum_mset (image_mset f (mset (sort_key k rows))) = sum_mset (image_mset f (mset rows))" by simp
  then show ?thesis by (simp only: mset_map [symmetric] sum_mset_sum_list)
qed

lemma sum_by_requests:
  "(\<Sum>r \<leftarrow> drop n (by_requests rows). measured m r) + (\<Sum>r \<leftarrow> take n (by_requests rows). measured m r)
     = (\<Sum>r \<leftarrow> rows. measured m r)"
proof -
  have "(\<Sum>r \<leftarrow> take n (by_requests rows) @ drop n (by_requests rows). measured m r) = (\<Sum>r \<leftarrow> rows. measured m r)"
    unfolding append_take_drop_id by_requests_def by (rule sum_sort_key)
  then show ?thesis by (simp add: add.commute del: append_take_drop_id)
qed

lemma fold_rows_into_other_keeps:
  assumes run: "fold_rows_into_other rows limit = Inr out" and ok: "\<forall>r \<in> set rows. row_ok r"
    and keys: "distinct (map row_key rows)"
  shows "(\<Sum>r \<leftarrow> out. measured m r) = (\<Sum>r \<leftarrow> rows. measured m r) \<and>
    (\<forall>r \<in> set out. row_ok r) \<and> distinct (map row_key out) \<and> (0 < limit \<longrightarrow> length out \<le> limit)"
  using fold_rows_into_other_cases [OF run ok]
proof cases
  case 1
  then show ?thesis using ok keys by auto
next
  case (2 f merged)
  let ?kept = "take (limit - 1) (by_requests rows)"
  have kept_ok: "\<forall>r \<in> set ?kept. row_ok r"
    using ok by (auto simp: by_requests_def dest: in_set_takeD)
  have "distinct (map row_key (by_requests rows))"
    using keys by (simp add: by_requests_def distinct_map)
  then have "distinct (map row_key ?kept)"
    by (simp add: take_map [symmetric])
  with merge_or_push_keys [OF 2(7)] have "distinct (map row_key out)"
    by (simp add: 2(8) distinct_map)
  moreover have "length out \<le> limit"
    using merge_or_push_keeps [OF 2(7,5) kept_ok, of m] 2(1,2) by (auto simp: 2(8))
  ultimately show ?thesis
    using merge_or_push_keeps [OF 2(7,5) kept_ok, of m] sum_by_requests [of m "limit - 1" rows]
    by (auto simp: 2(8) 2(6) sum_sort_key)
qed

lemma fold_rows_into_other_returns:
  assumes ok: "\<forall>r \<in> set rows. row_ok r"
    and fits: "\<And>m. (\<Sum>r \<leftarrow> rows. measured m r) \<le> measure_cap m"
  shows "\<exists>out. fold_rows_into_other rows limit = Inr out"
proof (cases "length rows \<le> limit \<or> limit = 0")
  case False
  let ?over = "drop (limit - 1) (by_requests rows)" and ?kept = "take (limit - 1) (by_requests rows)"
  have over_ok: "\<forall>r \<in> set ?over. row_ok r" and kept_ok: "\<forall>r \<in> set ?kept. row_ok r"
    using ok by (auto simp: by_requests_def dest: in_set_takeD in_set_dropD)
  have split: "(\<Sum>r \<leftarrow> ?over. measured m r) + (\<Sum>r \<leftarrow> ?kept. measured m r) \<le> measure_cap m" for m
    using fits [of m] by (simp only: sum_by_requests)
  have "(\<Sum>r \<leftarrow> ?over. measured m r) \<le> measure_cap m" for m
    using split [of m] by linarith
  then obtain folded where folded: "fold_overflow ?over None = Inr folded"
    using fold_overflow_returns [of ?over None] over_ok by auto
  have "?over \<noteq> []" using False by (auto simp: by_requests_def)
  then have f: "\<exists>f. folded = Some f \<and> row_ok f \<and> measured m f = (\<Sum>r \<leftarrow> ?over. measured m r)" for m
    using fold_overflow_keeps [OF folded over_ok, of m] by auto
  then obtain f where some: "folded = Some f" and "row_ok f" by blast
  moreover have "measured m f + (\<Sum>r \<leftarrow> ?kept. measured m r) \<le> measure_cap m" for m
    using f [of m] split [of m] some by simp
  ultimately have "\<exists>merged. merge_or_push f ?kept = Inr merged"
    using merge_or_push_returns kept_ok by blast
  with False folded some show ?thesis
    by (auto simp: fold_rows_into_other_def Let_def simp del: One_nat_def)
qed (simp add: fold_rows_into_other_def)

subsection \<open>Period totals\<close>

record token_totals =
  tt_input_tokens :: nat
  tt_cache_read_tokens :: nat
  tt_cache_write_5m_tokens :: nat
  tt_cache_write_1h_tokens :: nat
  tt_cache_write_inferred_tokens :: nat
  tt_output_tokens :: nat
  tt_reasoning_tokens :: nat
  tt_requests :: nat
  tt_web_search_requests :: nat
  tt_web_fetch_requests :: nat
  tt_source_cost_microusd :: "string option"
  tt_source_cost_covered_requests :: nat

definition token_totals_default :: token_totals where
  "token_totals_default =
     \<lparr>tt_input_tokens = 0, tt_cache_read_tokens = 0, tt_cache_write_5m_tokens = 0,
      tt_cache_write_1h_tokens = 0, tt_cache_write_inferred_tokens = 0, tt_output_tokens = 0,
      tt_reasoning_tokens = 0, tt_requests = 0, tt_web_search_requests = 0,
      tt_web_fetch_requests = 0, tt_source_cost_microusd = None,
      tt_source_cost_covered_requests = 0\<rparr>"

definition add_totals :: "token_totals \<Rightarrow> usage_row \<Rightarrow> usage_error + token_totals" where
  "add_totals t s =
     (let plus = safe_add ''Usage total overflow'' ''Usage total exceeds JSON safe integer range'' in
      rbind (plus (tt_input_tokens t) (row_input_tokens s)) (\<lambda>input.
      rbind (plus (tt_cache_read_tokens t) (row_cache_read_tokens s)) (\<lambda>cache_read.
      rbind (plus (tt_cache_write_5m_tokens t) (row_cache_write_5m_tokens s)) (\<lambda>write_5m.
      rbind (plus (tt_cache_write_1h_tokens t) (row_cache_write_1h_tokens s)) (\<lambda>write_1h.
      rbind (plus (tt_cache_write_inferred_tokens t) (row_cache_write_inferred_tokens s)) (\<lambda>write_inferred.
      rbind (plus (tt_output_tokens t) (row_output_tokens s)) (\<lambda>outp.
      rbind (plus (tt_reasoning_tokens t) (row_reasoning_tokens s)) (\<lambda>reasoning.
      rbind (plus (tt_requests t) (row_requests s)) (\<lambda>requests.
      rbind (plus (tt_web_search_requests t) (row_web_search_requests s)) (\<lambda>search.
      rbind (plus (tt_web_fetch_requests t) (row_web_fetch_requests s)) (\<lambda>fetch.
      rbind (plus (tt_source_cost_covered_requests t) (row_source_cost_covered_requests s)) (\<lambda>covered.
      Inr (t\<lparr>tt_input_tokens := input, tt_cache_read_tokens := cache_read,
             tt_cache_write_5m_tokens := write_5m, tt_cache_write_1h_tokens := write_1h,
             tt_cache_write_inferred_tokens := write_inferred, tt_output_tokens := outp,
             tt_reasoning_tokens := reasoning, tt_requests := requests,
             tt_web_search_requests := search, tt_web_fetch_requests := fetch,
             tt_source_cost_covered_requests := covered\<rparr>)))))))))))))"

definition totals_round :: "externs \<Rightarrow> dated_row \<Rightarrow> token_totals \<times> nat \<Rightarrow> usage_error + token_totals \<times> nat" where
  "totals_round x = (\<lambda>r (totals, source_cost).
     rbind (validate_dated_row x r) (\<lambda>_.
     rbind (add_totals totals (dated_row r)) (\<lambda>totals.
     rbind (case row_source_cost_microusd (dated_row r) of
              Some value \<Rightarrow> rbind (ok_or (UsageError ''invalid source_cost_microusd'')
                  (parse_nonnegative_decimal_integer value)) (\<lambda>n. Inr (source_cost + n))
            | None \<Rightarrow> Inr source_cost) (\<lambda>source_cost.
     Inr (totals, source_cost)))))"

definition total_cost :: "nat \<Rightarrow> nat \<Rightarrow> usage_error + string option" where
  "total_cost covered source_cost =
     (if covered = 0 then Inr None
      else let value = decimal_string source_cost in
        rbind (ensure (\<not> 32 < length value) (UsageError ''Usage source cost total exceeds protocol bound''))
          (\<lambda>_. Inr (Some value)))"

definition fold_usage_rows :: "externs \<Rightarrow> dated_row list \<Rightarrow> usage_error + token_totals" where
  "fold_usage_rows x rows =
     rbind
       (fold_r (totals_round x) rows (token_totals_default, 0))
       (\<lambda>(totals, source_cost).
          rbind (total_cost (tt_source_cost_covered_requests totals) source_cost) (\<lambda>cost.
          Inr (totals\<lparr>tt_source_cost_microusd := cost\<rparr>)))"

record summary_totals =
  st_total_tokens :: nat
  st_input_tokens :: nat
  st_output_tokens :: nat
  st_cache_read_input_tokens :: nat
  st_cache_write_input_tokens :: nat
  st_reasoning_tokens :: nat
  st_messages :: nat

definition safe_or_none :: "nat \<Rightarrow> nat option" where
  "safe_or_none n = (if n \<le> max_safe_count then Some n else None)"

definition summary_totals_of :: "externs \<Rightarrow> dated_row list \<Rightarrow> usage_error + summary_totals" where
  "summary_totals_of x rows =
     rbind (fold_usage_rows x rows) (\<lambda>totals.
     rbind (ok_or (UsageError ''Usage total token count exceeds JSON safe integer range'')
       (Option.bind (checked_add (tt_input_tokens totals) (tt_output_tokens totals)) safe_or_none))
       (\<lambda>total_tokens.
     rbind (ok_or (UsageError ''Usage cache-write count exceeds JSON safe integer range'')
       (Option.bind (Option.bind
          (checked_add (tt_cache_write_5m_tokens totals) (tt_cache_write_1h_tokens totals))
          (\<lambda>n. checked_add n (tt_cache_write_inferred_tokens totals))) safe_or_none))
       (\<lambda>cache_write.
     Inr \<lparr>st_total_tokens = total_tokens, st_input_tokens = tt_input_tokens totals,
          st_output_tokens = tt_output_tokens totals,
          st_cache_read_input_tokens = tt_cache_read_tokens totals,
          st_cache_write_input_tokens = cache_write,
          st_reasoning_tokens = tt_reasoning_tokens totals, st_messages = tt_requests totals\<rparr>)))"

definition add_summary_totals :: "summary_totals \<Rightarrow> summary_totals \<Rightarrow> usage_error + summary_totals" where
  "add_summary_totals l r =
     (let add = \<lambda>a b. ok_or (UsageError ''Usage total exceeds JSON safe integer range'')
                       (Option.bind (checked_add a b) safe_or_none) in
      rbind (add (st_total_tokens l) (st_total_tokens r)) (\<lambda>a.
      rbind (add (st_input_tokens l) (st_input_tokens r)) (\<lambda>b.
      rbind (add (st_output_tokens l) (st_output_tokens r)) (\<lambda>c.
      rbind (add (st_cache_read_input_tokens l) (st_cache_read_input_tokens r)) (\<lambda>d.
      rbind (add (st_cache_write_input_tokens l) (st_cache_write_input_tokens r)) (\<lambda>e.
      rbind (add (st_reasoning_tokens l) (st_reasoning_tokens r)) (\<lambda>f.
      rbind (add (st_messages l) (st_messages r)) (\<lambda>g.
      Inr \<lparr>st_total_tokens = a, st_input_tokens = b, st_output_tokens = c,
           st_cache_read_input_tokens = d, st_cache_write_input_tokens = e,
           st_reasoning_tokens = f, st_messages = g\<rparr>))))))))"

text \<open>What the totals measure, and the sum of a measure over the rows of a period.\<close>

fun totals_measured :: "row_measure \<Rightarrow> token_totals \<Rightarrow> nat" where
  "totals_measured InputTokens t = tt_input_tokens t"
| "totals_measured CacheReadTokens t = tt_cache_read_tokens t"
| "totals_measured CacheWrite5m t = tt_cache_write_5m_tokens t"
| "totals_measured CacheWrite1h t = tt_cache_write_1h_tokens t"
| "totals_measured CacheWriteInferred t = tt_cache_write_inferred_tokens t"
| "totals_measured OutputTokens t = tt_output_tokens t"
| "totals_measured ReasoningTokens t = tt_reasoning_tokens t"
| "totals_measured Requests t = tt_requests t"
| "totals_measured WebSearchRequests t = tt_web_search_requests t"
| "totals_measured WebFetchRequests t = tt_web_fetch_requests t"
| "totals_measured CoveredRequests t = tt_source_cost_covered_requests t"
| "totals_measured SourceCost t = cost_value (tt_source_cost_microusd t)"

definition period_sum :: "row_measure \<Rightarrow> dated_row list \<Rightarrow> nat" where
  "period_sum m rows = (\<Sum>r \<leftarrow> rows. measured m (dated_row r))"

lemma period_sum_simps [simp]:
  "period_sum m [] = 0" "period_sum m (r # rows) = measured m (dated_row r) + period_sum m rows"
  "period_sum m (rows @ others) = period_sum m rows + period_sum m others"
  by (simp_all add: period_sum_def)

lemma all_measures:
  "(\<forall>m. P m) \<longleftrightarrow> P InputTokens \<and> P CacheReadTokens \<and> P CacheWrite5m \<and> P CacheWrite1h \<and>
     P CacheWriteInferred \<and> P OutputTokens \<and> P ReasoningTokens \<and> P Requests \<and>
     P WebSearchRequests \<and> P WebFetchRequests \<and> P CoveredRequests \<and> P SourceCost"
  by (auto intro: row_measure.induct)

lemma add_totals_measured:
  assumes "add_totals t s = Inr u"
  shows "\<forall>m. m \<noteq> SourceCost \<longrightarrow> totals_measured m u = totals_measured m t + measured m s \<and>
    totals_measured m u \<le> max_safe_count"
  using assms by (auto simp: add_totals_def Let_def result_simps all_measures)

lemma add_totals_returns:
  assumes "\<forall>m. m \<noteq> SourceCost \<longrightarrow> totals_measured m t + measured m s \<le> max_safe_count"
  shows "\<exists>u. add_totals t s = Inr u"
  using assms
  by (simp add: all_measures add_totals_def Let_def safe_add_def checked_add_def max_safe_count_def)

lemma totals_round_Inr:
  "totals_round x r (t, c) = Inr (u, d) \<longleftrightarrow>
     validate_dated_row x r = Inr () \<and> add_totals t (dated_row r) = Inr u \<and>
     d = c + measured SourceCost (dated_row r)"
proof (cases "validate_dated_row x r = Inr ()")
  case True
  then have "row_ok (dated_row r)" by (auto simp: validate_dated_row_def row_ok_def result_simps)
  then have "parse_optional_source_cost (row_source_cost_microusd (dated_row r)) =
      Inr (measured SourceCost (dated_row r))" by (simp add: row_ok_parse_cost)
  with True show ?thesis
    by (auto simp: totals_round_def result_simps parse_optional_source_cost_def cost_value_def
        split: option.splits)
qed (auto simp: totals_round_def result_simps)

lemma totals_fold_Inr:
  "fold_r (totals_round x) rows (t, c) = Inr (u, d) \<Longrightarrow>
     (\<forall>r \<in> set rows. validate_dated_row x r = Inr ()) \<and> d = c + period_sum SourceCost rows \<and>
     (\<forall>m. m \<noteq> SourceCost \<longrightarrow> totals_measured m u = totals_measured m t + period_sum m rows)"
proof (induction rows arbitrary: t c)
  case (Cons r rows)
  then obtain v e where step: "totals_round x r (t, c) = Inr (v, e)"
    and rest: "fold_r (totals_round x) rows (v, e) = Inr (u, d)"
    by (auto simp: result_simps)
  from step Cons.IH [OF rest] add_totals_measured [of t "dated_row r" v] show ?case
    by (auto simp: totals_round_Inr)
qed auto

lemma totals_fold_returns:
  assumes "\<forall>r \<in> set rows. validate_dated_row x r = Inr ()"
    and "\<forall>m. m \<noteq> SourceCost \<longrightarrow> totals_measured m t + period_sum m rows \<le> max_safe_count"
  shows "\<exists>u d. fold_r (totals_round x) rows (t, c) = Inr (u, d)"
  using assms
proof (induction rows arbitrary: t c)
  case (Cons r rows)
  have "\<exists>u. add_totals t (dated_row r) = Inr u"
    using Cons.prems(2) by (intro add_totals_returns) (auto elim: allE intro: add_leD1 simp: add.assoc [symmetric])
  then obtain u where u: "add_totals t (dated_row r) = Inr u" ..
  then have step: "totals_round x r (t, c) = Inr (u, c + measured SourceCost (dated_row r))"
    using Cons.prems(1) by (simp add: totals_round_Inr)
  have "\<exists>v d. fold_r (totals_round x) rows (u, c + measured SourceCost (dated_row r)) = Inr (v, d)"
    using Cons.prems add_totals_measured [OF u] by (intro Cons.IH) (auto simp: add.assoc)
  with step show ?case by simp
qed simp

lemma totals_measured_default [simp]: "totals_measured m token_totals_default = 0"
  by (cases m) (simp_all add: token_totals_default_def cost_value_def)

lemma totals_fold_bounded:
  assumes "fold_r (totals_round x) rows (token_totals_default, c) = Inr (u, d)"
  shows "\<forall>m. m \<noteq> SourceCost \<longrightarrow> totals_measured m u \<le> max_safe_count"
proof -
  have "case (u, d) of (t, c) \<Rightarrow> \<forall>m. m \<noteq> SourceCost \<longrightarrow> totals_measured m t \<le> max_safe_count"
  proof (rule fold_r_invariant [OF assms])
    fix r and s s' :: "token_totals \<times> nat"
    assume "totals_round x r s = Inr s'"
    then show "case s' of (t, c) \<Rightarrow> \<forall>m. m \<noteq> SourceCost \<longrightarrow> totals_measured m t \<le> max_safe_count"
      by (cases s; cases s') (use add_totals_measured in \<open>auto simp: totals_round_Inr\<close>)
  qed simp
  then show ?thesis by simp
qed

lemma period_sum_uncovered:
  assumes "\<forall>r \<in> set rows. validate_dated_row x r = Inr ()" and "period_sum CoveredRequests rows = 0"
  shows "period_sum SourceCost rows = 0"
  using assms
proof (induction rows)
  case (Cons r rows)
  then have "row_ok (dated_row r)" by (auto simp: validate_dated_row_def row_ok_def result_simps)
  with Cons row_ok_cost [of "dated_row r"] show ?case by (simp add: cost_value_def)
qed simp

lemma total_cost_Inr [result_simps]:
  "total_cost covered c = Inr cost \<longleftrightarrow>
     (if covered = 0 then cost = None else c < 10 ^ 32 \<and> cost = Some (decimal_string c))"
  by (auto simp: total_cost_def Let_def result_simps not_less length_decimal_string_iff)

lemma fold_usage_rows_Inr:
  assumes "fold_usage_rows x rows = Inr t"
  shows "(\<forall>r \<in> set rows. validate_dated_row x r = Inr ()) \<and>
    (\<forall>m. totals_measured m t = period_sum m rows \<and> period_sum m rows \<le> measure_cap m)"
proof -
  from assms obtain p where run: "fold_r (totals_round x) rows (token_totals_default, 0) = Inr p"
    and rest: "(case p of (totals, source_cost) \<Rightarrow>
          rbind (total_cost (tt_source_cost_covered_requests totals) source_cost) (\<lambda>cost.
          Inr (totals\<lparr>tt_source_cost_microusd := cost\<rparr>))) = Inr t"
    unfolding fold_usage_rows_def by (auto simp only: rbind_Inr)
  obtain u c where p: "p = (u, c)" by (cases p)
  note run = run [unfolded p]
  from rest obtain cost
    where cost: "total_cost (tt_source_cost_covered_requests u) c = Inr cost"
      and t: "t = u\<lparr>tt_source_cost_microusd := cost\<rparr>"
    by (auto simp: p rbind_Inr)
  note cost = cost [unfolded total_cost_Inr]
  note sums = totals_fold_Inr [OF run] and bounds = totals_fold_bounded [OF run]
  have other: "totals_measured m t = totals_measured m u" if "m \<noteq> SourceCost" for m
    using that by (cases m) (simp_all add: t)
  have covered: "tt_source_cost_covered_requests u = period_sum CoveredRequests rows"
    using sums by (auto dest: spec [of _ CoveredRequests])
  have c: "c = period_sum SourceCost rows" using sums by simp
  have "totals_measured SourceCost t = c"
    using cost covered sums period_sum_uncovered [of rows x]
    by (auto simp: t cost_value_def split: if_splits)
  moreover have "c \<le> measure_cap SourceCost"
    using cost covered c sums period_sum_uncovered [of rows x]
    by (cases "tt_source_cost_covered_requests u = 0") (auto simp: measure_cap_def)
  ultimately have "totals_measured m t = period_sum m rows \<and> period_sum m rows \<le> measure_cap m" for m
    using sums bounds other [of m] c by (cases "m = SourceCost") (simp_all add: measure_cap_def)
  with sums show ?thesis by blast
qed

lemma fold_usage_rows_returns:
  assumes "\<forall>r \<in> set rows. validate_dated_row x r = Inr ()"
    and "\<forall>m. period_sum m rows \<le> measure_cap m"
  shows "\<exists>t. fold_usage_rows x rows = Inr t"
proof -
  have "\<forall>m. m \<noteq> SourceCost \<longrightarrow> totals_measured m token_totals_default + period_sum m rows \<le> max_safe_count"
    using assms(2) by (auto simp: measure_cap_def split: if_splits)
  then obtain u c where run: "fold_r (totals_round x) rows (token_totals_default, 0) = Inr (u, c)"
    using totals_fold_returns [OF assms(1)] by blast
  have "c < 10 ^ 32"
    using totals_fold_Inr [OF run] assms(2) [rule_format, of SourceCost] by (simp add: measure_cap_def)
  then have "\<exists>cost. total_cost (tt_source_cost_covered_requests u) c = Inr cost"
    by (cases "tt_source_cost_covered_requests u = 0") (auto simp: total_cost_Inr)
  with run show ?thesis by (auto simp: fold_usage_rows_def)
qed

definition period_summary :: "dated_row list \<Rightarrow> summary_totals" where
  "period_summary rows =
     \<lparr>st_total_tokens = period_sum InputTokens rows + period_sum OutputTokens rows,
      st_input_tokens = period_sum InputTokens rows,
      st_output_tokens = period_sum OutputTokens rows,
      st_cache_read_input_tokens = period_sum CacheReadTokens rows,
      st_cache_write_input_tokens = period_sum CacheWrite5m rows + period_sum CacheWrite1h rows
        + period_sum CacheWriteInferred rows,
      st_reasoning_tokens = period_sum ReasoningTokens rows,
      st_messages = period_sum Requests rows\<rparr>"

lemma period_sum_subsets:
  "\<forall>r \<in> set rows. validate_dated_row x r = Inr () \<Longrightarrow>
     period_sum CacheReadTokens rows + period_sum CacheWrite5m rows + period_sum CacheWrite1h rows
       + period_sum CacheWriteInferred rows \<le> period_sum InputTokens rows"
proof (induction rows)
  case (Cons r rows)
  then have "row_ok (dated_row r)" by (auto simp: validate_dated_row_def row_ok_def result_simps)
  with Cons row_ok_subsets [of "dated_row r"] show ?case by simp
qed simp

lemma summary_totals_of_Inr:
  "summary_totals_of x rows = Inr s \<longleftrightarrow>
     (\<forall>r \<in> set rows. validate_dated_row x r = Inr ()) \<and>
     (\<forall>m. period_sum m rows \<le> measure_cap m) \<and>
     period_sum InputTokens rows + period_sum OutputTokens rows \<le> max_safe_count \<and>
     s = period_summary rows"
proof (cases "(\<forall>r \<in> set rows. validate_dated_row x r = Inr ()) \<and> (\<forall>m. period_sum m rows \<le> measure_cap m)")
  case True
  then obtain t where t: "fold_usage_rows x rows = Inr t"
    using fold_usage_rows_returns by blast
  have tm: "totals_measured m t = period_sum m rows" for m
    using fold_usage_rows_Inr [OF t] by blast
  note fields = tm [of InputTokens] tm [of OutputTokens] tm [of CacheReadTokens] tm [of CacheWrite5m]
    tm [of CacheWrite1h] tm [of CacheWriteInferred] tm [of ReasoningTokens] tm [of Requests]
  have "period_sum InputTokens rows \<le> max_safe_count"
    using True by (auto simp: measure_cap_def split: if_splits)
  with True t fields period_sum_subsets [of rows x] show ?thesis
    by (auto simp: summary_totals_of_def result_simps bind_eq_Some_conv safe_or_none_def
        period_summary_def max_safe_count_def)
next
  case False
  then show ?thesis
    using fold_usage_rows_Inr by (fastforce simp: summary_totals_of_def result_simps)
qed

subsection \<open>Properties\<close>

lemma aggregate_hourly_facts_returns:
  assumes valid: "\<forall>e \<in> set events. validate_event e = Inr ()"
    and fits: "\<And>m. (\<Sum>e \<leftarrow> events. measured m (row_of_event e)) \<le> measure_cap m"
  shows "\<exists>facts. aggregate_hourly_facts events = Inr facts"
proof -
  obtain entries where "accumulate event_key fact_of_event grow_fact events [] = Inr entries"
    using facts.accumulate_returns [OF facts.kept.well_kept_Nil valid] fits
    by (auto simp: facts.kept.total_def)
  then show ?thesis
    using valid by (auto simp: aggregate_hourly_facts_def result_simps fold_r_checked accumulate_def)
qed

lemma aggregate_hour_rows_returns:
  assumes valid: "\<forall>e \<in> set events. validate_event e = Inr ()"
    and fits: "\<And>m. (\<Sum>e \<leftarrow> events. measured m (row_of_event e)) \<le> measure_cap m"
  shows "\<exists>rows. aggregate_hour_rows events = Inr rows"
proof -
  obtain found where found: "aggregate_hourly_facts events = Inr found"
    using aggregate_hourly_facts_returns [OF assms] ..
  note sound = aggregate_hourly_facts_sound [OF found]
  have "\<exists>entries. accumulate (\<lambda>f. row_key (fact_row f)) fact_row (\<lambda>r f. add_row r (fact_row f)) found []
      = Inr entries"
    using sound fits by (intro projects.accumulate_returns)
      (simp_all add: projects.kept.well_kept_Nil projects.kept.total_def)
  then show ?thesis
    using found by (auto simp: aggregate_hour_rows_def fold_project_dimension_def accumulate_def)
qed

lemma aggregate_hour_rows_sound:
  assumes "aggregate_hour_rows events = Inr rows"
  shows "(\<forall>r \<in> set rows. row_ok r) \<and> sorted_wrt (<) (map row_key rows) \<and>
    (\<Sum>r \<leftarrow> rows. measured m r) = (\<Sum>e \<leftarrow> events. measured m (row_of_event e))"
proof -
  from assms obtain found where found: "aggregate_hourly_facts events = Inr found"
    and rows: "fold_project_dimension found = Inr rows"
    by (auto simp: aggregate_hour_rows_def result_simps)
  show ?thesis
    using aggregate_hourly_facts_sound [OF found, of m] fold_project_dimension_sound [OF rows, of m]
    by simp
qed

definition sample_event :: usage_event where
  "sample_event =
     \<lparr>ev_occurred_at = ''2026-07-01T10:15:00Z'', ev_agent = Codex, ev_model = ''gpt-5'',
      ev_billing_channel = OpenaiDirect, ev_channel_source = Explicit, ev_input_tokens = 90,
      ev_cache_read_tokens = 40, ev_cache_write_5m_tokens = 0, ev_cache_write_1h_tokens = 0,
      ev_cache_write_inferred_tokens = 0, ev_output_tokens = 12, ev_reasoning_tokens = 5,
      ev_requests = 1, ev_context_bucket = Le128k, ev_service_tier = ''standard'',
      ev_speed = ''standard'', ev_inference_geo = ''unknown'',
      ev_billable_tools = \<lparr>web_search = 0, web_fetch = 0\<rparr>,
      ev_source_cost_microusd = Some ''70'', ev_source_cost_covered_requests = 1,
      ev_project_key = Some ''quota''\<rparr>"

definition sample_dated :: dated_row where
  "sample_dated = \<lparr>dated_date = ''2026-07-01'', dated_project_key = ''quota'',
     dated_row = row_of_event sample_event\<rparr>"

lemma sample_event_valid:
  "validate_event sample_event = Inr ()"
  "validate_event (sample_event\<lparr>ev_model := ''gpt-5-mini''\<rparr>) = Inr ()"
  "validate_event (sample_event\<lparr>ev_model := ''gpt-5-nano''\<rparr>) = Inr ()"
  by code_simp+

lemma sample_events_fit:
  "(\<Sum>e \<leftarrow> [sample_event, sample_event\<lparr>ev_model := ''gpt-5-mini''\<rparr>, sample_event\<lparr>ev_model := ''gpt-5-nano''\<rparr>].
     measured m (row_of_event e)) \<le> measure_cap m"
  by (induct m) code_simp+



text \<open>C2: The facts of an hour do not depend on the order its requests were read in: two orders of
  the same requests that both aggregate give the same facts, in the same order.\<close>

theorem hourly_facts_order_independent:
  assumes "aggregate_hourly_facts events = Inr facts" and "aggregate_hourly_facts others = Inr found"
    and same: "mset events = mset others"
  shows "facts = found"
proof -
  from assms(1) obtain rows where rows: "facts = map snd rows"
    and valid: "\<forall>e \<in> set events. validate_event e = Inr ()"
    and run: "accumulate event_key fact_of_event grow_fact events [] = Inr rows"
    by (auto simp: aggregate_hourly_facts_def result_simps fold_r_checked accumulate_def)
  from assms(2) obtain rows' where rows': "found = map snd rows'"
    and valid': "\<forall>e \<in> set others. validate_event e = Inr ()"
    and run': "accumulate event_key fact_of_event grow_fact others [] = Inr rows'"
    by (auto simp: aggregate_hourly_facts_def result_simps fold_r_checked accumulate_def)
  note kept = facts.kept.accumulate_keeps [OF run facts.kept.well_kept_Nil valid, of Requests]
    and kept' = facts.kept.accumulate_keeps [OF run' facts.kept.well_kept_Nil valid', of Requests]
  have weights: "(\<Sum>e \<leftarrow> events. w e) = (\<Sum>e \<leftarrow> others. w e)" for w :: "usage_event \<Rightarrow> nat"
    using same by (metis mset_map sum_mset_sum_list)
  have same_fact: "f = f'" if "(k, f) \<in> set rows" and "(k, f') \<in> set rows'" for k f f'
  proof -
    from that kept kept' have ok: "row_ok (fact_row f)" "row_ok (fact_row f')"
      and key: "row_key (fact_row f) @ [fact_project_key f] = row_key (fact_row f') @ [fact_project_key f']"
      by (auto simp: facts.kept.well_kept_def)
    have "measured m (fact_row f) = measured m (fact_row f')" for m
      using accumulate_facts_value [OF run valid that(1)] accumulate_facts_value [OF run' valid' that(2)]
        weights by simp
    then have "fact_row f = fact_row f'" using ok key by (intro row_ok_eqI) auto
    with key show ?thesis by (cases f; cases f') simp
  qed
  have "fst ` set rows = fst ` set rows'"
    using kept kept' mset_eq_setD [OF same] by simp
  moreover have "bt_ordered rows" "bt_ordered rows'"
    using kept kept' by (simp_all add: facts.kept.well_kept_def)
  ultimately have "rows = rows'"
    using same_fact by (intro bt_eqI) blast+
  then show ?thesis by (simp add: rows rows')
qed

theorem hourly_facts_order_independent_witness:
  "aggregate_hourly_facts [sample_event, sample_event\<lparr>ev_model := ''gpt-5-mini''\<rparr>] =
   aggregate_hourly_facts [sample_event\<lparr>ev_model := ''gpt-5-mini''\<rparr>, sample_event]"
proof -
  have fit: "(\<Sum>e \<leftarrow> [sample_event, sample_event\<lparr>ev_model := ''gpt-5-mini''\<rparr>]. measured m (row_of_event e)) \<le> measure_cap m"
    and fit': "(\<Sum>e \<leftarrow> [sample_event\<lparr>ev_model := ''gpt-5-mini''\<rparr>, sample_event]. measured m (row_of_event e)) \<le> measure_cap m"
    for m using sample_events_fit [of m] by (simp_all add: add.commute)
  obtain a b where "aggregate_hourly_facts [sample_event, sample_event\<lparr>ev_model := ''gpt-5-mini''\<rparr>] = Inr a"
    and "aggregate_hourly_facts [sample_event\<lparr>ev_model := ''gpt-5-mini''\<rparr>, sample_event] = Inr b"
    using aggregate_hourly_facts_returns [OF _ fit] aggregate_hourly_facts_returns [OF _ fit']
      sample_event_valid by auto
  then show ?thesis using hourly_facts_order_independent [of _ a _ b] by simp
qed

text \<open>C3: A period total exists exactly when every row passes the boundary check, every sum is
  JSON-safe (and the cost has at most 32 digits) and so is input plus output; and then it is the
  sums, none lost and none counted twice. The cache-write sum needs no condition of its own.\<close>

theorem summary_totals_exact:
  "summary_totals_of x rows = Inr s \<longleftrightarrow>
     (\<forall>r \<in> set rows. validate_dated_row x r = Inr ()) \<and>
     (\<forall>m. period_sum m rows \<le> measure_cap m) \<and>
     period_sum InputTokens rows + period_sum OutputTokens rows \<le> max_safe_count \<and>
     s = period_summary rows"
  by (rule summary_totals_of_Inr)

theorem summary_totals_exact_witness:
  "validate_dated_row sample_externs sample_dated = Inr () \<and>
   period_sum InputTokens [sample_dated, sample_dated] = 180"
proof -
  have "summary_totals_of sample_externs [sample_dated, sample_dated] =
      Inr \<lparr>st_total_tokens = 204, st_input_tokens = 180, st_output_tokens = 24,
           st_cache_read_input_tokens = 80, st_cache_write_input_tokens = 0,
           st_reasoning_tokens = 10, st_messages = 2\<rparr>" by code_simp
  from this [unfolded summary_totals_exact] show ?thesis by (simp add: period_summary_def)
qed

text \<open>A total above two leaves is the leaves' totals added: when the rows of both leaves
  together have a total, each leaf has one and \<open>add_summary_totals\<close> of them returns it.\<close>

theorem summary_totals_add:
  assumes "summary_totals_of x (rows @ others) = Inr whole"
  shows "\<exists>a b. summary_totals_of x rows = Inr a \<and> summary_totals_of x others = Inr b \<and>
    add_summary_totals a b = Inr whole"
proof -
  from assms have sums: "\<And>m. period_sum m rows + period_sum m others \<le> measure_cap m"
    and valid: "\<forall>r \<in> set (rows @ others). validate_dated_row x r = Inr ()"
    and io: "period_sum InputTokens (rows @ others) + period_sum OutputTokens (rows @ others) \<le> max_safe_count"
    and whole: "whole = period_summary (rows @ others)"
    by (simp_all add: summary_totals_of_Inr)
  have "period_sum m rows \<le> measure_cap m" "period_sum m others \<le> measure_cap m" for m
    using sums [of m] by simp_all
  then have parts: "summary_totals_of x rows = Inr (period_summary rows)"
      "summary_totals_of x others = Inr (period_summary others)"
    using valid io by (simp_all add: summary_totals_of_Inr)
  moreover have "add_summary_totals (period_summary rows) (period_summary others) = Inr whole"
    using period_sum_subsets [OF valid] io sums [of InputTokens] sums [of OutputTokens]
      sums [of CacheReadTokens] sums [of ReasoningTokens] sums [of Requests]
    by (simp add: whole add_summary_totals_def period_summary_def checked_add_def safe_or_none_def
        measure_cap_def max_safe_count_def)
  ultimately show ?thesis by blast
qed

theorem summary_totals_add_witness:
  "\<exists>a b whole. summary_totals_of sample_externs [sample_dated] = Inr a \<and>
     summary_totals_of sample_externs [sample_dated, sample_dated] = Inr b \<and>
     add_summary_totals a b = Inr whole \<and> st_messages whole = 3"
proof -
  have "summary_totals_of sample_externs ([sample_dated] @ [sample_dated, sample_dated]) =
      Inr \<lparr>st_total_tokens = 306, st_input_tokens = 270, st_output_tokens = 36,
           st_cache_read_input_tokens = 120, st_cache_write_input_tokens = 0,
           st_reasoning_tokens = 15, st_messages = 3\<rparr>" by code_simp
  from summary_totals_add [OF this] show ?thesis by auto
qed

end
