(* ===== verification/Pricing_Decimal.thy ===== *)
theory Pricing_Decimal
  imports Usage_Fold Complex_Main
begin

text \<open>
  Exact money (\<open>packages/service/src/pricing.rs\<close>): the decimal rates of a catalog
  (\<open>decimal_amount\<close>, \<open>parse_decimal\<close>) and \<open>round_decimal_components\<close>, which prices the parts of one
  row and rounds their sum half up once. The specification is rational arithmetic: a rate is the
  rational its text names, and the rounding is \<open>\<lfloor>x + 1/2\<rfloor>\<close>. \<open>BigUint\<close> is \<open>nat\<close>.
\<close>

subsection \<open>Decimal texts\<close>

fun split_once :: "char \<Rightarrow> string \<Rightarrow> (string \<times> string) option" where
  "split_once d [] = None"
| "split_once d (c # s) =
     (if c = d then Some ([], s)
      else map_option (\<lambda>(before, after). (c # before, after)) (split_once d s))"

definition integer_fraction :: "string \<Rightarrow> string \<times> string" where
  "integer_fraction s = (case split_once (CHR ''.'') s of Some p \<Rightarrow> p | None \<Rightarrow> (s, []))"

definition decimal_amount :: "string \<Rightarrow> bool" where
  "decimal_amount s =
     (if s = [] \<or> 32 < length s then False
      else case integer_fraction s of (integer, fraction) \<Rightarrow>
        integer \<noteq> [] \<and> (CHR ''.'' \<notin> set s \<or> fraction \<noteq> []) \<and> list_all is_digit integer \<and>
        (integer = ''0'' \<or> hd integer \<noteq> CHR ''0'') \<and> length fraction \<le> 12 \<and>
        list_all is_digit fraction)"

definition parse_decimal :: "string \<Rightarrow> unit + nat \<times> nat" where
  "parse_decimal s =
     (if \<not> decimal_amount s then Inl ()
      else case integer_fraction s of (integer, fraction) \<Rightarrow>
        Inr (digits_value (integer @ fraction), length fraction))"

subsection \<open>Rounding\<close>

text \<open>A component is a count, the rate it is priced at, and whether the rate is per request.\<close>

type_synonym component = "nat \<times> string option \<times> bool"

definition component_round ::
    "component \<Rightarrow> (nat \<times> nat \<times> nat) list \<times> nat \<Rightarrow> unit + (nat \<times> nat \<times> nat) list \<times> nat" where
  "component_round = (\<lambda>(count, rate, per_request) (parsed, scale).
     if count = 0 then Inr (parsed, scale)
     else rbind (ok_or () rate) (\<lambda>rate.
          rbind (parse_decimal rate) (\<lambda>(numerator, component_scale).
          Inr (parsed @ [(count * (if per_request then 1000000 else 1), numerator, component_scale)],
               max scale component_scale))))"

definition round_decimal_components :: "component list \<Rightarrow> unit + nat" where
  "round_decimal_components components =
     rbind (fold_r component_round components ([], 0)) (\<lambda>(parsed, scale).
       let denominator = 10 ^ scale;
           numerator = fold (\<lambda>(count, rate, component_scale) sum.
             sum + count * rate * 10 ^ (scale - component_scale)) parsed 0
       in Inr ((numerator * 2 + denominator) div (denominator * 2)))"

subsection \<open>The rational specification\<close>

definition rate_value :: "string \<Rightarrow> rat" where
  "rate_value s =
     (case integer_fraction s of (integer, fraction) \<Rightarrow>
        of_nat (digits_value integer) + of_nat (digits_value fraction) / 10 ^ length fraction)"

definition component_priced :: "component \<Rightarrow> bool" where
  "component_priced = (\<lambda>(count, rate, _).
     count = 0 \<or> (case rate of None \<Rightarrow> False | Some r \<Rightarrow> decimal_amount r))"

definition component_value :: "component \<Rightarrow> rat" where
  "component_value = (\<lambda>(count, rate, per_request).
     of_nat count * (if per_request then 1000000 else 1) *
       (case rate of None \<Rightarrow> 0 | Some r \<Rightarrow> rate_value r))"

definition round_half_up :: "rat \<Rightarrow> int" where
  "round_half_up q = \<lfloor>q + 1 / 2\<rfloor>"

lemma foldl_digits: "foldl (\<lambda>n c. 10 * n + digit_value c) a s = a * 10 ^ length s + digits_value s"
proof (induction s arbitrary: a)
  case (Cons c s)
  show ?case
    using Cons [of "10 * a + digit_value c"] Cons [of "digit_value c"]
    by (simp add: digits_value_def algebra_simps)
qed (simp add: digits_value_def)

lemma digits_value_append: "digits_value (s @ t) = digits_value s * 10 ^ length t + digits_value t"
  by (simp add: digits_value_def [of "s @ t"] foldl_digits [of "digits_value s", symmetric])
    (simp add: digits_value_def)

lemma parse_decimal_Inr:
  "parse_decimal s = Inr (n, k) \<Longrightarrow> decimal_amount s \<and> rate_value s = of_nat n / 10 ^ k"
  by (auto simp: parse_decimal_def rate_value_def digits_value_append add_divide_distrib
      split: if_splits prod.splits)

lemma parse_decimal_total: "decimal_amount s \<Longrightarrow> \<exists>n k. parse_decimal s = Inr (n, k)"
  by (simp add: parse_decimal_def split: prod.splits)

lemma rate_value_nonneg: "0 \<le> rate_value s"
  by (simp add: rate_value_def split: prod.splits)

text \<open>What the parsed components are worth at a common scale.\<close>

definition parsed_value :: "(nat \<times> nat \<times> nat) list \<Rightarrow> rat" where
  "parsed_value parsed = (\<Sum>(count, rate, k) \<leftarrow> parsed. of_nat (count * rate) / 10 ^ k)"

lemma component_round_Inr:
  assumes "component_round c (parsed, scale) = Inr (parsed', scale')"
    and "\<forall>(count, rate, k) \<in> set parsed. k \<le> scale"
  shows "component_priced c \<and> (\<forall>(count, rate, k) \<in> set parsed'. k \<le> scale') \<and>
    parsed_value parsed' = parsed_value parsed + component_value c"
proof -
  obtain count rate per_request where c: "c = (count, rate, per_request)" by (cases c)
  show ?thesis
  proof (cases "count = 0")
    case True
    with assms show ?thesis
      by (auto simp: c component_round_def component_priced_def component_value_def)
  next
    case False
    with assms(1) obtain r n k where r: "rate = Some r" and parse: "parse_decimal r = Inr (n, k)"
      and out: "parsed' = parsed @ [(count * (if per_request then 1000000 else 1), n, k)]"
        "scale' = max scale k"
      by (auto simp: c component_round_def result_simps)
    from parse_decimal_Inr [OF parse] r show ?thesis
      using assms(2)
      by (force simp: c out component_priced_def component_value_def parsed_value_def)
  qed
qed

lemma components_fold:
  assumes "fold_r component_round cs (parsed, scale) = Inr (parsed', scale')"
    and "\<forall>(count, rate, k) \<in> set parsed. k \<le> scale"
  shows "list_all component_priced cs \<and> (\<forall>(count, rate, k) \<in> set parsed'. k \<le> scale') \<and>
    parsed_value parsed' = parsed_value parsed + sum_list (map component_value cs)"
  using assms
proof (induction cs arbitrary: parsed scale)
  case (Cons c cs)
  then obtain q t where step: "component_round c (parsed, scale) = Inr (q, t)"
    and rest: "fold_r component_round cs (q, t) = Inr (parsed', scale')"
    by (auto simp: result_simps)
  from component_round_Inr [OF step] Cons.prems(2) Cons.IH [OF rest] show ?case by auto
qed simp

lemma components_fold_total:
  "list_all component_priced cs \<Longrightarrow> \<exists>parsed scale. fold_r component_round cs s = Inr (parsed, scale)"
proof (induction cs arbitrary: s)
  case (Cons c cs)
  then have "\<exists>q t. component_round c s = Inr (q, t)"
    using parse_decimal_total
    by (cases c; cases s) (fastforce simp: component_round_def component_priced_def split: option.splits)
  with Cons show ?case by fastforce
qed (cases s; simp)

lemma scaled_sum:
  assumes "\<forall>(count, rate, k) \<in> set parsed. k \<le> scale"
  shows "of_nat (fold (\<lambda>(count, rate, k) sum. sum + count * rate * 10 ^ (scale - k)) parsed a) =
    of_nat a + parsed_value parsed * 10 ^ scale"
  using assms
proof (induction parsed arbitrary: a)
  case (Cons p parsed)
  obtain count rate k where p: "p = (count, rate, k)" by (cases p)
  with Cons.prems have "k \<le> scale" by simp
  then have "(10 :: rat) ^ scale = 10 ^ k * 10 ^ (scale - k)"
    by (metis le_add_diff_inverse power_add)
  then have "of_nat (count * rate * 10 ^ (scale - k)) = (of_nat (count * rate) / 10 ^ k :: rat) * 10 ^ scale"
    by simp
  with Cons show ?case
    by (simp add: p parsed_value_def distrib_right)
qed (simp add: parsed_value_def)

lemma div_half_up:
  assumes "0 < d"
  shows "int ((n * 2 + d) div (d * 2)) = round_half_up (of_nat n / of_nat d)"
proof -
  have "(of_nat n / of_nat d + 1 / 2 :: rat) = of_int (int (n * 2 + d)) / of_int (int (d * 2))"
    using assms by (simp add: field_simps)
  then show ?thesis
    by (simp only: round_half_up_def floor_divide_of_int_eq zdiv_int)
qed

lemma round_decimal_components_Inr:
  "round_decimal_components cs = Inr n \<longleftrightarrow>
     list_all component_priced cs \<and> int n = round_half_up (sum_list (map component_value cs))"
proof (cases "list_all component_priced cs")
  case True
  then obtain parsed scale where run: "fold_r component_round cs ([], 0) = Inr (parsed, scale)"
    using components_fold_total by blast
  let ?num = "fold (\<lambda>(count, rate, k) sum. sum + count * rate * 10 ^ (scale - k)) parsed 0"
  note fold = components_fold [OF run]
  then have "(of_nat ?num :: rat) = sum_list (map component_value cs) * 10 ^ scale"
    using scaled_sum [of parsed scale 0] by (simp add: parsed_value_def)
  then have "(of_nat ?num / of_nat (10 ^ scale) :: rat) = sum_list (map component_value cs)" by simp
  then have "int ((?num * 2 + 10 ^ scale) div (10 ^ scale * 2)) =
      round_half_up (sum_list (map component_value cs))"
    using div_half_up [of "10 ^ scale" ?num] by simp
  with True run show ?thesis
    by (auto simp: round_decimal_components_def Let_def)
next
  case False
  then have "fold_r component_round cs ([], 0) \<noteq> Inr p" for p
    using components_fold [of cs "[]" 0] by (cases p) auto
  with False show ?thesis
    by (auto simp: round_decimal_components_def result_simps)
qed

end
