(* ===== verification/Pricing_Catalog.thy ===== *)
theory Pricing_Catalog
  imports Pricing_Decimal
begin

text \<open>
  The pricing catalog (\<open>packages/service/src/pricing.rs\<close>): its entries, \<open>validate_catalog\<close> and
  \<open>resolve_pricing_entry\<close>, which picks the entry a row is priced through. Dates and dimensions
  are compared as the texts they are. What the lemmas show: a catalog that validates never leaves
  a row with two equally specific prices, so resolving it has a unique best entry.
\<close>

subsection \<open>The catalog\<close>

datatype unpriced_reason =
  UnknownChannel | UnknownModel | OutsideEffectiveRange | UnsupportedDimensions
| AmbiguousPrice | MissingRate | IncompleteSourceCost | InvalidCatalog

datatype cost_assumption =
  AgentDefaultChannel | ModelAlias | WildcardServiceTier | WildcardSpeed | WildcardInferenceGeo
| WildcardContextBucket | CacheWriteInferredRate | SourceReported | VendorOfficialPrice

record pricing_rates =
  uncached_input_per_million :: "string option"
  cache_read_per_million :: "string option"
  cache_write_5m_per_million :: "string option"
  cache_write_1h_per_million :: "string option"
  cache_write_inferred_per_million :: "string option"
  output_per_million :: "string option"
  web_search_per_request :: "string option"
  web_fetch_per_request :: "string option"

definition rates_all :: "pricing_rates \<Rightarrow> (string \<times> string option) list" where
  "rates_all r =
     [(''uncached_input_per_million'', uncached_input_per_million r),
      (''cache_read_per_million'', cache_read_per_million r),
      (''cache_write_5m_per_million'', cache_write_5m_per_million r),
      (''cache_write_1h_per_million'', cache_write_1h_per_million r),
      (''cache_write_inferred_per_million'', cache_write_inferred_per_million r),
      (''output_per_million'', output_per_million r),
      (''web_search_per_request'', web_search_per_request r),
      (''web_fetch_per_request'', web_fetch_per_request r)]"

record catalog_entry =
  entry_id :: string
  entry_billing_channel :: billing_channel
  entry_model :: string
  aliases :: "string list"
  effective_from :: string
  effective_to :: "string option"
  entry_service_tier :: string
  entry_speed :: string
  entry_inference_geo :: string
  entry_context_bucket :: string
  currency :: string
  rates :: pricing_rates
  source_url :: string
  verified_at :: string

record pricing_catalog =
  protocol_version :: nat
  revision :: string
  published_at :: string
  catalog_entries :: "catalog_entry list"

subsection \<open>Validation\<close>

datatype catalog_issue =
  InvalidSchema string string
| DuplicateEntryId "string \<times> string"
| AmbiguousEntries "string \<times> string"

record validation_result =
  catalog_is_valid :: bool
  validated_catalog :: "pricing_catalog option"
  catalog_issues :: "catalog_issue list"

definition invalid_if :: "bool \<Rightarrow> string \<Rightarrow> string \<Rightarrow> catalog_issue list" where
  "invalid_if b path message = (if b then [InvalidSchema path message] else [])"

definition opaque_id :: "string \<Rightarrow> bool" where
  "opaque_id s \<longleftrightarrow> s \<noteq> [] \<and> length s \<le> 128 \<and> is_ascii_alphanumeric (hd s) \<and>
     list_all (\<lambda>c. is_ascii_alphanumeric c \<or> c \<in> set ''._:-'') s"

definition model_name :: "string \<Rightarrow> bool" where
  "model_name s \<longleftrightarrow> bounded_model_text s \<noteq> None"

definition pricing_dimension :: "string \<Rightarrow> bool" where
  "pricing_dimension s \<longleftrightarrow> s = ''*'' \<or>
     (s \<noteq> [] \<and> length s \<le> 64 \<and> is_ascii_alphanumeric (hd s) \<and>
      list_all (\<lambda>c. is_ascii_alphanumeric c \<or> c \<in> set ''._:+-'') s)"

definition context_dimension :: "string \<Rightarrow> bool" where
  "context_dimension s \<longleftrightarrow> s = ''*'' \<or>
     s \<in> {''le_128k'', ''gt_128k_le_200k'', ''gt_200k_le_256k'', ''gt_256k_le_272k'', ''gt_272k''}"

definition pricing_calendar_date :: "externs \<Rightarrow> string \<Rightarrow> bool" where
  "pricing_calendar_date x s \<longleftrightarrow>
     length s = 10 \<and> s ! 4 = CHR ''-'' \<and> s ! 7 = CHR ''-'' \<and>
     list_all is_digit (take 4 s) \<and> list_all is_digit (take 2 (drop 5 s)) \<and>
     list_all is_digit (drop 8 s) \<and> naive_date x s \<noteq> None"

fun alias_issues :: "string set \<Rightarrow> string list \<Rightarrow> catalog_issue list" where
  "alias_issues names [] = []"
| "alias_issues names (a # as) =
     (if \<not> model_name a then InvalidSchema ''aliases'' ''invalid or duplicate alias'' # alias_issues names as
      else if a \<in> names then InvalidSchema ''aliases'' ''invalid or duplicate alias'' # alias_issues names as
      else alias_issues (insert a names) as)"

definition validate_entry :: "externs \<Rightarrow> catalog_entry \<Rightarrow> catalog_issue list" where
  "validate_entry x e =
     invalid_if (\<not> opaque_id (entry_id e)) ''entry_id'' ''invalid entry id'' @
     invalid_if (entry_billing_channel e = billing_channel.Unknown) ''billing_channel'' ''channel is not priceable'' @
     invalid_if (\<not> model_name (entry_model e)) ''model'' ''invalid model'' @
     invalid_if (16 < length (aliases e)) ''aliases'' ''too many aliases'' @
     alias_issues {entry_model e} (aliases e) @
     invalid_if (\<not> pricing_calendar_date x (effective_from e)) ''effective_from'' ''invalid calendar date'' @
     (case effective_to e of None \<Rightarrow> []
      | Some to \<Rightarrow> invalid_if (\<not> pricing_calendar_date x to \<or> to \<le> effective_from e)
          ''effective_to'' ''effective_to must be later'') @
     concat (map (\<lambda>(name, v). invalid_if (\<not> pricing_dimension v) name ''invalid pricing dimension'')
       [(''service_tier'', entry_service_tier e), (''speed'', entry_speed e),
        (''inference_geo'', entry_inference_geo e)]) @
     invalid_if (\<not> context_dimension (entry_context_bucket e)) ''context_bucket'' ''invalid context bucket'' @
     invalid_if (currency e \<noteq> ''USD'') ''currency'' ''currency must be USD'' @
     invalid_if (\<not> list_ex (\<lambda>(_, v). v \<noteq> None) (rates_all (rates e))) ''rates'' ''at least one rate is required'' @
     concat (map (\<lambda>(name, v). invalid_if (case v of None \<Rightarrow> False | Some r \<Rightarrow> \<not> decimal_amount r)
       name ''invalid decimal amount'') (rates_all (rates e))) @
     invalid_if (\<not> https_url_host x (source_url e) \<or> 2048 < length (source_url e))
       ''source_url'' ''source_url must be HTTPS'' @
     invalid_if (\<not> is_rfc3339 x (verified_at e)) ''verified_at'' ''invalid RFC3339 instant''"

definition ranges_overlap :: "string \<Rightarrow> string option \<Rightarrow> string \<Rightarrow> string option \<Rightarrow> bool" where
  "ranges_overlap left_from left_to right_from right_to \<longleftrightarrow>
     (case right_to of None \<Rightarrow> True | Some to \<Rightarrow> left_from < to) \<and>
     (case left_to of None \<Rightarrow> True | Some to \<Rightarrow> right_from < to)"

definition dimensions_overlap :: "string \<Rightarrow> string \<Rightarrow> bool" where
  "dimensions_overlap l r \<longleftrightarrow> l = ''*'' \<or> r = ''*'' \<or> l = r"

definition model_names :: "catalog_entry \<Rightarrow> string list" where
  "model_names e = entry_model e # aliases e"

definition pricing_specificity :: "catalog_entry \<Rightarrow> string \<Rightarrow> nat" where
  "pricing_specificity e model =
     (if entry_model e = model then 16 else 0) +
     length (filter (\<lambda>v. v \<noteq> ''*'')
       [entry_service_tier e, entry_speed e, entry_inference_geo e, entry_context_bucket e])"

definition pricing_entries_ambiguous :: "catalog_entry \<Rightarrow> catalog_entry \<Rightarrow> bool" where
  "pricing_entries_ambiguous l r \<longleftrightarrow>
     entry_billing_channel l = entry_billing_channel r \<and>
     ranges_overlap (effective_from l) (effective_to l) (effective_from r) (effective_to r) \<and>
     dimensions_overlap (entry_service_tier l) (entry_service_tier r) \<and>
     dimensions_overlap (entry_speed l) (entry_speed r) \<and>
     dimensions_overlap (entry_inference_geo l) (entry_inference_geo r) \<and>
     dimensions_overlap (entry_context_bucket l) (entry_context_bucket r) \<and>
     list_ex (\<lambda>model. model \<in> set (model_names r) \<and>
       pricing_specificity l model = pricing_specificity r model) (model_names l)"

fun entry_issues :: "externs \<Rightarrow> string set \<Rightarrow> catalog_entry list \<Rightarrow> catalog_issue list" where
  "entry_issues x ids [] = []"
| "entry_issues x ids (e # es) =
     validate_entry x e @
     (if entry_id e \<in> ids then [DuplicateEntryId (entry_id e, entry_id e)] else []) @
     entry_issues x (insert (entry_id e) ids) es"

fun ambiguous_pairs :: "catalog_entry list \<Rightarrow> catalog_issue list" where
  "ambiguous_pairs [] = []"
| "ambiguous_pairs (a # es) =
     map (\<lambda>b. AmbiguousEntries (entry_id a, entry_id b)) (filter (pricing_entries_ambiguous a) es) @
     ambiguous_pairs es"

definition validate_catalog :: "externs \<Rightarrow> pricing_catalog \<Rightarrow> validation_result" where
  "validate_catalog x catalog =
     (let issues =
        invalid_if (protocol_version catalog \<noteq> 2) ''protocol_version'' ''expected protocol version 2'' @
        invalid_if (\<not> opaque_id (revision catalog)) ''revision'' ''invalid pricing revision'' @
        invalid_if (\<not> is_rfc3339 x (published_at catalog)) ''published_at'' ''invalid RFC3339 instant'' @
        invalid_if (4096 < length (catalog_entries catalog)) ''entries'' ''too many pricing entries'' @
        entry_issues x {} (catalog_entries catalog) @
        ambiguous_pairs (catalog_entries catalog)
      in \<lparr>catalog_is_valid = (issues = []),
          validated_catalog = (if issues = [] then Some catalog else None),
          catalog_issues = issues\<rparr>)"

subsection \<open>Resolution\<close>

datatype pricing_resolution =
  Priced catalog_entry "cost_assumption list"
| Unpriced unpriced_reason

definition is_vendor_direct_channel :: "billing_channel \<Rightarrow> bool" where
  "is_vendor_direct_channel c \<longleftrightarrow>
     c \<in> {OpenaiDirect, AnthropicDirect, XaiDirect, MoonshotDirect, DeepseekDirect, GoogleDirect}"

definition dimension_matches :: "string \<Rightarrow> string \<Rightarrow> bool" where
  "dimension_matches expected actual \<longleftrightarrow> expected = ''*'' \<or> expected = actual"

definition names_model :: "catalog_entry \<Rightarrow> string \<Rightarrow> bool" where
  "names_model e model \<longleftrightarrow> entry_model e = model \<or> list_ex (\<lambda>a. a = model) (aliases e)"

definition channel_admits :: "usage_row \<Rightarrow> catalog_entry \<Rightarrow> bool" where
  "channel_admits r e \<longleftrightarrow>
     (if row_billing_channel r = billing_channel.Unknown
      then is_vendor_direct_channel (entry_billing_channel e)
      else entry_billing_channel e = row_billing_channel r)"

definition date_admits :: "string \<Rightarrow> catalog_entry \<Rightarrow> bool" where
  "date_admits date e \<longleftrightarrow>
     effective_from e \<le> date \<and> (case effective_to e of None \<Rightarrow> True | Some to \<Rightarrow> date < to)"

definition dimensions_admit :: "usage_row \<Rightarrow> catalog_entry \<Rightarrow> bool" where
  "dimensions_admit r e \<longleftrightarrow>
     dimension_matches (entry_service_tier e) (row_service_tier r) \<and>
     dimension_matches (entry_speed e) (row_speed r) \<and>
     dimension_matches (entry_inference_geo e) (row_inference_geo r) \<and>
     dimension_matches (entry_context_bucket e) (context_str (row_context_bucket r))"

definition resolution_assumptions :: "usage_row \<Rightarrow> catalog_entry \<Rightarrow> cost_assumption list" where
  "resolution_assumptions r e =
     (if entry_model e \<noteq> row_model r then [ModelAlias] else []) @
     (if entry_service_tier e = ''*'' then [WildcardServiceTier] else []) @
     (if entry_speed e = ''*'' then [WildcardSpeed] else []) @
     (if entry_inference_geo e = ''*'' then [WildcardInferenceGeo] else []) @
     (if entry_context_bucket e = ''*'' then [WildcardContextBucket] else []) @
     (if row_billing_channel r = billing_channel.Unknown then [VendorOfficialPrice] else [])"

definition resolve_pricing_entry :: "pricing_catalog \<Rightarrow> dated_row \<Rightarrow> pricing_resolution" where
  "resolve_pricing_entry catalog dated =
     (let r = dated_row dated;
          by_model = filter (\<lambda>e. channel_admits r e \<and> names_model e (row_model r)) (catalog_entries catalog)
      in if by_model = [] then Unpriced UnknownModel
      else if row_billing_channel r = billing_channel.Unknown \<and>
              1 < card (set (map entry_billing_channel by_model)) then Unpriced UnknownChannel
      else let by_date = filter (date_admits (dated_date dated)) by_model
      in if by_date = [] then Unpriced OutsideEffectiveRange
      else let matches = map (\<lambda>e. (e, pricing_specificity e (row_model r)))
                           (filter (dimensions_admit r) by_date)
      in if matches = [] then Unpriced UnsupportedDimensions
      else case sort_key (\<lambda>(_, s). - int s) matches of
             [] \<Rightarrow> Unpriced UnsupportedDimensions
           | (e, s) # others \<Rightarrow>
               (case others of
                  (_, t) # _ \<Rightarrow>
                    if t = s then Unpriced AmbiguousPrice
                    else Priced e (resolution_assumptions r e)
                | [] \<Rightarrow> Priced e (resolution_assumptions r e)))"

subsection \<open>A valid catalog resolves to one best entry\<close>

text \<open>The entries that could price a row, and the specification of the answer.\<close>

definition admits :: "dated_row \<Rightarrow> catalog_entry \<Rightarrow> bool" where
  "admits d e \<longleftrightarrow> channel_admits (dated_row d) e \<and> names_model e (row_model (dated_row d)) \<and>
     date_admits (dated_date d) e \<and> dimensions_admit (dated_row d) e"

definition vendor_conflict :: "pricing_catalog \<Rightarrow> dated_row \<Rightarrow> bool" where
  "vendor_conflict c d \<longleftrightarrow> row_billing_channel (dated_row d) = billing_channel.Unknown \<and>
     1 < card (entry_billing_channel ` {e \<in> set (catalog_entries c).
       channel_admits (dated_row d) e \<and> names_model e (row_model (dated_row d))})"

lemma validate_catalog_pairs:
  "catalog_is_valid (validate_catalog x c) \<Longrightarrow>
     ambiguous_pairs (catalog_entries c) = [] \<and> entry_issues x {} (catalog_entries c) = []"
  by (simp add: validate_catalog_def Let_def)

lemma ambiguous_pairs_Nil:
  "ambiguous_pairs es = [] \<Longrightarrow> i < j \<Longrightarrow> j < length es \<Longrightarrow> \<not> pricing_entries_ambiguous (es ! i) (es ! j)"
proof (induction es arbitrary: i j)
  case (Cons a es)
  then show ?case
    by (cases i; cases j) (auto simp: filter_empty_conv)
qed simp

lemma sorted_wrt_unambiguous:
  "ambiguous_pairs es = [] \<Longrightarrow> sorted_wrt (\<lambda>a b. \<not> pricing_entries_ambiguous a b) es"
  by (auto simp: sorted_wrt_iff_nth_less ambiguous_pairs_Nil)

lemma pricing_entries_ambiguous_sym:
  "pricing_entries_ambiguous a b \<Longrightarrow> pricing_entries_ambiguous b a"
  by (auto simp: pricing_entries_ambiguous_def ranges_overlap_def dimensions_overlap_def list_ex_iff)

lemma date_admits_overlap:
  "date_admits d a \<Longrightarrow> date_admits d b \<Longrightarrow>
     ranges_overlap (effective_from a) (effective_to a) (effective_from b) (effective_to b)"
  by (auto simp: date_admits_def ranges_overlap_def split: option.splits)

lemma dimension_matches_overlap:
  "dimension_matches a v \<Longrightarrow> dimension_matches b v \<Longrightarrow> dimensions_overlap a b"
  by (auto simp: dimension_matches_def dimensions_overlap_def)

lemma same_specificity_ambiguous:
  assumes "admits d a" and "admits d b" and "entry_billing_channel a = entry_billing_channel b"
    and "pricing_specificity a (row_model (dated_row d)) = pricing_specificity b (row_model (dated_row d))"
  shows "pricing_entries_ambiguous a b"
  using assms
  by (auto simp: admits_def pricing_entries_ambiguous_def dimensions_admit_def names_model_def
      model_names_def list_ex_iff intro: date_admits_overlap dimension_matches_overlap)

text \<open>Two occurrences in a list are in relation, one way round or the other.\<close>

lemma sorted_wrt_pair:
  assumes "sorted_wrt P xs" and "mset xs = add_mset a (add_mset b M)"
  shows "P a b \<or> P b a"
  using assms
proof (induction xs arbitrary: M)
  case (Cons x xs)
  consider "x = a" | "x = b" | "x \<noteq> a" "x \<noteq> b" by blast
  then show ?case
  proof cases
    case 1
    with Cons.prems have "mset xs = add_mset b M" by simp
    then have "b \<in> set xs" by (metis set_mset_mset union_single_eq_member)
    with 1 Cons.prems show ?thesis by simp
  next
    case 2
    with Cons.prems have "mset xs = add_mset a M" by simp
    then have "a \<in> set xs" by (metis set_mset_mset union_single_eq_member)
    with 2 Cons.prems show ?thesis by simp
  next
    case 3
    have "mset xs = (add_mset a (add_mset b M)) - {#x#}"
      using Cons.prems(2) by (metis add_mset_remove_trivial mset.simps(2))
    with 3 have "mset xs = add_mset a (add_mset b (M - {#x#}))" by simp
    with Cons show ?thesis by simp
  qed
qed simp

text \<open>Of the candidates sorted by falling specificity, the first two never tie.\<close>

definition ranked :: "dated_row \<Rightarrow> catalog_entry list \<Rightarrow> (catalog_entry \<times> nat) list" where
  "ranked d es = sort_key (\<lambda>(_, s). - int s)
     (map (\<lambda>e. (e, pricing_specificity e (row_model (dated_row d)))) es)"

lemma ranked_head:
  assumes "ranked d es = (e, s) # others"
  shows "e \<in> set es" and "s = pricing_specificity e (row_model (dated_row d))"
    and "\<forall>f \<in> set es. pricing_specificity f (row_model (dated_row d)) \<le> s"
proof -
  let ?f = "\<lambda>e. (e, pricing_specificity e (row_model (dated_row d)))"
  have sets: "set (ranked d es) = ?f ` set es" by (simp add: ranked_def)
  then show "e \<in> set es" and "s = pricing_specificity e (row_model (dated_row d))"
    using assms by (auto simp: ranked_def [symmetric] dest!: equalityD1)
  have "sorted (map (\<lambda>(_, s). - int s) (ranked d es))" by (simp add: ranked_def)
  then have "\<forall>p \<in> set (ranked d es). snd p \<le> s" using assms by auto
  with sets show "\<forall>f \<in> set es. pricing_specificity f (row_model (dated_row d)) \<le> s" by auto
qed

lemma ranked_second:
  assumes "ranked d es = (e, s) # (f, t) # others" and "sorted_wrt P es"
  shows "(P e f \<or> P f e) \<and> t = pricing_specificity f (row_model (dated_row d)) \<and> f \<in> set es"
proof -
  let ?f = "\<lambda>e. (e, pricing_specificity e (row_model (dated_row d)))"
  have "mset (map fst (ranked d es)) = image_mset fst (mset (map ?f es))"
    by (simp add: ranked_def)
  also have "\<dots> = mset es" by (simp add: multiset.map_comp comp_def)
  finally have "mset es = add_mset e (add_mset f (mset (map fst others)))"
    using assms(1) by simp
  with sorted_wrt_pair [OF assms(2)] have "P e f \<or> P f e" by blast
  moreover have "(f, t) \<in> set (ranked d es)" using assms(1) by simp
  then have "(f, t) \<in> ?f ` set es" by (simp add: ranked_def)
  ultimately show ?thesis by auto
qed

definition candidates :: "pricing_catalog \<Rightarrow> dated_row \<Rightarrow> catalog_entry list" where
  "candidates c d = filter (admits d) (catalog_entries c)"

lemma candidates_channel:
  assumes "\<not> vendor_conflict c d" and "a \<in> set (candidates c d)" and "b \<in> set (candidates c d)"
  shows "entry_billing_channel a = entry_billing_channel b"
proof (cases "row_billing_channel (dated_row d) = billing_channel.Unknown")
  case True
  let ?channels = "entry_billing_channel ` {e \<in> set (catalog_entries c).
       channel_admits (dated_row d) e \<and> names_model e (row_model (dated_row d))}"
  have "card ?channels \<le> 1" using assms(1) True by (simp add: vendor_conflict_def)
  moreover have "entry_billing_channel a \<in> ?channels" "entry_billing_channel b \<in> ?channels"
    using assms(2,3) by (auto simp: candidates_def admits_def)
  ultimately show ?thesis
    by (metis (no_types, lifting) card_le_Suc0_iff_eq One_nat_def List.finite_set finite_imageI
        finite_subset mem_Collect_eq subsetI)
qed (use assms(2,3) in \<open>simp add: candidates_def admits_def channel_admits_def\<close>)

lemma resolve_by_rank:
  "resolve_pricing_entry c d =
     (if filter (\<lambda>e. channel_admits (dated_row d) e \<and> names_model e (row_model (dated_row d)))
           (catalog_entries c) = [] then Unpriced UnknownModel
      else if vendor_conflict c d then Unpriced UnknownChannel
      else if candidates c d = [] then
        (if filter (\<lambda>e. channel_admits (dated_row d) e \<and> names_model e (row_model (dated_row d)) \<and>
              date_admits (dated_date d) e) (catalog_entries c) = []
         then Unpriced OutsideEffectiveRange else Unpriced UnsupportedDimensions)
      else case ranked d (candidates c d) of
             [] \<Rightarrow> Unpriced UnsupportedDimensions
           | (e, s) # others \<Rightarrow>
               (case others of
                  (_, t) # _ \<Rightarrow>
                    if t = s then Unpriced AmbiguousPrice
                    else Priced e (resolution_assumptions (dated_row d) e)
                | [] \<Rightarrow> Priced e (resolution_assumptions (dated_row d) e)))"
proof -
  have conflict: "vendor_conflict c d \<longleftrightarrow> row_billing_channel (dated_row d) = billing_channel.Unknown \<and>
      1 < card (set (map entry_billing_channel (filter (\<lambda>e. channel_admits (dated_row d) e \<and>
        names_model e (row_model (dated_row d))) (catalog_entries c))))"
    by (simp add: vendor_conflict_def)
  have cands: "candidates c d = filter (dimensions_admit (dated_row d)) (filter (date_admits (dated_date d))
      (filter (\<lambda>e. channel_admits (dated_row d) e \<and> names_model e (row_model (dated_row d)))
        (catalog_entries c)))"
    by (simp add: candidates_def admits_def conj_ac cong: filter_cong)
  have dates: "filter (\<lambda>e. channel_admits (dated_row d) e \<and> names_model e (row_model (dated_row d)) \<and>
        date_admits (dated_date d) e) (catalog_entries c) = filter (date_admits (dated_date d))
      (filter (\<lambda>e. channel_admits (dated_row d) e \<and> names_model e (row_model (dated_row d)))
        (catalog_entries c))"
    by (simp add: conj_ac cong: filter_cong)
  show ?thesis
    unfolding resolve_pricing_entry_def Let_def conflict cands dates ranked_def
    by (simp del: filter_filter set_map set_filter)
qed

lemma candidates_unambiguous:
  assumes "catalog_is_valid (validate_catalog x c)"
  shows "sorted_wrt (\<lambda>a b. \<not> pricing_entries_ambiguous a b) (candidates c d)"
  using assms
  by (simp add: candidates_def sorted_wrt_filter sorted_wrt_unambiguous validate_catalog_pairs)

lemma candidates_ambiguous:
  assumes "\<not> vendor_conflict c d" and "a \<in> set (candidates c d)" and "b \<in> set (candidates c d)"
    and "pricing_specificity a (row_model (dated_row d)) = pricing_specificity b (row_model (dated_row d))"
  shows "pricing_entries_ambiguous a b \<and> pricing_entries_ambiguous b a"
proof -
  have "admits d a" "admits d b" using assms(2,3) by (simp_all add: candidates_def)
  then have "pricing_entries_ambiguous a b"
    using candidates_channel [OF assms(1,2,3)] assms(4) by (rule same_specificity_ambiguous)
  then show ?thesis by (simp add: pricing_entries_ambiguous_sym)
qed

lemma candidates_specificity_inj:
  assumes "catalog_is_valid (validate_catalog x c)" and "\<not> vendor_conflict c d"
    and a: "a \<in> set (candidates c d)" and b: "b \<in> set (candidates c d)" and "a \<noteq> b"
  shows "pricing_specificity a (row_model (dated_row d)) \<noteq> pricing_specificity b (row_model (dated_row d))"
proof
  assume "pricing_specificity a (row_model (dated_row d)) = pricing_specificity b (row_model (dated_row d))"
  note both = candidates_ambiguous [OF assms(2) a b this]
  have in_both: "a \<in># mset (candidates c d)" "b \<in># mset (candidates c d)" using a b by simp_all
  from multi_member_split [OF in_both(1)] obtain M where M: "mset (candidates c d) = add_mset a M" ..
  from in_both(2) M \<open>a \<noteq> b\<close> have "b \<in># M" by simp
  from multi_member_split [OF this] obtain N where "M = add_mset b N" ..
  with M sorted_wrt_pair [OF candidates_unambiguous [OF assms(1)], of d a b N] both
  show False by simp
qed

text \<open>The answer of a valid catalog, once some entry could price the row.\<close>

lemma resolve_candidates:
  assumes valid: "catalog_is_valid (validate_catalog x c)" and channel: "\<not> vendor_conflict c d"
    and some: "candidates c d \<noteq> []"
  obtains e where "e \<in> set (candidates c d)"
    and "\<forall>f \<in> set (candidates c d). pricing_specificity f (row_model (dated_row d))
           \<le> pricing_specificity e (row_model (dated_row d))"
    and "resolve_pricing_entry c d = Priced e (resolution_assumptions (dated_row d) e)"
proof -
  have "length (ranked d (candidates c d)) \<noteq> 0" using some by (simp add: ranked_def)
  then obtain e s others where head: "ranked d (candidates c d) = (e, s) # others"
    by (cases "ranked d (candidates c d)") auto
  note best = ranked_head [OF head]
  have tie: "t \<noteq> s" if "others = (f, t) # more" for f t more
  proof
    assume "t = s"
    have second: "(\<not> pricing_entries_ambiguous e f \<or> \<not> pricing_entries_ambiguous f e) \<and>
        t = pricing_specificity f (row_model (dated_row d)) \<and> f \<in> set (candidates c d)"
      by (rule ranked_second [OF head [unfolded that] candidates_unambiguous [OF valid]])
    with \<open>t = s\<close> best(2) candidates_ambiguous [OF channel best(1), of f] show False by simp
  qed
  obtain g where "g \<in> set (candidates c d)" using some by (cases "candidates c d") auto
  then have "filter (\<lambda>e. channel_admits (dated_row d) e \<and> names_model e (row_model (dated_row d)))
      (catalog_entries c) \<noteq> []"
    by (auto simp: candidates_def admits_def filter_empty_conv)
  then have "resolve_pricing_entry c d = Priced e (resolution_assumptions (dated_row d) e)"
    using channel some head tie by (auto simp: resolve_by_rank split: list.splits)
  with best that show ?thesis by blast
qed

lemma resolve_none:
  "vendor_conflict c d \<or> candidates c d = [] \<Longrightarrow>
     resolve_pricing_entry c d \<in> Unpriced ` {UnknownModel, UnknownChannel, OutsideEffectiveRange, UnsupportedDimensions}"
  by (auto simp: resolve_by_rank)

subsection \<open>Properties\<close>

definition sample_rates :: pricing_rates where
  "sample_rates =
     \<lparr>uncached_input_per_million = Some ''1.25'', cache_read_per_million = Some ''0.125'',
      cache_write_5m_per_million = None, cache_write_1h_per_million = None,
      cache_write_inferred_per_million = None, output_per_million = Some ''10'',
      web_search_per_request = None, web_fetch_per_request = None\<rparr>"

definition sample_entry :: catalog_entry where
  "sample_entry =
     \<lparr>entry_id = ''openai:gpt-5'', entry_billing_channel = OpenaiDirect, entry_model = ''gpt-5'',
      aliases = [''gpt-5-latest''], effective_from = ''2026-01-01'', effective_to = None,
      entry_service_tier = ''standard'', entry_speed = ''*'', entry_inference_geo = ''*'',
      entry_context_bucket = ''*'', currency = ''USD'', rates = sample_rates,
      source_url = ''https://openai.com/pricing'', verified_at = ''2026-01-01T00:00:00Z''\<rparr>"

definition sample_catalog :: pricing_catalog where
  "sample_catalog =
     \<lparr>protocol_version = 2, revision = ''r1'', published_at = ''2026-01-01T00:00:00Z'',
      catalog_entries = [sample_entry\<lparr>entry_id := ''openai:any'', entry_service_tier := ''*''\<rparr>, sample_entry]\<rparr>"

definition sample_dates :: externs where
  "sample_dates = sample_externs\<lparr>naive_date := (\<lambda>s. if s = ''2026-01-01'' then Some 20454
     else if s = ''2026-07-01'' then Some 20635 else None)\<rparr>"

lemma sample_catalog_valid: "catalog_is_valid (validate_catalog sample_dates sample_catalog)"
  by code_simp

text \<open>C5: A catalog that validates never leaves a row with two equally specific prices: whatever
  the row, the reason it is unpriced is never \<open>AmbiguousPrice\<close>.\<close>

theorem valid_catalog_never_ambiguous:
  assumes "catalog_is_valid (validate_catalog x c)"
  shows "resolve_pricing_entry c d \<noteq> Unpriced AmbiguousPrice"
proof (cases "vendor_conflict c d \<or> candidates c d = []")
  case True
  from resolve_none [OF this] show ?thesis by auto
next
  case False
  then show ?thesis by (auto elim: resolve_candidates [OF assms])
qed

theorem valid_catalog_never_ambiguous_witness:
  "resolve_pricing_entry sample_catalog sample_dated \<noteq> Unpriced AmbiguousPrice"
  by (rule valid_catalog_never_ambiguous [OF sample_catalog_valid])

text \<open>C6: Under a catalog that validates, a row is priced through an entry exactly when that entry
  is the one strictly most specific of those that name its channel, model, date and dimensions,
  and the vendors that list the model agree on the channel; so the order of the entries in the
  catalog does not matter.\<close>

theorem resolve_priced_iff:
  assumes valid: "catalog_is_valid (validate_catalog x c)"
  shows "resolve_pricing_entry c d = Priced e as \<longleftrightarrow>
    \<not> vendor_conflict c d \<and> e \<in> set (candidates c d) \<and>
    (\<forall>f \<in> set (candidates c d). f \<noteq> e \<longrightarrow>
       pricing_specificity f (row_model (dated_row d)) < pricing_specificity e (row_model (dated_row d))) \<and>
    as = resolution_assumptions (dated_row d) e"
proof (cases "vendor_conflict c d \<or> candidates c d = []")
  case True
  with resolve_none [OF this] show ?thesis by auto
next
  case False
  then obtain g where g: "g \<in> set (candidates c d)"
    and best: "\<forall>f \<in> set (candidates c d). pricing_specificity f (row_model (dated_row d))
           \<le> pricing_specificity g (row_model (dated_row d))"
    and res: "resolve_pricing_entry c d = Priced g (resolution_assumptions (dated_row d) g)"
    by (auto elim: resolve_candidates [OF valid])
  then have "\<forall>f \<in> set (candidates c d). f \<noteq> g \<longrightarrow>
       pricing_specificity f (row_model (dated_row d)) < pricing_specificity g (row_model (dated_row d))"
    using candidates_specificity_inj [OF valid] False by (metis nat_less_le)
  with g res False best show ?thesis
    by (auto simp: not_le [symmetric])
qed

theorem resolve_priced_iff_witness:
  "resolve_pricing_entry sample_catalog sample_dated =
     Priced sample_entry [WildcardSpeed, WildcardInferenceGeo, WildcardContextBucket]"
  unfolding resolve_priced_iff [OF sample_catalog_valid] by code_simp

end
