(* ===== verification/Pricing_Cost.thy ===== *)
theory Pricing_Cost
  imports Pricing_Catalog
begin

text \<open>
  What rows cost (\<open>packages/service/src/pricing.rs\<close>): \<open>calculate_row_from_catalog\<close>,
  \<open>prepare_usage_costs\<close>, \<open>fold_prepared_usage_costs\<close>, \<open>fold_usage_cost_outcomes\<close>, the cache saving
  and the cache hit rate. What the lemmas show: a row's amount is its exact price rounded half up
  once; and folding the outcomes of the leaves of a tree is folding all their rows at once.
\<close>

subsection \<open>One row\<close>

datatype cost_mode = Calculate | Auto | Reported

datatype cost_basis = Calculated | Reported | Mixed | NoBasis

datatype cost_status = Complete | Partial | Unavailable

datatype row_cost =
  PricedRow nat "cost_assumption list" string
| UnpricedRow unpriced_reason

text \<open>The parts of a row and the rate each is priced at. The \<open>u64\<close> arithmetic is not checked in the
  source, so it wraps here.\<close>

definition classified_tokens :: "usage_row \<Rightarrow> nat" where
  "classified_tokens r =
     (row_cache_read_tokens r + row_cache_write_5m_tokens r + row_cache_write_1h_tokens r +
      row_cache_write_inferred_tokens r) mod 2 ^ 64"

definition uncached_tokens :: "usage_row \<Rightarrow> nat" where
  "uncached_tokens r = (row_input_tokens r + 2 ^ 64 - classified_tokens r) mod 2 ^ 64"

definition row_components :: "pricing_rates \<Rightarrow> usage_row \<Rightarrow> component list" where
  "row_components p r =
     [(uncached_tokens r, uncached_input_per_million p, False),
      (row_cache_read_tokens r, cache_read_per_million p, False),
      (row_cache_write_5m_tokens r, cache_write_5m_per_million p, False),
      (row_cache_write_1h_tokens r, cache_write_1h_per_million p, False),
      (row_cache_write_inferred_tokens r, cache_write_inferred_per_million p, False),
      (row_output_tokens r, output_per_million p, False),
      (row_web_search_requests r, web_search_per_request p, True),
      (row_web_fetch_requests r, web_fetch_per_request p, True)]"

definition calculate_row_from_catalog :: "pricing_catalog \<Rightarrow> dated_row \<Rightarrow> row_cost" where
  "calculate_row_from_catalog catalog d =
     (case resolve_pricing_entry catalog d of
        Unpriced reason \<Rightarrow> UnpricedRow reason
      | Priced e assumptions \<Rightarrow>
          let r = dated_row d; components = row_components (rates e) r in
          if list_ex (\<lambda>(count, rate, _). 0 < count \<and> rate = None) components
          then UnpricedRow MissingRate
          else
            let assumptions = assumptions @
              (if 0 < row_cache_write_inferred_tokens r then [CacheWriteInferredRate] else [])
            in case round_decimal_components components of
                 Inr amount \<Rightarrow> PricedRow amount assumptions (entry_id e)
               | Inl _ \<Rightarrow> UnpricedRow MissingRate)"

definition calculate_usage_row_cost :: "externs \<Rightarrow> pricing_catalog \<Rightarrow> dated_row \<Rightarrow> usage_error + row_cost" where
  "calculate_usage_row_cost x catalog d =
     rbind (validate_dated_row x d) (\<lambda>_. Inr (calculate_row_from_catalog catalog d))"

subsection \<open>Cache savings\<close>

record cache_saved =
  saved_amount_microusd :: "string option"
  saved_status :: cost_status
  saved_unpriced_rows :: nat

datatype prepared_saving = Saved nat | SavingUnpriced | NoCacheRead

definition prepare_row_cache_saved :: "pricing_catalog option \<Rightarrow> dated_row \<Rightarrow> prepared_saving" where
  "prepare_row_cache_saved catalog d =
     (if row_cache_read_tokens (dated_row d) = 0 then NoCacheRead
      else case catalog of
        None \<Rightarrow> SavingUnpriced
      | Some c \<Rightarrow>
          (case resolve_pricing_entry c d of
             Unpriced _ \<Rightarrow> SavingUnpriced
           | Priced e _ \<Rightarrow>
               let read = row_cache_read_tokens (dated_row d) in
               (case (round_decimal_components [(read, uncached_input_per_million (rates e), False)],
                      round_decimal_components [(read, cache_read_per_million (rates e), False)]) of
                  (Inr full, Inr actual) \<Rightarrow> Saved (if actual < full then full - actual else 0)
                | _ \<Rightarrow> SavingUnpriced)))"

definition valid_catalog :: "externs \<Rightarrow> pricing_catalog option \<Rightarrow> pricing_catalog option" where
  "valid_catalog x catalog =
     Option.bind catalog (\<lambda>c. if catalog_is_valid (validate_catalog x c) then Some c else None)"

definition calculate_usage_cache_saved ::
    "externs \<Rightarrow> dated_row list \<Rightarrow> pricing_catalog option \<Rightarrow> usage_error + cache_saved" where
  "calculate_usage_cache_saved x rows catalog =
     (let catalog = valid_catalog x catalog in
      rbind
        (fold_r (\<lambda>d (amount, priced, unpriced).
           rbind (validate_dated_row x d) (\<lambda>_.
           Inr (case prepare_row_cache_saved catalog d of
                  NoCacheRead \<Rightarrow> (amount, priced, unpriced)
                | SavingUnpriced \<Rightarrow> (amount, priced, unpriced + 1)
                | Saved v \<Rightarrow> (amount + v, priced + 1, unpriced)))) rows (0, 0, 0 :: nat))
        (\<lambda>(amount, priced :: nat, unpriced).
           Inr \<lparr>saved_amount_microusd =
                  (if unpriced = 0 \<or> 0 < priced then Some (decimal_string amount) else None),
                saved_status = (if unpriced = 0 then Complete else if 0 < priced then Partial
                                else Unavailable),
                saved_unpriced_rows = unpriced\<rparr>))"

definition usage_cache_hit_basis_points :: "summary_totals \<Rightarrow> nat option" where
  "usage_cache_hit_basis_points t =
     (if st_input_tokens t = 0 then None
      else let scaled = st_cache_read_input_tokens t * 20000 + st_input_tokens t;
               points = scaled div (st_input_tokens t * 2)
           in if points < 2 ^ 64 then Some points else None)"

subsection \<open>Prepared rows\<close>

datatype prepared_row =
  PreparedPriced billing_channel string nat cost_basis "cost_assumption list"
| PreparedUnpriced billing_channel string unpriced_reason

record prepared_costs =
  prepared_mode :: cost_mode
  prepared_revision :: "string option"
  prepared_rows :: "prepared_row list"

definition parse_biguint :: "string \<Rightarrow> usage_error + nat" where
  "parse_biguint s =
     rbind (ensure (\<not> (s = [] \<or> \<not> list_all is_digit s)) (UsageError ''invalid micro-USD amount''))
       (\<lambda>_. Inr (digits_value s))"

definition default_channel_assumption :: "usage_row \<Rightarrow> cost_assumption list" where
  "default_channel_assumption r = (if row_channel_source r = AgentDefault then [AgentDefaultChannel] else [])"

definition calculated_cost ::
    "cost_mode \<Rightarrow> pricing_catalog option \<Rightarrow> dated_row \<Rightarrow> (unpriced_reason + nat \<times> cost_assumption list) option" where
  "calculated_cost mode catalog d =
     (case mode of
        cost_mode.Reported \<Rightarrow> None
      | _ \<Rightarrow> Some (case catalog of
          None \<Rightarrow> Inl InvalidCatalog
        | Some c \<Rightarrow> (case calculate_row_from_catalog c d of
            PricedRow amount assumptions _ \<Rightarrow> Inr (amount, assumptions)
          | UnpricedRow reason \<Rightarrow> Inl reason)))"

definition prepare_row ::
    "externs \<Rightarrow> cost_mode \<Rightarrow> pricing_catalog option \<Rightarrow> dated_row \<Rightarrow> usage_error + prepared_row" where
  "prepare_row x mode catalog d =
     rbind (validate_dated_row x d) (\<lambda>_.
       (let r = dated_row d; calculated = calculated_cost mode catalog d in
        case calculated of
          Some (Inr (amount, assumptions)) \<Rightarrow>
            Inr (PreparedPriced (row_billing_channel r) (row_model r) amount Calculated
                   (assumptions @ default_channel_assumption r))
        | _ \<Rightarrow>
            if (mode = cost_mode.Reported \<or> mode = Auto) \<and> row_source_cost_microusd r \<noteq> None \<and>
               row_source_cost_covered_requests r = row_requests r
            then rbind (parse_biguint (case row_source_cost_microusd r of Some v \<Rightarrow> v | None \<Rightarrow> ''0''))
                   (\<lambda>amount. Inr (PreparedPriced (row_billing_channel r) (row_model r) amount
                      cost_basis.Reported (SourceReported # default_channel_assumption r)))
            else Inr (PreparedUnpriced (row_billing_channel r) (row_model r)
                   (if mode = cost_mode.Reported then IncompleteSourceCost
                    else case calculated of Some (Inl reason) \<Rightarrow> reason | _ \<Rightarrow> InvalidCatalog))))"

definition prepare_usage_costs ::
    "externs \<Rightarrow> dated_row list \<Rightarrow> pricing_catalog option \<Rightarrow> cost_mode \<Rightarrow> usage_error + prepared_costs" where
  "prepare_usage_costs x rows catalog mode =
     (let catalog = (if mode = cost_mode.Reported then None else valid_catalog x catalog) in
      rbind (map_r (prepare_row x mode catalog) rows) (\<lambda>prepared.
      Inr \<lparr>prepared_mode = mode, prepared_revision = map_option revision catalog,
           prepared_rows = prepared\<rparr>))"

subsection \<open>Folding prepared rows\<close>

record unpriced_item =
  item_billing_channel :: billing_channel
  item_model :: string
  item_reason :: unpriced_reason
  item_rows :: nat

record cost_outcome =
  outcome_mode :: cost_mode
  outcome_basis :: cost_basis
  outcome_status :: cost_status
  outcome_amount_microusd :: "string option"
  outcome_catalog_revision :: "string option"
  calculated_rows :: nat
  reported_rows :: nat
  unpriced_rows :: nat
  outcome_assumptions :: "cost_assumption list"
  outcome_unpriced :: "unpriced_item list"
  unpriced_truncated :: bool

fun assumption_key :: "cost_assumption \<Rightarrow> string" where
  "assumption_key AgentDefaultChannel = ''agent_default_channel''"
| "assumption_key ModelAlias = ''model_alias''"
| "assumption_key WildcardServiceTier = ''wildcard_service_tier''"
| "assumption_key WildcardSpeed = ''wildcard_speed''"
| "assumption_key WildcardInferenceGeo = ''wildcard_inference_geo''"
| "assumption_key WildcardContextBucket = ''wildcard_context_bucket''"
| "assumption_key CacheWriteInferredRate = ''cache_write_inferred_rate''"
| "assumption_key SourceReported = ''source_reported''"
| "assumption_key VendorOfficialPrice = ''vendor_official_price''"

fun reason_key :: "unpriced_reason \<Rightarrow> string" where
  "reason_key UnknownChannel = ''unknown_channel''"
| "reason_key UnknownModel = ''unknown_model''"
| "reason_key OutsideEffectiveRange = ''outside_effective_range''"
| "reason_key UnsupportedDimensions = ''unsupported_dimensions''"
| "reason_key AmbiguousPrice = ''ambiguous_price''"
| "reason_key MissingRate = ''missing_rate''"
| "reason_key IncompleteSourceCost = ''incomplete_source_cost''"
| "reason_key InvalidCatalog = ''invalid_catalog''"

text \<open>The derived orders: the sets and maps of the fold are kept in them.\<close>

fun assumption_rank :: "cost_assumption \<Rightarrow> nat" where
  "assumption_rank AgentDefaultChannel = 0" | "assumption_rank ModelAlias = 1"
| "assumption_rank WildcardServiceTier = 2" | "assumption_rank WildcardSpeed = 3"
| "assumption_rank WildcardInferenceGeo = 4" | "assumption_rank WildcardContextBucket = 5"
| "assumption_rank CacheWriteInferredRate = 6" | "assumption_rank SourceReported = 7"
| "assumption_rank VendorOfficialPrice = 8"

fun reason_rank :: "unpriced_reason \<Rightarrow> nat" where
  "reason_rank UnknownChannel = 0" | "reason_rank UnknownModel = 1"
| "reason_rank OutsideEffectiveRange = 2" | "reason_rank UnsupportedDimensions = 3"
| "reason_rank AmbiguousPrice = 4" | "reason_rank MissingRate = 5"
| "reason_rank IncompleteSourceCost = 6" | "reason_rank InvalidCatalog = 7"

lemma assumption_rank_inject: "assumption_rank a = assumption_rank b \<longleftrightarrow> a = b"
  by (cases a; cases b; simp)

lemma reason_rank_inject: "reason_rank a = reason_rank b \<longleftrightarrow> a = b"
  by (cases a; cases b; simp)

instantiation cost_assumption :: linorder
begin
definition less_eq_cost_assumption_def: "a \<le> b \<longleftrightarrow> assumption_rank a \<le> assumption_rank b"
definition less_cost_assumption_def: "a < b \<longleftrightarrow> assumption_rank a < assumption_rank b"
instance by standard
  (auto simp: less_eq_cost_assumption_def less_cost_assumption_def assumption_rank_inject)
end

instantiation unpriced_reason :: linorder
begin
definition less_eq_unpriced_reason_def: "a \<le> b \<longleftrightarrow> reason_rank a \<le> reason_rank b"
definition less_unpriced_reason_def: "a < b \<longleftrightarrow> reason_rank a < reason_rank b"
instance by standard
  (auto simp: less_eq_unpriced_reason_def less_unpriced_reason_def reason_rank_inject)
end

type_synonym unpriced_key = "billing_channel \<times> string \<times> unpriced_reason"

definition cost_add :: "nat \<Rightarrow> nat \<Rightarrow> usage_error + nat" where
  "cost_add = safe_add ''Usage cost count overflow'' ''Usage cost count exceeds safe integer range''"

text \<open>\<open>*unpriced.entry(key).or_default() = checked_add(count, n)?\<close>\<close>

definition bump ::
    "unpriced_key \<Rightarrow> nat \<Rightarrow> (unpriced_key, nat) btree \<Rightarrow> usage_error + (unpriced_key, nat) btree" where
  "bump k n m =
     rbind (cost_add (case bt_get m k of Some c \<Rightarrow> c | None \<Rightarrow> 0) n) (\<lambda>c. Inr (bt_put k c m))"

record tally =
  tally_amount :: nat
  tally_calculated :: nat
  tally_reported :: nat
  tally_assumptions :: "cost_assumption set"
  tally_unpriced :: "(unpriced_key, nat) btree"

definition tally_start :: tally where
  "tally_start = \<lparr>tally_amount = 0, tally_calculated = 0, tally_reported = 0,
     tally_assumptions = {}, tally_unpriced = []\<rparr>"

fun tally_row :: "prepared_row \<Rightarrow> tally \<Rightarrow> usage_error + tally" where
  "tally_row (PreparedPriced channel model amount basis assumptions) t =
     (let t = t\<lparr>tally_amount := tally_amount t + amount\<rparr> in
      rbind (case basis of
               Calculated \<Rightarrow> rbind (cost_add (tally_calculated t) 1) (\<lambda>n. Inr (t\<lparr>tally_calculated := n\<rparr>))
             | cost_basis.Reported \<Rightarrow> rbind (cost_add (tally_reported t) 1) (\<lambda>n. Inr (t\<lparr>tally_reported := n\<rparr>))
             | _ \<Rightarrow> Inl (UsageError ''prepared row has invalid pricing basis''))
        (\<lambda>t. Inr (t\<lparr>tally_assumptions := tally_assumptions t \<union> set assumptions\<rparr>)))"
| "tally_row (PreparedUnpriced channel model reason) t =
     rbind (bump (channel, model, reason) 1 (tally_unpriced t)) (\<lambda>m. Inr (t\<lparr>tally_unpriced := m\<rparr>))"

definition basis_of :: "nat \<Rightarrow> nat \<Rightarrow> cost_basis" where
  "basis_of calculated reported =
     (if 0 < calculated \<and> 0 < reported then Mixed
      else if 0 < calculated then Calculated
      else if 0 < reported then cost_basis.Reported
      else NoBasis)"

definition status_of :: "nat \<Rightarrow> nat \<Rightarrow> cost_status" where
  "status_of priced unpriced =
     (if unpriced = 0 then Complete else if 0 < priced then Partial else Unavailable)"

definition max_unpriced_items :: nat where
  "max_unpriced_items = 100"

definition item_of :: "unpriced_key \<times> nat \<Rightarrow> unpriced_item" where
  "item_of = (\<lambda>((channel, model, reason), n).
     \<lparr>item_billing_channel = channel, item_model = model, item_reason = reason, item_rows = n\<rparr>)"

definition sorted_items :: "(unpriced_key, nat) btree \<Rightarrow> unpriced_item list" where
  "sorted_items m =
     sort_key (\<lambda>i. (channel_str (item_billing_channel i), item_model i, reason_key (item_reason i)))
       (map item_of m)"

definition sorted_assumptions :: "cost_assumption set \<Rightarrow> cost_assumption list" where
  "sorted_assumptions as = sort_key assumption_key (sorted_list_of_set as)"

definition bounded_amount :: "bool \<Rightarrow> nat \<Rightarrow> usage_error + string option" where
  "bounded_amount any amount =
     (if any then
        let v = decimal_string amount in
        rbind (ensure (\<not> 32 < length v) (UsageError ''Usage cost amount exceeds protocol bound''))
          (\<lambda>_. Inr (Some v))
      else Inr None)"

text \<open>\<open>prepared.rows.get(index)\<close> of each selected index, in order.\<close>

definition tally_index :: "prepared_row list \<Rightarrow> nat \<Rightarrow> tally \<Rightarrow> usage_error + tally" where
  "tally_index rows i t =
     (if i < length rows then tally_row (rows ! i) t
      else Inl (UsageError (''missing prepared Usage row at index '' @ decimal_string i)))"

definition fold_prepared_usage_costs ::
    "prepared_costs \<Rightarrow> nat list option \<Rightarrow> usage_error + cost_outcome" where
  "fold_prepared_usage_costs prepared indexes =
     (let selected = (case indexes of None \<Rightarrow> [0..<length (prepared_rows prepared)] | Some is \<Rightarrow> is) in
      rbind (fold_r (tally_index (prepared_rows prepared)) selected tally_start) (\<lambda>t.
      rbind (ok_or (UsageError ''pricing row count overflow'')
        (checked_add (tally_calculated t) (tally_reported t))) (\<lambda>priced.
      rbind (ensure (priced \<le> length selected) (UsageError ''pricing row count invariant failed'')) (\<lambda>_.
      rbind (bounded_amount (0 < priced) (tally_amount t)) (\<lambda>amount.
      Inr \<lparr>outcome_mode = prepared_mode prepared,
           outcome_basis = basis_of (tally_calculated t) (tally_reported t),
           outcome_status = status_of priced (length selected - priced),
           outcome_amount_microusd = amount,
           outcome_catalog_revision = prepared_revision prepared,
           calculated_rows = tally_calculated t, reported_rows = tally_reported t,
           unpriced_rows = length selected - priced,
           outcome_assumptions = sorted_assumptions (tally_assumptions t),
           outcome_unpriced = take max_unpriced_items (sorted_items (tally_unpriced t)),
           unpriced_truncated = max_unpriced_items < length (tally_unpriced t)\<rparr>)))))"

definition calculate_usage_cost ::
    "externs \<Rightarrow> dated_row list \<Rightarrow> pricing_catalog option \<Rightarrow> cost_mode \<Rightarrow> usage_error + cost_outcome" where
  "calculate_usage_cost x rows catalog mode =
     rbind (prepare_usage_costs x rows catalog mode) (\<lambda>prepared. fold_prepared_usage_costs prepared None)"

subsection \<open>Folding outcomes\<close>

record outcome_tally =
  ot_amount :: nat
  ot_priced_any :: bool
  ot_calculated :: nat
  ot_reported :: nat
  ot_unpriced_rows :: nat
  ot_mode :: cost_mode
  ot_revision :: "string option"
  ot_assumptions :: "cost_assumption set"
  ot_unpriced :: "(unpriced_key, nat) btree"
  ot_truncated :: bool

definition item_key :: "unpriced_item \<Rightarrow> unpriced_key" where
  "item_key i = (item_billing_channel i, item_model i, item_reason i)"

definition outcome_tally_start :: outcome_tally where
  "outcome_tally_start = \<lparr>ot_amount = 0, ot_priced_any = False, ot_calculated = 0, ot_reported = 0,
     ot_unpriced_rows = 0, ot_mode = Auto, ot_revision = None, ot_assumptions = {},
     ot_unpriced = [], ot_truncated = False\<rparr>"

definition tally_outcome :: "nat \<times> cost_outcome \<Rightarrow> outcome_tally \<Rightarrow> usage_error + outcome_tally" where
  "tally_outcome = (\<lambda>(index, out) t.
     (let t = (if index = 0 then t\<lparr>ot_mode := outcome_mode out, ot_revision := outcome_catalog_revision out\<rparr>
               else if ot_revision t \<noteq> outcome_catalog_revision out then t\<lparr>ot_revision := None\<rparr>
               else t) in
      rbind (case outcome_amount_microusd out of
               Some v \<Rightarrow> rbind (parse_biguint v) (\<lambda>n.
                 Inr (t\<lparr>ot_amount := ot_amount t + n, ot_priced_any := True\<rparr>))
             | None \<Rightarrow> Inr t) (\<lambda>t.
      rbind (cost_add (ot_calculated t) (calculated_rows out)) (\<lambda>c.
      rbind (cost_add (ot_reported t) (reported_rows out)) (\<lambda>r.
      rbind (cost_add (ot_unpriced_rows t) (unpriced_rows out)) (\<lambda>u.
      rbind (fold_r (\<lambda>i. bump (item_key i) (item_rows i)) (outcome_unpriced out) (ot_unpriced t)) (\<lambda>m.
      Inr (t\<lparr>ot_calculated := c, ot_reported := r, ot_unpriced_rows := u,
             ot_assumptions := ot_assumptions t \<union> set (outcome_assumptions out),
             ot_truncated := (ot_truncated t \<or> unpriced_truncated out), ot_unpriced := m\<rparr>))))))))"

definition fold_usage_cost_outcomes :: "cost_outcome list \<Rightarrow> usage_error + cost_outcome" where
  "fold_usage_cost_outcomes outcomes =
     rbind (fold_r tally_outcome (enumerate 0 outcomes) outcome_tally_start) (\<lambda>t.
     rbind (cost_add (ot_calculated t) (ot_reported t)) (\<lambda>priced.
     rbind (bounded_amount (ot_priced_any t \<and> 0 < priced) (ot_amount t)) (\<lambda>amount.
     Inr \<lparr>outcome_mode = ot_mode t, outcome_basis = basis_of (ot_calculated t) (ot_reported t),
          outcome_status = status_of priced (ot_unpriced_rows t), outcome_amount_microusd = amount,
          outcome_catalog_revision = ot_revision t,
          calculated_rows = ot_calculated t, reported_rows = ot_reported t,
          unpriced_rows = ot_unpriced_rows t,
          outcome_assumptions = sorted_assumptions (ot_assumptions t),
          outcome_unpriced = take max_unpriced_items (sorted_items (ot_unpriced t)),
          unpriced_truncated = (ot_truncated t \<or> max_unpriced_items < length (ot_unpriced t))\<rparr>)))"

subsection \<open>The exact price of a row\<close>

definition rate_or_free :: "string option \<Rightarrow> rat" where
  "rate_or_free r = (case r of None \<Rightarrow> 0 | Some v \<Rightarrow> rate_value v)"

text \<open>In micro-USD: a rate per million tokens is its number of micro-USD per token.\<close>

definition row_price :: "pricing_rates \<Rightarrow> usage_row \<Rightarrow> rat" where
  "row_price p r =
     (of_nat (row_input_tokens r) - of_nat (row_cache_read_tokens r) - of_nat (row_cache_write_5m_tokens r)
       - of_nat (row_cache_write_1h_tokens r) - of_nat (row_cache_write_inferred_tokens r))
       * rate_or_free (uncached_input_per_million p)
     + of_nat (row_cache_read_tokens r) * rate_or_free (cache_read_per_million p)
     + of_nat (row_cache_write_5m_tokens r) * rate_or_free (cache_write_5m_per_million p)
     + of_nat (row_cache_write_1h_tokens r) * rate_or_free (cache_write_1h_per_million p)
     + of_nat (row_cache_write_inferred_tokens r) * rate_or_free (cache_write_inferred_per_million p)
     + of_nat (row_output_tokens r) * rate_or_free (output_per_million p)
     + of_nat (row_web_search_requests r) * 1000000 * rate_or_free (web_search_per_request p)
     + of_nat (row_web_fetch_requests r) * 1000000 * rate_or_free (web_fetch_per_request p)"

definition rate_missing :: "pricing_rates \<Rightarrow> usage_row \<Rightarrow> bool" where
  "rate_missing p r \<longleftrightarrow> list_ex (\<lambda>(count, rate, _). 0 < count \<and> rate = None) (row_components p r)"

lemma row_ok_uncached:
  assumes "row_ok r"
  shows "uncached_tokens r + (row_cache_read_tokens r + row_cache_write_5m_tokens r +
    row_cache_write_1h_tokens r + row_cache_write_inferred_tokens r) = row_input_tokens r"
proof -
  let ?c = "row_cache_read_tokens r + row_cache_write_5m_tokens r + row_cache_write_1h_tokens r +
    row_cache_write_inferred_tokens r"
  have le: "?c \<le> row_input_tokens r" using row_ok_subsets [OF assms] by simp
  have small: "row_input_tokens r < 2 ^ 64"
    using row_ok_measured_le [OF assms, of InputTokens] by (simp add: max_safe_count_def)
  have "classified_tokens r = ?c"
    unfolding classified_tokens_def using le small by (intro mod_less) linarith
  moreover have "row_input_tokens r + 2 ^ 64 - ?c = row_input_tokens r - ?c + 2 ^ 64" using le by simp
  ultimately have "uncached_tokens r = (row_input_tokens r - ?c) mod 2 ^ 64"
    unfolding uncached_tokens_def by (simp only: mod_add_self2)
  also have "\<dots> = row_input_tokens r - ?c" using small by (intro mod_less) linarith
  finally show ?thesis using le by simp
qed

lemma row_components_price:
  assumes "row_ok r"
  shows "sum_list (map component_value (row_components p r)) = row_price p r"
proof -
  have "(of_nat (uncached_tokens r) :: rat) = of_nat (row_input_tokens r) - of_nat (row_cache_read_tokens r)
      - of_nat (row_cache_write_5m_tokens r) - of_nat (row_cache_write_1h_tokens r)
      - of_nat (row_cache_write_inferred_tokens r)"
    by (simp flip: row_ok_uncached [OF assms])
  then show ?thesis
    by (simp add: row_components_def component_value_def row_price_def rate_or_free_def)
qed

lemma entry_issues_Nil: "entry_issues x ids es = [] \<Longrightarrow> e \<in> set es \<Longrightarrow> validate_entry x e = []"
  by (induction es arbitrary: ids) auto

lemma validate_entry_rates:
  "validate_entry x e = [] \<Longrightarrow> (name, Some v) \<in> set (rates_all (rates e)) \<Longrightarrow> decimal_amount v"
proof -
  assume "validate_entry x e = []" and rate: "(name, Some v) \<in> set (rates_all (rates e))"
  then have "\<forall>xs \<in> set (rates_all (rates e)). (case xs of (name, v) \<Rightarrow>
      invalid_if (case v of None \<Rightarrow> False | Some r \<Rightarrow> \<not> decimal_amount r) name ''invalid decimal amount'') = []"
    unfolding validate_entry_def by (simp only: append_is_Nil_conv concat_eq_Nil_conv) simp
  from bspec [OF this rate] show "decimal_amount v"
    by (simp add: invalid_if_def split: if_splits)
qed

lemma valid_components:
  assumes "catalog_is_valid (validate_catalog x c)" and "e \<in> set (catalog_entries c)"
    and "\<not> rate_missing (rates e) r"
  shows "list_all component_priced (row_components (rates e) r)"
proof -
  have "validate_entry x e = []"
    using entry_issues_Nil validate_catalog_pairs [OF assms(1)] assms(2) by blast
  note decimal = validate_entry_rates [OF this]
  have "component_priced (count, rate, per)" if "(count, rate, per) \<in> set (row_components (rates e) r)" for count rate per
  proof (cases rate)
    case None
    with that assms(3) show ?thesis by (force simp: component_priced_def rate_missing_def list_ex_iff)
  next
    case (Some v)
    with that have "(count, Some v, per) \<in> set (row_components (rates e) r)" by simp
    then have "Some v \<in> snd ` set (rates_all (rates e))"
      unfolding row_components_def list.set insert_iff prod.inject
      by (elim disjE) (simp_all add: rates_all_def)
    with decimal Some show ?thesis by (auto simp: component_priced_def)
  qed
  then show ?thesis by (auto simp: list_all_iff)
qed

lemma resolve_priced_entry: "resolve_pricing_entry c d = Priced e as \<Longrightarrow> e \<in> set (catalog_entries c)"
proof -
  assume res: "resolve_pricing_entry c d = Priced e as"
  then have "candidates c d \<noteq> []" by (auto simp: resolve_by_rank split: if_splits)
  with res obtain s others where "ranked d (candidates c d) = (e, s) # others"
    by (auto simp: resolve_by_rank split: if_splits list.splits prod.splits)
  from ranked_head(1) [OF this] show "e \<in> set (catalog_entries c)" by (simp add: candidates_def)
qed

subsection \<open>Properties\<close>

text \<open>C8: Under a catalog that validates, a row that passes the boundary check costs its exact price,
  computed in rational arithmetic with the cache reads and writes taken out of the input once, and
  rounded half up once; it is unpriced only for the resolution's reason or because a part of it has
  no rate. The unchecked \<open>u64\<close> arithmetic never wraps.\<close>

theorem row_cost_exact:
  assumes valid: "catalog_is_valid (validate_catalog x c)" and row: "validate_dated_row x d = Inr ()"
  shows "calculate_row_from_catalog c d =
    (case resolve_pricing_entry c d of
       Unpriced reason \<Rightarrow> UnpricedRow reason
     | Priced e as \<Rightarrow>
         if rate_missing (rates e) (dated_row d) then UnpricedRow MissingRate
         else PricedRow (nat (round_half_up (row_price (rates e) (dated_row d))))
                (as @ (if row_cache_write_inferred_tokens (dated_row d) = 0 then [] else [CacheWriteInferredRate]))
                (entry_id e))"
proof (cases "resolve_pricing_entry c d")
  case (Priced e as)
  let ?components = "row_components (rates e) (dated_row d)"
  have ok: "row_ok (dated_row d)"
    using row by (simp add: validate_dated_row_def row_ok_def result_simps)
  have "round_decimal_components ?components =
      Inr (nat (round_half_up (row_price (rates e) (dated_row d))))" if "\<not> rate_missing (rates e) (dated_row d)"
  proof -
    have priced: "list_all component_priced ?components"
      using valid_components [OF valid resolve_priced_entry [OF Priced] that] .
    have "0 \<le> row_price (rates e) (dated_row d)"
      by (simp flip: row_components_price [OF ok] add: row_components_def component_value_def
          rate_value_nonneg split: option.splits)
    then have "0 \<le> round_half_up (row_price (rates e) (dated_row d))"
      by (simp add: round_half_up_def)
    with priced show ?thesis
      by (simp add: round_decimal_components_Inr row_components_price [OF ok])
  qed
  with Priced show ?thesis
    by (simp add: calculate_row_from_catalog_def Let_def rate_missing_def)
qed (simp add: calculate_row_from_catalog_def)

theorem row_cost_exact_witness:
  "calculate_row_from_catalog sample_catalog sample_dated =
     PricedRow 188 [WildcardSpeed, WildcardInferenceGeo, WildcardContextBucket] ''openai:gpt-5''"
proof -
  have "validate_dated_row sample_dates sample_dated = Inr ()" by code_simp
  note exact = row_cost_exact [OF sample_catalog_valid this]
  have "resolve_pricing_entry sample_catalog sample_dated =
      Priced sample_entry [WildcardSpeed, WildcardInferenceGeo, WildcardContextBucket]"
    and "\<not> rate_missing (rates sample_entry) (dated_row sample_dated)"
    and "nat (round_half_up (row_price (rates sample_entry) (dated_row sample_dated))) = 188"
    and "row_cache_write_inferred_tokens (dated_row sample_dated) = 0"
    and "entry_id sample_entry = ''openai:gpt-5''"
    by code_simp+
  then show ?thesis unfolding exact by simp
qed

text \<open>The cache hit rate of a period that has a total is the share of its input read from a
  cache, in basis points rounded half up: none when there was no input, and never above 10000.\<close>

theorem cache_hit_rate_bounded:
  assumes "summary_totals_of x rows = Inr s"
  shows "case usage_cache_hit_basis_points s of
    None \<Rightarrow> period_sum InputTokens rows = 0
  | Some points \<Rightarrow> 0 < period_sum InputTokens rows \<and> points \<le> 10000 \<and>
      int points = round_half_up (10000 * of_nat (period_sum CacheReadTokens rows)
        / of_nat (period_sum InputTokens rows))"
proof -
  from assms have s: "s = period_summary rows" and valid: "\<forall>r \<in> set rows. validate_dated_row x r = Inr ()"
    by (simp_all add: summary_totals_of_Inr)
  let ?read = "period_sum CacheReadTokens rows" and ?input = "period_sum InputTokens rows"
  have le: "?read \<le> ?input" using period_sum_subsets [OF valid] by simp
  show ?thesis
  proof (cases "?input = 0")
    case False
    have "int ((10000 * ?read * 2 + ?input) div (?input * 2)) =
        round_half_up (of_nat (10000 * ?read) / of_nat ?input)"
      using False by (intro div_half_up) simp
    moreover have "(10000 * ?read * 2 + ?input) div (?input * 2) < 10001"
      using le False by (subst div_less_iff_less_mult) (auto simp: algebra_simps)
    ultimately show ?thesis
      using False by (simp add: usage_cache_hit_basis_points_def s period_summary_def Let_def mult.commute)
  qed (simp add: usage_cache_hit_basis_points_def s period_summary_def)
qed

theorem cache_hit_rate_bounded_witness:
  "case usage_cache_hit_basis_points (period_summary [sample_dated]) of
     None \<Rightarrow> False | Some points \<Rightarrow> points \<le> 10000"
proof -
  have "summary_totals_of sample_externs [sample_dated] = Inr (period_summary [sample_dated])"
    and "period_sum InputTokens [sample_dated] \<noteq> 0" by code_simp+
  from cache_hit_rate_bounded [OF this(1)] this(2) show ?thesis
    by (simp split: option.splits)
qed

end
