(* ===== verification/Pricing_Tree.thy ===== *)
theory Pricing_Tree
  imports Pricing_Cost
begin

text \<open>
  Folding costs up a tree (\<open>packages/service/src/pricing.rs\<close>). The specification of a fold is what
  the prepared rows add up to (\<open>row_amount\<close>, \<open>row_calculated\<close>, \<open>row_reported\<close>, \<open>row_unpriced\<close>);
  \<open>rows_outcome\<close> is the outcome they have. The lemmas show that \<open>fold_prepared_usage_costs\<close>
  computes it and that \<open>fold_usage_cost_outcomes\<close> of leaves computes it for all their rows.
\<close>

declare split_paired_All [simp del] split_paired_Ex [simp del]

subsection \<open>What rows add up to\<close>

fun row_amount :: "prepared_row \<Rightarrow> nat" where
  "row_amount (PreparedPriced c m a b as) = a"
| "row_amount (PreparedUnpriced c m r) = 0"

fun row_calculated :: "prepared_row \<Rightarrow> nat" where
  "row_calculated (PreparedPriced c m a b as) = (if b = Calculated then 1 else 0)"
| "row_calculated (PreparedUnpriced c m r) = 0"

fun row_reported :: "prepared_row \<Rightarrow> nat" where
  "row_reported (PreparedPriced c m a b as) = (if b = cost_basis.Reported then 1 else 0)"
| "row_reported (PreparedUnpriced c m r) = 0"

fun row_assumptions :: "prepared_row \<Rightarrow> cost_assumption set" where
  "row_assumptions (PreparedPriced c m a b as) = set as"
| "row_assumptions (PreparedUnpriced c m r) = {}"

fun row_unpriced :: "unpriced_key \<Rightarrow> prepared_row \<Rightarrow> nat" where
  "row_unpriced k (PreparedPriced c m a b as) = 0"
| "row_unpriced k (PreparedUnpriced c m r) = (if k = (c, m, r) then 1 else 0)"

fun row_basis_ok :: "prepared_row \<Rightarrow> bool" where
  "row_basis_ok (PreparedPriced c m a b as) \<longleftrightarrow> b = Calculated \<or> b = cost_basis.Reported"
| "row_basis_ok (PreparedUnpriced c m r) \<longleftrightarrow> True"

definition rows_total :: "(prepared_row \<Rightarrow> nat) \<Rightarrow> prepared_row list \<Rightarrow> nat" where
  "rows_total f rs = sum_list (map f rs)"

lemma rows_total_simps [simp]:
  "rows_total f [] = 0" "rows_total f (r # rs) = f r + rows_total f rs"
  "rows_total f (rs @ ss) = rows_total f rs + rows_total f ss"
  by (simp_all add: rows_total_def)

lemma row_unpriced_le: "row_unpriced k r \<le> 1"
  by (cases r) auto

lemma rows_total_unpriced_le: "rows_total (row_unpriced k) rs \<le> length rs"
  by (induction rs) (auto intro: add_mono [OF row_unpriced_le, simplified])

lemma rows_total_priced_le:
  "list_all row_basis_ok rs \<Longrightarrow> rows_total row_calculated rs + rows_total row_reported rs \<le> length rs"
proof (induction rs)
  case (Cons r rs)
  have "row_calculated r + row_reported r \<le> 1" by (cases r) auto
  with Cons show ?case by simp
qed simp

lemma row_amount_unpriced:
  "list_all row_basis_ok rs \<Longrightarrow> rows_total row_calculated rs + rows_total row_reported rs = 0 \<Longrightarrow>
     rows_total row_amount rs = 0"
proof (induction rs)
  case (Cons r rs)
  then show ?case by (cases r) (auto split: if_splits)
qed simp

subsection \<open>Counted maps\<close>

definition count_at :: "(unpriced_key, nat) btree \<Rightarrow> unpriced_key \<Rightarrow> nat" where
  "count_at m k = (case bt_get m k of Some c \<Rightarrow> c | None \<Rightarrow> 0)"

definition counted :: "(unpriced_key, nat) btree \<Rightarrow> bool" where
  "counted m \<longleftrightarrow> bt_ordered m \<and> (\<forall>(k, c) \<in> set m. 0 < c)"

lemma counted_Nil [simp]: "counted []"
  by (simp add: counted_def)

lemma counted_put: "counted m \<Longrightarrow> 0 < c \<Longrightarrow> counted (bt_put k c m)"
  using set_bt_put [of k c m] by (auto simp: counted_def bt_simps)

lemma count_at_Nil [simp]: "count_at [] k = 0"
  by (simp add: count_at_def)

lemma count_at_put: "count_at (bt_put k c m) l = (if l = k then c else count_at m l)"
  by (simp add: count_at_def bt_get_put)

lemma counted_eqI:
  assumes "counted m" and "counted n" and same: "\<And>k. count_at m k = count_at n k"
  shows "m = n"
proof (rule bt_ext)
  fix k
  have "0 < c" if "bt_get l k = Some c" "counted l" for l c
    using that by (auto simp: counted_def dest: bt_get_in)
  with assms(1,2) same [of k] show "bt_get m k = bt_get n k"
    by (fastforce simp: count_at_def split: option.splits)
qed (use assms(1,2) in \<open>simp_all add: counted_def\<close>)

lemma counted_keys: "counted m \<Longrightarrow> fst ` set m = {k. 0 < count_at m k}"
  by (force simp: counted_def count_at_def bt_get_iff dest: bt_get_in split: option.splits)

lemma counted_length: "counted m \<Longrightarrow> length m = card {k. 0 < count_at m k}"
  using counted_keys [of m] bt_ordered_distinct [of m] distinct_card [of "map fst m"]
  by (simp add: counted_def)

lemma bump_Inr:
  "bump k n m = Inr m' \<longleftrightarrow> m' = bt_put k (count_at m k + n) m \<and> count_at m k + n \<le> max_safe_count"
  by (auto simp: bump_def cost_add_def count_at_def result_simps)

lemma bump_count:
  "bump k n m = Inr m' \<Longrightarrow> count_at m' l = count_at m l + (if l = k then n else 0)"
  by (auto simp: bump_Inr count_at_put)

lemma bump_counted: "bump k n m = Inr m' \<Longrightarrow> counted m \<Longrightarrow> 0 < n \<Longrightarrow> counted m'"
  by (auto simp: bump_Inr intro: counted_put)

subsection \<open>Folding prepared rows\<close>

lemma tally_row_Inr:
  assumes "tally_row r t = Inr u"
  shows "row_basis_ok r \<and> tally_amount u = tally_amount t + row_amount r \<and>
    tally_calculated u = tally_calculated t + row_calculated r \<and>
    tally_reported u = tally_reported t + row_reported r \<and>
    tally_assumptions u = tally_assumptions t \<union> row_assumptions r \<and>
    (\<forall>k. count_at (tally_unpriced u) k = count_at (tally_unpriced t) k + row_unpriced k r) \<and>
    (counted (tally_unpriced t) \<longrightarrow> counted (tally_unpriced u))"
proof (cases r)
  case (PreparedPriced c m a b as)
  with assms show ?thesis
    by (cases b) (auto simp: result_simps cost_add_def Let_def)
next
  case (PreparedUnpriced c m r)
  with assms obtain n where n: "bump (c, m, r) 1 (tally_unpriced t) = Inr n" and u: "u = t\<lparr>tally_unpriced := n\<rparr>"
    by (auto simp: result_simps)
  from bump_count [OF n] bump_counted [OF n] show ?thesis
    by (simp add: u PreparedUnpriced)
qed

lemma tally_row_returns:
  assumes "row_basis_ok r" and "tally_calculated t < max_safe_count" and "tally_reported t < max_safe_count"
    and "\<And>k. count_at (tally_unpriced t) k < max_safe_count"
  shows "\<exists>u. tally_row r t = Inr u"
proof (cases r)
  case (PreparedPriced c m a b as)
  with assms show ?thesis
    by (cases b) (auto simp: cost_add_def safe_add_def checked_add_def max_safe_count_def Let_def)
next
  case (PreparedUnpriced c m r)
  then have "bump (c, m, r) 1 (tally_unpriced t) =
      Inr (bt_put (c, m, r) (count_at (tally_unpriced t) (c, m, r) + 1) (tally_unpriced t))"
    using assms(4) [of "(c, m, r)"] by (simp add: bump_Inr)
  with PreparedUnpriced show ?thesis by simp
qed

definition tallies :: "tally \<Rightarrow> prepared_row list \<Rightarrow> bool" where
  "tallies t rs \<longleftrightarrow> list_all row_basis_ok rs \<and> tally_amount t = rows_total row_amount rs \<and>
     tally_calculated t = rows_total row_calculated rs \<and> tally_reported t = rows_total row_reported rs \<and>
     tally_assumptions t = \<Union> (row_assumptions ` set rs) \<and>
     (\<forall>k. count_at (tally_unpriced t) k = rows_total (row_unpriced k) rs) \<and> counted (tally_unpriced t)"

lemma tallies_start: "tallies tally_start []"
  by (simp add: tallies_def tally_start_def)

lemma tallies_row: "tallies t rs \<Longrightarrow> tally_row r t = Inr u \<Longrightarrow> tallies u (rs @ [r])"
  using tally_row_Inr [of r t u] by (auto simp: tallies_def)

lemma fold_tally_sound:
  "fold_r tally_row rs t = Inr u \<Longrightarrow> tallies t done \<Longrightarrow> tallies u (done @ rs)"
proof (induction rs arbitrary: t "done")
  case (Cons r rs)
  then obtain v where v: "tally_row r t = Inr v" and rest: "fold_r tally_row rs v = Inr u"
    by (auto simp: result_simps)
  from Cons.IH [OF rest tallies_row [OF Cons.prems(2) v]] show ?case by simp
qed simp

lemma fold_tally_returns:
  assumes "list_all row_basis_ok rs" and "tallies t done" and "length done + length rs \<le> max_safe_count"
  shows "\<exists>u. fold_r tally_row rs t = Inr u"
  using assms
proof (induction rs arbitrary: t "done")
  case (Cons r rs)
  have priced: "tally_calculated t + tally_reported t \<le> length done"
    using Cons.prems(2) rows_total_priced_le [of "done"] by (simp add: tallies_def)
  have unpriced: "count_at (tally_unpriced t) k \<le> length done" for k
    using Cons.prems(2) rows_total_unpriced_le [of k "done"] by (simp add: tallies_def)
  have "\<exists>u. tally_row r t = Inr u"
  proof (rule tally_row_returns)
    show "count_at (tally_unpriced t) k < max_safe_count" for k
      using unpriced [of k] Cons.prems(3) by simp
  qed (use Cons.prems priced in auto)
  then obtain u where u: "tally_row r t = Inr u" ..
  have "\<exists>v. fold_r tally_row rs u = Inr v"
    using Cons.prems tallies_row [OF Cons.prems(2) u] by (intro Cons.IH [of u "done @ [r]"]) auto
  with u show ?case by simp
qed simp

definition selected_rows :: "prepared_costs \<Rightarrow> nat list \<Rightarrow> prepared_row list" where
  "selected_rows p is = map (\<lambda>i. prepared_rows p ! i) is"

lemma tally_index_fold:
  "\<forall>i \<in> set is. i < length (prepared_rows p) \<Longrightarrow>
     fold_r (tally_index (prepared_rows p)) is t = fold_r tally_row (selected_rows p is) t"
  by (induction "is" arbitrary: t)
    (simp_all add: selected_rows_def tally_index_def rbind_def split: sum.splits)

text \<open>The outcome rows have, with the counts of their unpriced keys in \<open>m\<close>.\<close>

definition rows_outcome :: "prepared_costs \<Rightarrow> prepared_row list \<Rightarrow> (unpriced_key, nat) btree \<Rightarrow> cost_outcome" where
  "rows_outcome p rs m =
     (let calculated = rows_total row_calculated rs; reported = rows_total row_reported rs;
          priced = calculated + reported in
      \<lparr>outcome_mode = prepared_mode p, outcome_basis = basis_of calculated reported,
       outcome_status = status_of priced (length rs - priced),
       outcome_amount_microusd =
         (if 0 < priced then Some (decimal_string (rows_total row_amount rs)) else None),
       outcome_catalog_revision = prepared_revision p,
       calculated_rows = calculated, reported_rows = reported, unpriced_rows = length rs - priced,
       outcome_assumptions = sorted_assumptions (\<Union> (row_assumptions ` set rs)),
       outcome_unpriced = take max_unpriced_items (sorted_items m),
       unpriced_truncated = max_unpriced_items < length m\<rparr>)"

definition counts_rows :: "(unpriced_key, nat) btree \<Rightarrow> prepared_row list \<Rightarrow> bool" where
  "counts_rows m rs \<longleftrightarrow> counted m \<and> (\<forall>k. count_at m k = rows_total (row_unpriced k) rs)"

lemma bounded_amount_Inr [result_simps]:
  "bounded_amount any amount = Inr a \<longleftrightarrow>
     (if any then amount < 10 ^ 32 \<and> a = Some (decimal_string amount) else a = None)"
  by (auto simp: bounded_amount_def Let_def result_simps not_less length_decimal_string_iff)

lemma fold_prepared_sound:
  assumes "fold_prepared_usage_costs p (Some is) = Inr out"
    and "\<forall>i \<in> set is. i < length (prepared_rows p)"
  shows "list_all row_basis_ok (selected_rows p is) \<and> rows_total row_amount (selected_rows p is) < 10 ^ 32 \<and>
    (\<exists>m. counts_rows m (selected_rows p is) \<and> out = rows_outcome p (selected_rows p is) m)"
proof -
  let ?rs = "selected_rows p is"
  from assms(1) obtain t amount where run: "fold_r tally_row ?rs tally_start = Inr t"
    and amount: "bounded_amount (0 < tally_calculated t + tally_reported t) (tally_amount t) = Inr amount"
    and out: "out = \<lparr>outcome_mode = prepared_mode p,
           outcome_basis = basis_of (tally_calculated t) (tally_reported t),
           outcome_status = status_of (tally_calculated t + tally_reported t)
             (length is - (tally_calculated t + tally_reported t)),
           outcome_amount_microusd = amount,
           outcome_catalog_revision = prepared_revision p,
           calculated_rows = tally_calculated t, reported_rows = tally_reported t,
           unpriced_rows = length is - (tally_calculated t + tally_reported t),
           outcome_assumptions = sorted_assumptions (tally_assumptions t),
           outcome_unpriced = take max_unpriced_items (sorted_items (tally_unpriced t)),
           unpriced_truncated = max_unpriced_items < length (tally_unpriced t)\<rparr>"
    by (auto simp: fold_prepared_usage_costs_def tally_index_fold [OF assms(2)] rbind_Inr
        checked_add_Some ok_or_Inr ensure_Inr)
  have t: "tallies t ?rs"
    using fold_tally_sound [OF run tallies_start] by simp
  have len: "length is = length ?rs" by (simp add: selected_rows_def)
  have "rows_total row_amount ?rs < 10 ^ 32"
    using amount t row_amount_unpriced [of ?rs]
    by (cases "0 < rows_total row_calculated ?rs + rows_total row_reported ?rs")
      (auto simp: tallies_def bounded_amount_Inr)
  moreover have "out = rows_outcome p ?rs (tally_unpriced t)"
    using amount t unfolding out len rows_outcome_def Let_def
    by (simp add: tallies_def bounded_amount_Inr split: if_splits)
  ultimately show ?thesis
    using t by (auto simp: tallies_def counts_rows_def)
qed

lemma fold_prepared_returns:
  assumes "\<forall>i \<in> set is. i < length (prepared_rows p)" and "list_all row_basis_ok (selected_rows p is)"
    and "length is \<le> max_safe_count" and "rows_total row_amount (selected_rows p is) < 10 ^ 32"
  shows "\<exists>out. fold_prepared_usage_costs p (Some is) = Inr out"
proof -
  let ?rs = "selected_rows p is"
  have len: "length ?rs = length is" by (simp add: selected_rows_def)
  obtain t where run: "fold_r tally_row ?rs tally_start = Inr t"
    using fold_tally_returns [OF assms(2) tallies_start] assms(3) by (auto simp: len)
  have t: "tallies t ?rs"
    using fold_tally_sound [OF run tallies_start] by simp
  then have le: "tally_calculated t + tally_reported t \<le> length is"
    using rows_total_priced_le [OF assms(2)] by (simp add: tallies_def len)
  then have "checked_add (tally_calculated t) (tally_reported t) = Some (tally_calculated t + tally_reported t)"
    using assms(3) by (simp add: checked_add_def max_safe_count_def)
  moreover have "\<exists>a. bounded_amount (0 < tally_calculated t + tally_reported t) (tally_amount t) = Inr a"
    using t assms(4)
    by (cases "0 < tally_calculated t + tally_reported t") (auto simp: bounded_amount_Inr tallies_def)
  ultimately show ?thesis
    using run le by (auto simp: fold_prepared_usage_costs_def tally_index_fold [OF assms(1)])
qed

subsection \<open>Folding outcomes\<close>

definition items_total :: "unpriced_key \<Rightarrow> unpriced_item list \<Rightarrow> nat" where
  "items_total k is = (\<Sum>i \<leftarrow> is. if item_key i = k then item_rows i else 0)"

lemma items_total_simps [simp]:
  "items_total k [] = 0"
  "items_total k (i # is) = (if item_key i = k then item_rows i else 0) + items_total k is"
  by (simp_all add: items_total_def)

lemma items_total_take: "items_total k (take n is) \<le> items_total k is"
proof -
  have "items_total k is = items_total k (take n is) + items_total k (drop n is)"
    unfolding items_total_def map_append [symmetric] sum_list_append [symmetric]
      append_take_drop_id ..
  then show ?thesis by simp
qed

lemma item_of_simps [simp]: "item_key (item_of e) = fst e" "item_rows (item_of e) = snd e"
  by (simp_all add: item_of_def item_key_def split_def)

lemma items_total_sorted: "bt_ordered m \<Longrightarrow> items_total k (sorted_items m) = count_at m k"
proof -
  assume m: "bt_ordered m"
  have "items_total k (sorted_items m) = (\<Sum>e \<leftarrow> m. if fst e = k then snd e else 0)"
    unfolding items_total_def sorted_items_def sum_sort_key
    by (simp add: comp_def cong: if_cong)
  also have "\<dots> = count_at m k"
  proof (cases "bt_get m k")
    case None
    then have "\<forall>e \<in> set m. fst e \<noteq> k" by (force simp: bt_get_None)
    then have "(\<Sum>e \<leftarrow> m. if fst e = k then snd e else 0) = 0" by (induction m) auto
    with None show ?thesis by (simp add: count_at_def)
  next
    case (Some c)
    with bt_weight_at [OF m bt_get_in [OF Some], of "\<lambda>c. c"] show ?thesis by (simp add: count_at_def)
  qed
  finally show ?thesis .
qed

lemma sorted_items_positive: "counted m \<Longrightarrow> i \<in> set (sorted_items m) \<Longrightarrow> 0 < item_rows i"
  by (auto simp: counted_def sorted_items_def item_of_def)

lemma items_fold:
  assumes "\<forall>k. count_at m k + items_total k is \<le> max_safe_count" and "\<forall>i \<in> set is. 0 < item_rows i"
    and "counted m"
  shows "\<exists>n. fold_r (\<lambda>i. bump (item_key i) (item_rows i)) is m = Inr n \<and> counted n \<and>
    (\<forall>k. count_at n k = count_at m k + items_total k is)"
  using assms
proof (induction "is" arbitrary: m)
  case (Cons i "is")
  have "count_at m (item_key i) + item_rows i \<le> max_safe_count"
    using Cons.prems(1) [rule_format, of "item_key i"] by simp
  then obtain n where n: "bump (item_key i) (item_rows i) m = Inr n"
    by (simp add: bump_Inr)
  have "count_at n k + items_total k is \<le> max_safe_count" for k
    using Cons.prems(1) [rule_format, of k] bump_count [OF n, of k] by (auto split: if_splits)
  then have "\<exists>l. fold_r (\<lambda>i. bump (item_key i) (item_rows i)) is n = Inr l \<and> counted l \<and>
      (\<forall>k. count_at l k = count_at n k + items_total k is)"
    using Cons.prems bump_counted [OF n] by (intro Cons.IH) auto
  with n bump_count [OF n] show ?case
    by (auto simp: add.assoc)
qed simp

definition many_unpriced :: "prepared_row list \<Rightarrow> bool" where
  "many_unpriced rs \<longleftrightarrow> max_unpriced_items < card {k. 0 < rows_total (row_unpriced k) rs}"

lemma finite_unpriced: "finite {k. 0 < rows_total (row_unpriced k) rs}"
proof (induction rs)
  case (Cons r rs)
  have "{k. 0 < rows_total (row_unpriced k) (r # rs)} \<subseteq>
      {k. 0 < row_unpriced k r} \<union> {k. 0 < rows_total (row_unpriced k) rs}" by auto
  moreover have "finite {k. 0 < row_unpriced k r}"
    by (cases r) (auto split: if_splits)
  ultimately show ?case using Cons by (metis finite_UnI finite_subset)
qed simp

lemma many_unpriced_append: "many_unpriced rs \<or> many_unpriced ss \<Longrightarrow> many_unpriced (rs @ ss)"
  unfolding many_unpriced_def
  by (auto elim!: less_le_trans intro!: card_mono finite_unpriced)

lemma counts_rows_many: "counts_rows m rs \<Longrightarrow> max_unpriced_items < length m \<longleftrightarrow> many_unpriced rs"
  by (simp add: counts_rows_def many_unpriced_def counted_length)

definition covers :: "prepared_costs \<Rightarrow> nat \<Rightarrow> outcome_tally \<Rightarrow> prepared_row list \<Rightarrow> bool" where
  "covers p n t rs \<longleftrightarrow>
     (0 < n \<longrightarrow> ot_mode t = prepared_mode p \<and> ot_revision t = prepared_revision p) \<and>
     ot_amount t = rows_total row_amount rs \<and>
     ot_calculated t = rows_total row_calculated rs \<and> ot_reported t = rows_total row_reported rs \<and>
     ot_calculated t + ot_reported t + ot_unpriced_rows t = length rs \<and>
     ot_priced_any t = (0 < ot_calculated t + ot_reported t) \<and>
     ot_assumptions t = \<Union> (row_assumptions ` set rs) \<and> counted (ot_unpriced t) \<and>
     (\<forall>k. count_at (ot_unpriced t) k \<le> rows_total (row_unpriced k) rs) \<and>
     (\<not> ot_truncated t \<longrightarrow> (\<forall>k. count_at (ot_unpriced t) k = rows_total (row_unpriced k) rs)) \<and>
     (ot_truncated t \<longrightarrow> many_unpriced rs)"

lemma covers_start: "covers p 0 outcome_tally_start []"
  by (simp add: covers_def outcome_tally_start_def)

lemma set_sorted_assumptions: "finite as \<Longrightarrow> set (sorted_assumptions as) = as"
  by (simp add: sorted_assumptions_def)

lemma finite_row_assumptions: "finite (\<Union> (row_assumptions ` set rs))"
proof -
  have "finite (row_assumptions r)" for r by (cases r) auto
  then show ?thesis by auto
qed

lemma cost_add_Inr: "cost_add a b = Inr c \<longleftrightarrow> c = a + b \<and> a + b \<le> max_safe_count"
  by (simp add: cost_add_def safe_add_Inr)

lemma cost_add_fits: "a + b \<le> max_safe_count \<Longrightarrow> cost_add a b = Inr (a + b)"
  by (simp add: cost_add_Inr)

lemma parse_biguint_decimal_string [simp]: "parse_biguint (decimal_string n) = Inr n"
  using decimal_string_digits [of _ n] by (simp add: parse_biguint_def ensure_def list_all_iff)

lemma tally_outcome_covers:
  assumes m: "counts_rows m rs" and basis: "list_all row_basis_ok rs" and t: "covers p n t done"
    and fits: "length done + length rs \<le> max_safe_count"
  shows "\<exists>u. tally_outcome (n, rows_outcome p rs m) t = Inr u \<and> covers p (Suc n) u (done @ rs) \<and>
    ot_truncated u = (ot_truncated t \<or> max_unpriced_items < length m)"
proof -
  let ?is = "take max_unpriced_items (sorted_items m)"
  have le: "items_total k ?is \<le> rows_total (row_unpriced k) rs" for k
    using items_total_take [of k max_unpriced_items "sorted_items m"] m
    by (simp add: counts_rows_def counted_def items_total_sorted)
  have all: "items_total k ?is = rows_total (row_unpriced k) rs" if "\<not> max_unpriced_items < length m" for k
    using that m
    by (simp add: sorted_items_def counts_rows_def counted_def items_total_sorted [unfolded sorted_items_def]
       )
  have under: "count_at (ot_unpriced t) k + items_total k ?is \<le> max_safe_count" for k
  proof -
    have "count_at (ot_unpriced t) k \<le> length done"
      using t rows_total_unpriced_le [of k "done"] by (auto simp: covers_def intro: le_trans)
    moreover have "items_total k ?is \<le> length rs"
      using le [of k] rows_total_unpriced_le [of k rs] by simp
    ultimately show ?thesis using fits by simp
  qed
  have "\<forall>i \<in> set ?is. 0 < item_rows i"
    using m by (auto simp: counts_rows_def dest: in_set_takeD sorted_items_positive)
  then obtain l where l: "fold_r (\<lambda>i. bump (item_key i) (item_rows i)) ?is (ot_unpriced t) = Inr l"
    and counted: "counted l" and counts: "\<forall>k. count_at l k = count_at (ot_unpriced t) k + items_total k ?is"
    using items_fold [of "ot_unpriced t" ?is] under t by (auto simp: covers_def)
  have many: "max_unpriced_items < length m \<longrightarrow> many_unpriced rs"
    using counts_rows_many [OF m] by simp
  let ?out = "rows_outcome p rs m"
  have fields: "calculated_rows ?out = rows_total row_calculated rs"
      "reported_rows ?out = rows_total row_reported rs"
      "unpriced_rows ?out = length rs - (rows_total row_calculated rs + rows_total row_reported rs)"
      "outcome_unpriced ?out = ?is" "unpriced_truncated ?out = (max_unpriced_items < length m)"
      "outcome_mode ?out = prepared_mode p" "outcome_catalog_revision ?out = prepared_revision p"
      "outcome_amount_microusd ?out = (if 0 < rows_total row_calculated rs + rows_total row_reported rs
         then Some (decimal_string (rows_total row_amount rs)) else None)"
      "set (outcome_assumptions ?out) = \<Union> (row_assumptions ` set rs)"
    by (simp_all add: rows_outcome_def Let_def set_sorted_assumptions finite_row_assumptions)
  have priced: "rows_total row_calculated rs + rows_total row_reported rs \<le> length rs"
    by (rule rows_total_priced_le [OF basis])
  have none: "rows_total row_calculated rs + rows_total row_reported rs = 0 \<Longrightarrow> rows_total row_amount rs = 0"
    by (rule row_amount_unpriced [OF basis])
  have adds: "cost_add (ot_calculated t) (calculated_rows ?out) = Inr (ot_calculated t + calculated_rows ?out)"
      "cost_add (ot_reported t) (reported_rows ?out) = Inr (ot_reported t + reported_rows ?out)"
      "cost_add (ot_unpriced_rows t) (unpriced_rows ?out) = Inr (ot_unpriced_rows t + unpriced_rows ?out)"
  proof -
    have "ot_calculated t + ot_reported t + ot_unpriced_rows t = length done"
      using t by (simp add: covers_def)
    then show "cost_add (ot_calculated t) (calculated_rows ?out) = Inr (ot_calculated t + calculated_rows ?out)"
      "cost_add (ot_reported t) (reported_rows ?out) = Inr (ot_reported t + reported_rows ?out)"
      "cost_add (ot_unpriced_rows t) (unpriced_rows ?out) = Inr (ot_unpriced_rows t + unpriced_rows ?out)"
      unfolding fields using fits priced by (intro cost_add_fits; linarith)+
  qed
  let ?u = "t\<lparr>ot_mode := prepared_mode p, ot_revision := prepared_revision p,
      ot_amount := ot_amount t + rows_total row_amount rs,
      ot_priced_any := (ot_priced_any t \<or> 0 < rows_total row_calculated rs + rows_total row_reported rs),
      ot_calculated := ot_calculated t + calculated_rows ?out, ot_reported := ot_reported t + reported_rows ?out,
      ot_unpriced_rows := ot_unpriced_rows t + unpriced_rows ?out,
      ot_assumptions := ot_assumptions t \<union> set (outcome_assumptions ?out),
      ot_truncated := (ot_truncated t \<or> unpriced_truncated ?out), ot_unpriced := l\<rparr>"
  have "tally_outcome (n, ?out) t = Inr ?u"
    using t adds l none
    by (cases "n = 0"; cases "0 < rows_total row_calculated rs + rows_total row_reported rs")
      (simp_all add: tally_outcome_def Let_def fields covers_def)
  moreover have "covers p (Suc n) ?u (done @ rs)"
  proof -
    have "count_at l k \<le> rows_total (row_unpriced k) (done @ rs)" for k
      using counts t le [of k] by (auto simp: covers_def intro: add_mono)
    moreover have "count_at l k = rows_total (row_unpriced k) (done @ rs)"
      if "\<not> ot_truncated t" "\<not> max_unpriced_items < length m" for k
      using counts t all [of k] that by (simp add: covers_def)
    moreover have "many_unpriced (done @ rs)" if "ot_truncated t \<or> max_unpriced_items < length m"
      using that t many by (auto simp: covers_def intro!: many_unpriced_append)
    ultimately show ?thesis
      using t priced counted by (auto simp: covers_def fields)
  qed
  ultimately show ?thesis by (simp add: fields)
qed

lemma outcomes_fold:
  assumes "list_all2 (\<lambda>rs out. list_all row_basis_ok rs \<and>
      (\<exists>m. counts_rows m rs \<and> out = rows_outcome p rs m)) parts outs"
    and "covers p n t done" and "length done + length (concat parts) \<le> max_safe_count"
  shows "\<exists>u. fold_r tally_outcome (enumerate n outs) t = Inr u \<and>
    covers p (n + length outs) u (done @ concat parts) \<and>
    (ot_truncated u \<longleftrightarrow> ot_truncated t \<or> (\<exists>out \<in> set outs. unpriced_truncated out))"
  using assms
proof (induction arbitrary: n t "done" rule: list_all2_induct)
  case (Cons rs parts out outs)
  then obtain m where basis: "list_all row_basis_ok rs" and m: "counts_rows m rs"
    and out: "out = rows_outcome p rs m" by auto
  have trunc: "unpriced_truncated out \<longleftrightarrow> max_unpriced_items < length m"
    by (simp add: out rows_outcome_def Let_def)
  obtain u where u: "tally_outcome (n, out) t = Inr u" and covered: "covers p (Suc n) u (done @ rs)"
    and flag: "ot_truncated u = (ot_truncated t \<or> max_unpriced_items < length m)"
    using tally_outcome_covers [OF m basis Cons.prems(1)] Cons.prems(2) by (auto simp: out)
  from Cons.IH [OF covered] Cons.prems(2) u flag trunc show ?case by auto
qed simp

text \<open>What folding the leaves returns, when they cover the rows.\<close>

lemma covers_outcome:
  assumes run: "fold_r tally_outcome (enumerate 0 outs) outcome_tally_start = Inr u"
    and u: "covers p (Suc n) u rs" and basis: "list_all row_basis_ok rs"
    and amount: "rows_total row_amount rs < 10 ^ 32" and len: "length rs \<le> max_safe_count"
    and m: "counts_rows m rs"
  shows "\<exists>out. fold_usage_cost_outcomes outs = Inr out \<and>
    out\<lparr>outcome_unpriced := []\<rparr> = (rows_outcome p rs m)\<lparr>outcome_unpriced := []\<rparr> \<and>
    (\<not> ot_truncated u \<longrightarrow> out = rows_outcome p rs m)"
proof -
  let ?c = "rows_total row_calculated rs" and ?r = "rows_total row_reported rs"
  let ?amount = "if 0 < ?c + ?r then Some (decimal_string (rows_total row_amount rs)) else None"
  have sums: "ot_calculated u = ?c" "ot_reported u = ?r" "ot_amount u = rows_total row_amount rs"
      "ot_priced_any u = (0 < ?c + ?r)" "ot_unpriced_rows u = length rs - (?c + ?r)"
      "ot_mode u = prepared_mode p" "ot_revision u = prepared_revision p"
      "ot_assumptions u = \<Union> (row_assumptions ` set rs)"
    using u by (auto simp: covers_def)
  have "cost_add ?c ?r = Inr (?c + ?r)"
    using rows_total_priced_le [OF basis] len by (intro cost_add_fits) simp
  moreover have "bounded_amount (0 < ?c + ?r) (rows_total row_amount rs) = Inr ?amount"
    using amount by (simp add: bounded_amount_Inr)
  ultimately have out: "fold_usage_cost_outcomes outs = Inr ((rows_outcome p rs m)\<lparr>
      outcome_unpriced := take max_unpriced_items (sorted_items (ot_unpriced u)),
      unpriced_truncated := (ot_truncated u \<or> max_unpriced_items < length (ot_unpriced u))\<rparr>)"
    using run by (simp add: fold_usage_cost_outcomes_def sums rows_outcome_def Let_def)
  have same: "ot_unpriced u = m" if "\<not> ot_truncated u"
    using u m that by (intro counted_eqI) (simp_all add: covers_def counts_rows_def)
  have "ot_truncated u \<Longrightarrow> max_unpriced_items < length m"
    using u counts_rows_many [OF m] by (simp add: covers_def)
  then have "(ot_truncated u \<or> max_unpriced_items < length (ot_unpriced u)) = (max_unpriced_items < length m)"
    using same by blast
  with out same show ?thesis
    by (auto simp: rows_outcome_def Let_def)
qed

lemma selected_rows_concat: "selected_rows p (concat parts) = concat (map (selected_rows p) parts)"
  by (induction parts) (simp_all add: selected_rows_def)

lemma leaves_return:
  assumes "\<forall>is \<in> set parts. \<forall>i \<in> set is. i < length (prepared_rows p)"
    and "length (concat parts) \<le> max_safe_count"
    and "list_all row_basis_ok (selected_rows p (concat parts))"
    and "rows_total row_amount (selected_rows p (concat parts)) < 10 ^ 32"
  shows "\<exists>leaves. map_r (\<lambda>is. fold_prepared_usage_costs p (Some is)) parts = Inr leaves \<and>
    list_all2 (\<lambda>rs out. list_all row_basis_ok rs \<and> (\<exists>m. counts_rows m rs \<and> out = rows_outcome p rs m))
      (map (selected_rows p) parts) leaves"
  using assms
proof (induction parts)
  case (Cons part parts)
  let ?rs = "selected_rows p part"
  have rows: "selected_rows p (concat (part # parts)) = ?rs @ selected_rows p (concat parts)"
    by (simp add: selected_rows_def)
  have "\<exists>out. fold_prepared_usage_costs p (Some part) = Inr out"
    using Cons.prems unfolding rows by (intro fold_prepared_returns) simp_all
  then obtain out where out: "fold_prepared_usage_costs p (Some part) = Inr out" ..
  have "\<exists>leaves. map_r (\<lambda>is. fold_prepared_usage_costs p (Some is)) parts = Inr leaves \<and>
    list_all2 (\<lambda>rs out. list_all row_basis_ok rs \<and> (\<exists>m. counts_rows m rs \<and> out = rows_outcome p rs m))
      (map (selected_rows p) parts) leaves"
    using Cons.prems unfolding rows by (intro Cons.IH) simp_all
  with out fold_prepared_sound [OF out] Cons.prems(1) show ?case by auto
qed simp

subsection \<open>Properties\<close>

text \<open>C7: Folding a tree's leaves is pricing all their rows at once. However the rows of a
  preparation are split into leaves, if the rows together have an outcome then every leaf has
  one, folding the leaves' outcomes returns, and the result is the whole's outcome: amount, basis,
  status, row counts, assumptions and truncation mark always, and the list of unpriced items as
  well unless some leaf had to truncate its own.\<close>

theorem fold_outcomes_is_fold_rows:
  assumes "parts \<noteq> []" and inside: "\<forall>is \<in> set parts. \<forall>i \<in> set is. i < length (prepared_rows p)"
    and len: "length (concat parts) \<le> max_safe_count"
    and whole: "fold_prepared_usage_costs p (Some (concat parts)) = Inr whole"
  shows "\<exists>leaves out. map_r (\<lambda>is. fold_prepared_usage_costs p (Some is)) parts = Inr leaves \<and>
    fold_usage_cost_outcomes leaves = Inr out \<and>
    out\<lparr>outcome_unpriced := []\<rparr> = whole\<lparr>outcome_unpriced := []\<rparr> \<and>
    ((\<forall>leaf \<in> set leaves. \<not> unpriced_truncated leaf) \<longrightarrow> out = whole)"
proof -
  let ?rs = "selected_rows p (concat parts)"
  obtain m where basis: "list_all row_basis_ok ?rs" and amount: "rows_total row_amount ?rs < 10 ^ 32"
    and m: "counts_rows m ?rs" and w: "whole = rows_outcome p ?rs m"
    using fold_prepared_sound [OF whole] inside by auto
  obtain leaves where leaves: "map_r (\<lambda>is. fold_prepared_usage_costs p (Some is)) parts = Inr leaves"
    and each: "list_all2 (\<lambda>rs out. list_all row_basis_ok rs \<and> (\<exists>m. counts_rows m rs \<and> out = rows_outcome p rs m))
      (map (selected_rows p) parts) leaves"
    using leaves_return [OF inside len basis amount] by blast
  have size: "length ?rs = length (concat parts)" by (simp add: selected_rows_def)
  obtain u where u: "fold_r tally_outcome (enumerate 0 leaves) outcome_tally_start = Inr u"
    and covered: "covers p (length leaves) u ?rs"
    and flag: "ot_truncated u \<longleftrightarrow> (\<exists>leaf \<in> set leaves. unpriced_truncated leaf)"
    using outcomes_fold [OF each covers_start] len
    by (auto simp: selected_rows_concat [symmetric] size outcome_tally_start_def)
  have "length leaves = length parts" using list_all2_lengthD [OF each] by simp
  then obtain n where "length leaves = Suc n" using assms(1) by (cases parts) auto
  with covers_outcome [OF u _ basis amount _ m] covered len size
  show ?thesis using leaves flag w by (metis (no_types, lifting))
qed

definition sample_prepared :: prepared_costs where
  "sample_prepared = \<lparr>prepared_mode = Auto, prepared_revision = Some ''r1'', prepared_rows =
     [PreparedPriced OpenaiDirect ''gpt-5'' 188 Calculated [WildcardSpeed],
      PreparedUnpriced XaiDirect ''grok-4'' UnknownModel,
      PreparedPriced XaiDirect ''grok-3'' 70 cost_basis.Reported [SourceReported]]\<rparr>"

theorem fold_outcomes_is_fold_rows_witness:
  "\<exists>leaves out. map_r (\<lambda>is. fold_prepared_usage_costs sample_prepared (Some is)) [[0, 1], [2]] = Inr leaves \<and>
    fold_usage_cost_outcomes leaves = Inr out \<and> outcome_basis out = Mixed \<and>
    outcome_amount_microusd out = Some ''258''"
proof -
  obtain whole where "fold_prepared_usage_costs sample_prepared (Some (concat [[0, 1], [2]])) = Inr whole"
    and basis: "outcome_basis whole = Mixed" and amount: "outcome_amount_microusd whole = Some ''258''"
    by (rule that) code_simp+
  from fold_outcomes_is_fold_rows [OF _ _ _ this(1)]
  have "\<exists>leaves out. map_r (\<lambda>is. fold_prepared_usage_costs sample_prepared (Some is)) [[0, 1], [2]] = Inr leaves \<and>
    fold_usage_cost_outcomes leaves = Inr out \<and>
    out\<lparr>outcome_unpriced := []\<rparr> = whole\<lparr>outcome_unpriced := []\<rparr>"
    by (auto simp: sample_prepared_def max_safe_count_def)
  then obtain leaves out where "map_r (\<lambda>is. fold_prepared_usage_costs sample_prepared (Some is)) [[0, 1], [2]] = Inr leaves"
    and "fold_usage_cost_outcomes leaves = Inr out"
    and same: "out\<lparr>outcome_unpriced := []\<rparr> = whole\<lparr>outcome_unpriced := []\<rparr>" by blast
  moreover have "outcome_basis out = outcome_basis whole"
      "outcome_amount_microusd out = outcome_amount_microusd whole"
    using arg_cong [OF same, of outcome_basis] arg_cong [OF same, of outcome_amount_microusd] by simp_all
  ultimately show ?thesis using basis amount by auto
qed

end
