(* ===== verification/Doubles.thy ===== *)
theory Doubles
  imports Complex_Main "HOL-Library.Log_Nat"
begin

text \<open>
  \<open>f64\<close>. A finite double is the rational it stands for; \<open>round_f64\<close> is IEEE 754 rounding to
  nearest, ties to even, on the range where the result does not overflow. What the lemmas show: a
  rounding is off by at most one part in \<open>2 ^ 53\<close>.
\<close>

text \<open>The exponent of the leading bit of a positive rational.\<close>

definition leading_exponent :: "rat \<Rightarrow> int" where
  "leading_exponent q =
     (case quotient_of q of (n, d) \<Rightarrow>
        let e = int (floorlog 2 (nat n)) - int (floorlog 2 (nat d)) in
        if (if 0 \<le> e then (2 :: rat) ^ nat e else 1 / 2 ^ nat (- e)) \<le> q then e else e - 1)"

definition round_even :: "rat \<Rightarrow> int" where
  "round_even q =
     (let f = \<lfloor>q\<rfloor>; r = q - of_int f in
      if r < 1 / 2 then f else if 1 / 2 < r then f + 1 else if even f then f else f + 1)"

text \<open>\<open>f64::round\<close>: halves away from zero.\<close>

definition round_half_away :: "rat \<Rightarrow> int" where
  "round_half_away q = (if q < 0 then - \<lfloor>1 / 2 - q\<rfloor> else \<lfloor>q + 1 / 2\<rfloor>)"

definition clamp :: "rat \<Rightarrow> rat \<Rightarrow> rat \<Rightarrow> rat" where
  "clamp low high q = (if q < low then low else if high < q then high else q)"

definition power_of_two :: "int \<Rightarrow> rat" where
  "power_of_two e = (if 0 \<le> e then 2 ^ nat e else 1 / 2 ^ nat (- e))"

definition round_f64 :: "rat \<Rightarrow> rat" where
  "round_f64 q =
     (if q = 0 then 0
      else let ulp = power_of_two (max (leading_exponent \<bar>q\<bar> - 52) (- 1074)) in
        of_int (round_even (q / ulp)) * ulp)"

lemma power_of_two_powi: "power_of_two e = 2 powi e"
  by (simp add: power_of_two_def power_int_def power_one_over)

lemma power_of_two_pos [simp]: "0 < power_of_two e"
  by (simp add: power_of_two_powi)

lemma power_of_two_nonneg [simp]: "0 \<le> power_of_two e"
  by (simp add: less_imp_le)

lemma power_of_two_add: "power_of_two (a + b) = power_of_two a * power_of_two b"
  by (simp add: power_of_two_powi power_int_add)

lemma power_of_two_mono: "a \<le> b \<Longrightarrow> power_of_two a \<le> power_of_two b"
  by (simp add: power_of_two_powi power_int_increasing)

lemma floorlog_powi:
  assumes "0 < n"
  shows "power_of_two (int (floorlog 2 n) - 1) \<le> of_nat n" "of_nat n < power_of_two (int (floorlog 2 n))"
proof -
  have "floorlog 2 n \<noteq> 0" using assms by (simp add: floorlog_eq_zero_iff)
  then have "power_of_two (int (floorlog 2 n) - 1) = 2 ^ (floorlog 2 n - 1)"
    by (simp add: power_of_two_def nat_diff_distrib)
  also have "\<dots> \<le> of_nat n"
    using floorlog_bounds [OF assms, of 2] by (metis of_nat_le_iff of_nat_numeral of_nat_power one_less_numeral_iff semiring_norm(76))
  finally show "power_of_two (int (floorlog 2 n) - 1) \<le> of_nat n" .
  have "n < 2 ^ floorlog 2 n" using floorlog_bounds [OF assms, of 2] by simp
  then have "(of_nat n :: rat) < of_nat (2 ^ floorlog 2 n)" by (rule of_nat_less_iff [THEN iffD2])
  then show "of_nat n < power_of_two (int (floorlog 2 n))"
    by (simp add: power_of_two_def)
qed

lemma leading_exponent_bounds:
  assumes "0 < q"
  shows "power_of_two (leading_exponent q) \<le> q" "q < power_of_two (leading_exponent q + 1)"
proof -
  obtain n d where nd: "quotient_of q = (n, d)" by fastforce
  have d: "0 < d" by (rule quotient_of_denom_pos [OF nd])
  have q: "q = of_int n / of_int d" by (rule quotient_of_div [OF nd])
  with assms d have n: "0 < n" by (simp add: zero_less_divide_iff)
  define a b where "a = int (floorlog 2 (nat n))" and "b = int (floorlog 2 (nat d))"
  have na: "power_of_two (a - 1) \<le> of_int n" "of_int n < power_of_two a"
    using floorlog_powi [of "nat n"] n by (simp_all add: a_def of_nat_nat)
  have db: "power_of_two (b - 1) \<le> of_int d" "of_int d < power_of_two b"
    using floorlog_powi [of "nat d"] d by (simp_all add: b_def of_nat_nat)
  have "power_of_two (a - 1 - b) * of_int d \<le> power_of_two (a - 1 - b) * power_of_two b"
    using db(2) by (intro mult_left_mono) simp_all
  also have "\<dots> = power_of_two (a - 1)" by (simp flip: power_of_two_add)
  finally have lower: "power_of_two (a - b - 1) \<le> q"
    using na(1) d by (simp add: q pos_le_divide_eq algebra_simps)
  have "power_of_two a = power_of_two (a - b + 1) * power_of_two (b - 1)"
    by (simp flip: power_of_two_add)
  also have "\<dots> \<le> power_of_two (a - b + 1) * of_int d"
    using db(1) by (intro mult_left_mono) simp_all
  finally have upper: "q < power_of_two (a - b + 1)"
    using na(2) d by (simp add: q pos_divide_less_eq)
  have e: "leading_exponent q = (if power_of_two (a - b) \<le> q then a - b else a - b - 1)"
    by (simp add: leading_exponent_def nd a_def b_def power_of_two_def Let_def)
  show "power_of_two (leading_exponent q) \<le> q" "q < power_of_two (leading_exponent q + 1)"
    using lower upper by (auto simp: e)
qed

lemma round_even_near: "\<bar>of_int (round_even q) - q\<bar> \<le> 1 / 2"
proof -
  have "of_int \<lfloor>q\<rfloor> \<le> q" "q < of_int \<lfloor>q\<rfloor> + 1" by linarith+
  then show ?thesis by (auto simp: round_even_def Let_def abs_le_iff)
qed

lemma round_even_int [simp]: "round_even (of_int i) = i"
  by (simp add: round_even_def)

text \<open>The rounding error, relative where the value is a normal double.\<close>

lemma round_f64_near:
  "\<bar>round_f64 q - q\<bar> \<le> max (\<bar>q\<bar> * power_of_two (- 53)) (power_of_two (- 1075))"
proof (cases "q = 0")
  case False
  define ulp where "ulp = power_of_two (max (leading_exponent \<bar>q\<bar> - 52) (- 1074))"
  have pos: "0 < ulp" by (simp add: ulp_def)
  have "round_f64 q - q = (of_int (round_even (q / ulp)) - q / ulp) * ulp"
    using False pos by (simp add: round_f64_def ulp_def [symmetric] Let_def left_diff_distrib)
  then have "\<bar>round_f64 q - q\<bar> = \<bar>of_int (round_even (q / ulp)) - q / ulp\<bar> * ulp"
    using pos by (simp add: abs_mult)
  also have "\<dots> \<le> 1 / 2 * ulp"
    by (rule mult_right_mono [OF round_even_near]) (use pos in simp)
  also have "\<dots> = power_of_two (max (leading_exponent \<bar>q\<bar> - 53) (- 1075))"
  proof -
    have "power_of_two (e - 1) = 1 / 2 * power_of_two e" for e
      by (simp add: power_of_two_powi power_int_diff)
    from this [of "max (leading_exponent \<bar>q\<bar> - 52) (- 1074)"] show ?thesis
      by (simp add: ulp_def max_def split: if_splits)
  qed
  also have "\<dots> \<le> max (\<bar>q\<bar> * power_of_two (- 53)) (power_of_two (- 1075))"
  proof -
    have "power_of_two (leading_exponent \<bar>q\<bar> - 53) = power_of_two (leading_exponent \<bar>q\<bar>) * power_of_two (- 53)"
      by (simp flip: power_of_two_add)
    also have "\<dots> \<le> \<bar>q\<bar> * power_of_two (- 53)"
      using leading_exponent_bounds(1) [of "\<bar>q\<bar>"] False by (intro mult_right_mono) (simp_all add: less_imp_le)
    finally show ?thesis by (auto simp: max_def)
  qed
  finally show ?thesis .
qed (simp add: round_f64_def max_def less_imp_le)

lemma round_f64_within:
  assumes "\<bar>q\<bar> \<le> b" "1 \<le> b"
  shows "\<bar>round_f64 q - q\<bar> \<le> b * power_of_two (- 53)"
proof -
  have "power_of_two (- 1075) \<le> 1 * power_of_two (- 53)" by (simp add: power_of_two_mono)
  also have "\<dots> \<le> b * power_of_two (- 53)" using assms(2) by (intro mult_right_mono) simp_all
  finally have "power_of_two (- 1075) \<le> b * power_of_two (- 53)" .
  moreover have "\<bar>q\<bar> * power_of_two (- 53) \<le> b * power_of_two (- 53)"
    using assms(1) by (intro mult_right_mono) simp_all
  ultimately have "max (\<bar>q\<bar> * power_of_two (- 53)) (power_of_two (- 1075)) \<le> b * power_of_two (- 53)"
    by (rule max.boundedI [rotated])
  with round_f64_near show ?thesis by (rule order_trans)
qed

lemma round_f64_nonneg:
  assumes "0 \<le> q"
  shows "0 \<le> round_f64 q"
proof -
  have "0 \<le> round_even r" if "0 \<le> r" for r
    using that by (simp add: round_even_def Let_def)
  then show ?thesis using assms by (simp add: round_f64_def Let_def)
qed

lemma round_f64_upper:
  assumes "0 \<le> q"
  shows "round_f64 q \<le> q * (1 + power_of_two (- 53)) + power_of_two (- 1075)"
proof -
  have "max (q * power_of_two (- 53)) (power_of_two (- 1075)) \<le> q * power_of_two (- 53) + power_of_two (- 1075)"
    using assms by (simp add: max_def)
  moreover have "\<bar>round_f64 q - q\<bar> \<le> max (q * power_of_two (- 53)) (power_of_two (- 1075))"
    using round_f64_near [of q] assms by simp
  moreover have "q * (1 + power_of_two (- 53)) = q + q * power_of_two (- 53)" by (simp add: distrib_left)
  ultimately show ?thesis by linarith
qed

lemma round_f64_0 [simp]: "round_f64 0 = 0"
  by (simp add: round_f64_def)

subsection \<open>Durations\<close>

text \<open>\<open>Duration::as_secs_f64\<close>, \<open>from_secs_f64\<close> (of a value that is not negative and not too large, where
  it rounds to the nearest nanosecond) and \<open>mul_f64\<close>; a duration is its nanoseconds.\<close>

definition as_secs_f64 :: "int \<Rightarrow> rat" where
  "as_secs_f64 d = round_f64 (round_f64 (of_int (d div 10 ^ 9)) + round_f64 (round_f64 (of_int (d mod 10 ^ 9)) / 10 ^ 9))"

definition mul_f64 :: "int \<Rightarrow> rat \<Rightarrow> int" where
  "mul_f64 d r = round_even (round_f64 (r * as_secs_f64 d) * 10 ^ 9)"

lemma abs_triangle: "\<bar>a - b\<bar> \<le> x \<Longrightarrow> \<bar>b - c\<bar> \<le> y \<Longrightarrow> \<bar>a - (c :: rat)\<bar> \<le> x + y"
  by linarith

lemma mul_f64_near:
  assumes k: "1 \<le> k" and r: "\<bar>r - 1\<bar> \<le> e" "e \<le> 1"
  shows "\<bar>of_int (mul_f64 (int k * 10 ^ 9) r) - of_nat k * 10 ^ 9\<bar>
    \<le> of_nat k * 10 ^ 9 * (e + 10 * power_of_two (- 53)) + (1 / 2 :: rat)"
proof -
  let ?k = "of_nat k :: rat" and ?d = "power_of_two (- 53)"
  define s where "s = as_secs_f64 (int k * 10 ^ 9)"
  have d: "0 < ?d" "3 * ?d \<le> 1" by (simp_all add: power_of_two_def)
  have k1: "1 \<le> ?k" using k by simp
  have kd: "0 \<le> ?k * ?d" "3 * (?k * ?d) \<le> ?k" using d k1 mult_left_mono [OF d(2), of ?k] by (simp_all add: mult.left_commute)
  have s1: "\<bar>round_f64 ?k - ?k\<bar> \<le> ?k * ?d" by (rule round_f64_within) (use k1 in simp_all)
  then have "\<bar>round_f64 ?k\<bar> \<le> 2 * ?k" using kd k1 by linarith
  then have s2: "\<bar>s - round_f64 ?k\<bar> \<le> 2 * ?k * ?d"
    unfolding s_def as_secs_f64_def using k1 by (simp add: round_f64_within)
  from abs_triangle [OF s2 s1] have s: "\<bar>s - ?k\<bar> \<le> 3 * (?k * ?d)" by simp
  then have s_le: "\<bar>s\<bar> \<le> 2 * ?k" using kd by linarith
  have r2: "\<bar>r\<bar> \<le> 2" using r by linarith
  have rs: "\<bar>r * s\<bar> \<le> 2 * (2 * ?k)" unfolding abs_mult by (rule mult_mono [OF r2 s_le]) simp_all
  define p where "p = round_f64 (r * s)"
  have p: "\<bar>p - r * s\<bar> \<le> 4 * (?k * ?d)"
    using round_f64_within [OF rs] k1 by (simp add: p_def)
  have "\<bar>r * s - s\<bar> = \<bar>r - 1\<bar> * \<bar>s\<bar>" by (simp add: abs_mult [symmetric] left_diff_distrib)
  also have "\<dots> \<le> e * (?k + 3 * (?k * ?d))"
    by (rule mult_mono) (use r s k1 kd in linarith)+
  also have "\<dots> \<le> e * ?k + 3 * (?k * ?d)"
    using mult_right_mono [OF r(2), of "3 * (?k * ?d)"] kd by (simp add: distrib_left)
  finally have "\<bar>p - ?k\<bar> \<le> ?k * (e + 10 * ?d)"
    using p s by (simp add: algebra_simps)
  then have "\<bar>p * 10 ^ 9 - ?k * 10 ^ 9\<bar> \<le> ?k * (e + 10 * ?d) * 10 ^ 9"
    unfolding left_diff_distrib [symmetric] abs_mult by (intro mult_mono) simp_all
  from abs_triangle [OF round_even_near [of "p * 10 ^ 9"] this] show ?thesis
    unfolding mul_f64_def s_def [symmetric] p_def [symmetric] by (simp add: algebra_simps)
qed

end
