(* ===== verification/Json.thy ===== *)
theory Json
  imports Usage_Rows Doubles "HOL-Library.AList"
begin

text \<open>
  What the code reads out of JSON (\<open>serde_json::Value\<close>). A JSON number is an integer or a finite
  double; an object is its members; \<open>json_get\<close> and the \<open>as_\<close> functions are \<open>Value::get\<close> and
  \<open>Value::as_str\<close> and its siblings.
\<close>

subsection \<open>Values\<close>

datatype json =
  JNull | JBool bool | JInt int | JFloat rat | JStr string | JArr "json list"
| JObj "(string \<times> json) list"

fun json_get :: "string \<Rightarrow> json \<Rightarrow> json option" where
  "json_get key (JObj members) = map_of members key"
| "json_get key _ = None"

fun as_array :: "json \<Rightarrow> json list option" where
  "as_array (JArr vs) = Some vs"
| "as_array _ = None"

fun as_str :: "json \<Rightarrow> string option" where
  "as_str (JStr s) = Some s"
| "as_str _ = None"

fun as_f64 :: "json \<Rightarrow> rat option" where
  "as_f64 (JInt i) = Some (round_f64 (of_int i))"
| "as_f64 (JFloat q) = Some q"
| "as_f64 _ = None"

fun as_i64 :: "json \<Rightarrow> int option" where
  "as_i64 (JInt i) = (if - (2 ^ 63) \<le> i \<and> i < 2 ^ 63 then Some i else None)"
| "as_i64 _ = None"

fun as_u64 :: "json \<Rightarrow> nat option" where
  "as_u64 (JInt i) = (if 0 \<le> i \<and> i < 2 ^ 64 then Some (nat i) else None)"
| "as_u64 _ = None"

text \<open>\<open>value.get(key).and_then(Value::as_array).into_iter().flatten()\<close>, and the same for a text.\<close>

definition members_of :: "string \<Rightarrow> json \<Rightarrow> json list" where
  "members_of key v = (case Option.bind (json_get key v) as_array of Some vs \<Rightarrow> vs | None \<Rightarrow> [])"

definition str_member :: "string \<Rightarrow> json \<Rightarrow> string option" where
  "str_member key v = Option.bind (json_get key v) as_str"

definition is_object :: "json \<Rightarrow> bool" where
  "is_object v \<longleftrightarrow> (case v of JObj _ \<Rightarrow> True | _ \<Rightarrow> False)"

definition object_member :: "string \<Rightarrow> json \<Rightarrow> json option" where
  "object_member key v = Option.bind (json_get key v) (\<lambda>w. if is_object w then Some w else None)"

text \<open>\<open>instant\<close> of \<open>observation.rs\<close>: a text member that is an RFC 3339 instant.\<close>

definition instant :: "externs \<Rightarrow> json option \<Rightarrow> int option" where
  "instant x v = Option.bind (Option.bind v as_str) (instant_of x)"

text \<open>\<open>TimeDelta::num_milliseconds\<close> of nanoseconds, and \<open>checked_add_signed\<close>.\<close>

definition milliseconds_toward_zero :: "int \<Rightarrow> int" where
  "milliseconds_toward_zero d = (if 0 \<le> d then d div 1000000 else - (- d div 1000000))"

definition checked_add_instant :: "externs \<Rightarrow> int \<Rightarrow> int \<Rightarrow> int option" where
  "checked_add_instant x t d = (if instant_ok x (t + d) then Some (t + d) else None)"

text \<open>\<open>Value::is_number\<close>, and \<open>Map::insert\<close>: the member is replaced or added. The order of the
  members is not modelled.\<close>

definition is_number :: "json \<Rightarrow> bool" where
  "is_number v \<longleftrightarrow> (case v of JInt _ \<Rightarrow> True | JFloat _ \<Rightarrow> True | _ \<Rightarrow> False)"

fun json_insert :: "string \<Rightarrow> json \<Rightarrow> json \<Rightarrow> json" where
  "json_insert key v (JObj members) = JObj (AList.update key v members)"
| "json_insert key v w = w"

lemma json_get_insert [simp]:
  "json_get k (json_insert key v w) = (if k = key \<and> is_object w then Some v else json_get k w)"
  by (cases w) (auto simp: is_object_def update_conv)

text \<open>\<open>Iterator::min\<close> and \<open>Iterator::max\<close> of a list.\<close>

definition list_min :: "'a::linorder list \<Rightarrow> 'a option" where
  "list_min xs = (case xs of [] \<Rightarrow> None | y # ys \<Rightarrow> Some (fold min ys y))"

definition list_max :: "'a::linorder list \<Rightarrow> 'a option" where
  "list_max xs = (case xs of [] \<Rightarrow> None | y # ys \<Rightarrow> Some (fold max ys y))"

lemma list_min_Nil [simp]: "list_min [] = None"
  by (simp add: list_min_def)

lemma list_max_Nil [simp]: "list_max [] = None"
  by (simp add: list_max_def)

lemma list_min_None [simp]: "list_min xs = None \<longleftrightarrow> xs = []"
  by (simp add: list_min_def split: list.splits)

lemma list_max_None [simp]: "list_max xs = None \<longleftrightarrow> xs = []"
  by (simp add: list_max_def split: list.splits)

lemma list_min_Some: "list_min xs = Some m \<Longrightarrow> m \<in> set xs \<and> (\<forall>a \<in> set xs. m \<le> a)"
proof -
  have "fold min ys y \<in> set (y # ys) \<and> (\<forall>a \<in> set (y # ys). fold min ys y \<le> a)" for y :: 'a and ys
    unfolding Min.set_eq_fold [symmetric] by (simp add: Min_in del: Min_insert list.set)
  then show "list_min xs = Some m \<Longrightarrow> m \<in> set xs \<and> (\<forall>a \<in> set xs. m \<le> a)"
    by (cases xs) (auto simp: list_min_def)
qed

lemma list_max_Some: "list_max xs = Some m \<Longrightarrow> m \<in> set xs \<and> (\<forall>a \<in> set xs. a \<le> m)"
proof -
  have "fold max ys y \<in> set (y # ys) \<and> (\<forall>a \<in> set (y # ys). a \<le> fold max ys y)" for y :: 'a and ys
    unfolding Max.set_eq_fold [symmetric] by (simp add: Max_in del: Max_insert list.set)
  then show "list_max xs = Some m \<Longrightarrow> m \<in> set xs \<and> (\<forall>a \<in> set xs. a \<le> m)"
    by (cases xs) (auto simp: list_max_def)
qed

end
