(* ===== verification/Providers.thy ===== *)
theory Providers
  imports Json
begin

text \<open>
  The provider catalog (\<open>packages/service/src/catalog.rs\<close>): the provider ids, their wire names
  and order, and the floor between two asks of each.
\<close>

datatype provider_id =
  Codex | Claude | Grok | OpenRouter | DeepSeek | Kimi | LiteLlm | Cursor | Gemini | Copilot
| Antigravity | OpencodeGo

definition all_providers :: "provider_id list" where
  "all_providers = [Codex, Claude, Grok, OpenRouter, DeepSeek, Kimi, LiteLlm, Cursor, Gemini,
     Copilot, Antigravity, OpencodeGo]"

fun provider_str :: "provider_id \<Rightarrow> string" where
  "provider_str Codex = ''codex''"
| "provider_str Claude = ''claude''"
| "provider_str Grok = ''grok''"
| "provider_str OpenRouter = ''openrouter''"
| "provider_str DeepSeek = ''deepseek''"
| "provider_str Kimi = ''kimi''"
| "provider_str LiteLlm = ''litellm''"
| "provider_str Cursor = ''cursor''"
| "provider_str Gemini = ''gemini''"
| "provider_str Copilot = ''copilot''"
| "provider_str Antigravity = ''antigravity''"
| "provider_str OpencodeGo = ''opencode_go''"

definition provider_parse :: "string \<Rightarrow> provider_id option" where
  "provider_parse s = map_of
     [(''codex'', Codex), (''claude'', Claude), (''grok'', Grok), (''openrouter'', OpenRouter),
      (''deepseek'', DeepSeek), (''kimi'', Kimi), (''litellm'', LiteLlm), (''cursor'', Cursor),
      (''gemini'', Gemini), (''copilot'', Copilot), (''antigravity'', Antigravity),
      (''opencode_go'', OpencodeGo)] s"

fun provider_index :: "provider_id \<Rightarrow> nat" where
  "provider_index Codex = 0" | "provider_index Claude = 1" | "provider_index Grok = 2"
| "provider_index OpenRouter = 3" | "provider_index DeepSeek = 4" | "provider_index Kimi = 5"
| "provider_index LiteLlm = 6" | "provider_index Cursor = 7" | "provider_index Gemini = 8"
| "provider_index Copilot = 9" | "provider_index Antigravity = 10" | "provider_index OpencodeGo = 11"

text \<open>\<open>min_interval_seconds\<close> of each catalog entry.\<close>

fun min_interval_seconds :: "provider_id \<Rightarrow> nat" where
  "min_interval_seconds Codex = 60"
| "min_interval_seconds Claude = 180"
| "min_interval_seconds OpenRouter = 60"
| "min_interval_seconds DeepSeek = 60"
| "min_interval_seconds _ = 120"

lemma provider_index_inject: "provider_index p = provider_index q \<longleftrightarrow> p = q"
  by (cases p; cases q; simp)

instantiation provider_id :: linorder
begin
definition less_eq_provider_id_def: "a \<le> b \<longleftrightarrow> provider_index a \<le> provider_index b"
definition less_provider_id_def: "a < b \<longleftrightarrow> provider_index a < provider_index b"
instance by standard (auto simp: less_eq_provider_id_def less_provider_id_def provider_index_inject)
end

text \<open>Every provider of the catalog is one an Account holds.\<close>

definition syncs_to_account :: "provider_id \<Rightarrow> bool" where
  "syncs_to_account p = True"

lemma provider_parse_str [simp]: "provider_parse (provider_str p) = Some p"
  by (cases p) (simp_all add: provider_parse_def)

lemma provider_parse_Some: "provider_parse s = Some p \<longleftrightarrow> s = provider_str p"
proof
  assume parsed: "provider_parse s = Some p"
  from map_of_SomeD [OF parsed [unfolded provider_parse_def]] show "s = provider_str p" by auto
qed simp

lemma all_providers_complete: "p \<in> set all_providers"
  by (cases p) (simp_all add: all_providers_def)

lemma finite_providers [simp]: "finite (ps :: provider_id set)"
  by (rule finite_subset [of _ "set all_providers"]) (auto simp: all_providers_complete)

end
