(* ===== verification/Cadence.thy ===== *)
theory Cadence
  imports Providers
begin

text \<open>
  How often each provider may be asked (\<open>packages/service/src/service/cadence.rs\<close>), and how a
  collection pass keeps its records (\<open>collect_quota_pass\<close> in \<open>service/backend.rs\<close>). An instant is
  its nanoseconds since 1970 and a duration its nanoseconds; the range limits of \<open>chrono\<close> are not
  modelled. What the lemmas show: the gate and \<open>not_before\<close> agree on when a provider may be asked,
  a 429 keeps a provider quiet for its whole wait, and a collection request is answered once.
\<close>

subsection \<open>Durations\<close>

definition seconds :: "nat \<Rightarrow> int" where
  "seconds n = int n * 1000000000"

definition manual_floor :: int where "manual_floor = seconds 60"
definition active_interval :: int where "active_interval = seconds 60"
definition normal_interval :: int where "normal_interval = seconds 300"
definition idle_interval :: int where "idle_interval = seconds 600"
definition active_window :: int where "active_window = seconds (5 * 60)"
definition idle_after :: int where "idle_after = seconds (60 * 60)"
definition demand_lifetime :: int where "demand_lifetime = seconds (10 * 60)"
definition backoff_start :: int where "backoff_start = seconds (5 * 60)"
definition backoff_cap :: int where "backoff_cap = seconds (30 * 60)"
definition retry_after_cap :: int where "retry_after_cap = seconds (60 * 60)"
definition rate_limited_floor :: int where "rate_limited_floor = seconds (5 * 60)"
definition rate_limited_floor_span :: int where "rate_limited_floor_span = seconds (24 * 60 * 60)"

definition low_remaining_percent :: rat where "low_remaining_percent = 20"

definition min_interval :: "provider_id \<Rightarrow> int" where
  "min_interval p = seconds (min_interval_seconds p)"

text \<open>\<open>now.signed_duration_since(at).to_std()\<close>: the age of an instant, an error when it is ahead.\<close>

definition age_of :: "int \<Rightarrow> int \<Rightarrow> int option" where
  "age_of now t = (if now - t < 0 then None else Some (now - t))"

subsection \<open>What is kept per provider\<close>

record raised_floor =
  rf_account :: string
  rf_until :: int

record backoff =
  bo_account :: string
  bo_until :: int
  bo_strikes :: nat

record cadence_record =
  last_attempt_at :: "int option"
  record_backoff :: "backoff option"
  record_raised_floor :: "raised_floor option"

definition cadence_record_default :: cadence_record where
  "cadence_record_default = \<lparr>last_attempt_at = None, record_backoff = None, record_raised_floor = None\<rparr>"

definition floor_for :: "provider_id \<Rightarrow> cadence_record option \<Rightarrow> string \<Rightarrow> int \<Rightarrow> int" where
  "floor_for p r account now =
     (case Option.bind r record_raised_floor of
        Some raised \<Rightarrow>
          if rf_account raised = account \<and> now < rf_until raised
          then max (min_interval p) rate_limited_floor else min_interval p
      | None \<Rightarrow> min_interval p)"

definition not_before :: "provider_id \<Rightarrow> cadence_record option \<Rightarrow> string \<Rightarrow> int \<Rightarrow> int option" where
  "not_before p r account now =
     Option.bind r (\<lambda>record.
       let floor_ends = map_option (\<lambda>last. last + floor_for p (Some record) account now) (last_attempt_at record);
           backoff_ends = (case record_backoff record of
             Some b \<Rightarrow> if bo_account b = account then Some (bo_until b) else None
           | None \<Rightarrow> None)
       in max floor_ends backoff_ends)"

subsection \<open>Tiers\<close>

datatype refresh_mode = Automatic | Fixed

datatype refresh_tier = Active | Normal | Idle

datatype tier_reason = AgentActive | LowRemaining

record activity =
  last_write :: "int option"
  has_low_remaining :: bool
  activity_last_demand :: "int option"

fun activity_agent :: "provider_id \<Rightarrow> usage_agent option" where
  "activity_agent Claude = Some ClaudeCode"
| "activity_agent provider_id.Codex = Some usage_agent.Codex"
| "activity_agent provider_id.Gemini = Some usage_agent.Gemini"
| "activity_agent provider_id.Cursor = Some usage_agent.Cursor"
| "activity_agent provider_id.Grok = Some usage_agent.Grok"
| "activity_agent provider_id.Copilot = Some usage_agent.Copilot"
| "activity_agent provider_id.Antigravity = Some usage_agent.Antigravity"
| "activity_agent _ = None"

definition within_span :: "int \<Rightarrow> int option \<Rightarrow> int \<Rightarrow> bool" where
  "within_span now at_opt window =
     (case at_opt of None \<Rightarrow> False
      | Some t \<Rightarrow> (case age_of now t of None \<Rightarrow> True | Some age \<Rightarrow> age \<le> window))"

definition tier_of :: "provider_id \<Rightarrow> activity \<Rightarrow> int \<Rightarrow> refresh_tier \<times> tier_reason option" where
  "tier_of p a now =
     (if activity_agent p = None then (Normal, None)
      else if within_span now (last_write a) active_window then (Active, Some AgentActive)
      else if has_low_remaining a \<and>
              (within_span now (last_write a) idle_after \<or> within_span now (activity_last_demand a) idle_after)
      then (Active, Some LowRemaining)
      else if \<not> within_span now (last_write a) idle_after \<and> \<not> within_span now (activity_last_demand a) idle_after
      then (Idle, None)
      else (Normal, None))"

definition interval_of :: "int \<Rightarrow> refresh_mode \<Rightarrow> int \<Rightarrow> refresh_tier \<Rightarrow> int" where
  "interval_of least mode fixed tier =
     max (case mode of
            Fixed \<Rightarrow> fixed
          | Automatic \<Rightarrow> (case tier of
              Active \<Rightarrow> active_interval | Normal \<Rightarrow> normal_interval | Idle \<Rightarrow> idle_interval))
         least"

definition jitter :: rat where "jitter = round_f64 (1 / 10)"

definition jittered :: "int \<Rightarrow> rat \<Rightarrow> int" where
  "jittered d unit = mul_f64 d (round_f64 (1 + round_f64 (jitter * min 1 (max (- 1) unit))))"

lemma jittered_near:
  assumes "1 \<le> k" "k \<le> 86400"
  shows "10 * \<bar>jittered (seconds k) unit - seconds k\<bar> \<le> seconds k + 20"
proof -
  let ?d = "power_of_two (- 53)" and ?u = "min 1 (max (- 1) unit)"
  have d: "?d = 1 / 9007199254740992" by (simp add: power_of_two_def)
  have u: "\<bar>?u\<bar> \<le> 1" by auto
  have j: "\<bar>jitter - 1 / 10\<bar> \<le> ?d"
    using round_f64_within [of "1 / 10" 1] by (simp add: jitter_def)
  then have "\<bar>jitter\<bar> \<le> 1 / 10 + ?d" by linarith
  then have ju: "\<bar>jitter * ?u\<bar> \<le> 1 / 10 + ?d"
    unfolding abs_mult using u mult_mono [of "\<bar>jitter\<bar>" "1 / 10 + ?d" "\<bar>?u\<bar>" 1] by (simp add: d)
  then have "\<bar>jitter * ?u\<bar> \<le> 1" by (simp add: d)
  then have y: "\<bar>round_f64 (jitter * ?u) - jitter * ?u\<bar> \<le> 1 * ?d" by (rule round_f64_within) simp
  then have one: "\<bar>1 + round_f64 (jitter * ?u)\<bar> \<le> 2" using ju d by linarith
  define r where "r = round_f64 (1 + round_f64 (jitter * ?u))"
  have "\<bar>r - (1 + round_f64 (jitter * ?u))\<bar> \<le> 2 * ?d"
    unfolding r_def by (rule round_f64_within [OF one]) simp
  then have r: "\<bar>r - 1\<bar> \<le> 1 / 10 + 4 * ?d" using y ju by linarith
  have "\<bar>of_int (jittered (seconds k) unit) - of_nat k * 10 ^ 9\<bar>
      \<le> of_nat k * 10 ^ 9 * (1 / 10 + 4 * ?d + 10 * ?d) + (1 / 2 :: rat)"
    using mul_f64_near [OF assms(1) r] by (simp add: jittered_def seconds_def r_def d)
  also have "\<dots> \<le> of_nat k * 10 ^ 9 / 10 + 2"
  proof -
    have "(of_nat k :: rat) \<le> 86400" using assms(2) by (metis of_nat_le_iff of_nat_numeral)
    then show ?thesis by (simp add: d field_simps)
  qed
  finally have "10 * \<bar>of_int (jittered (seconds k) unit - seconds k)\<bar> \<le> (of_int (seconds k + 20) :: rat)"
    by (simp add: seconds_def)
  then show ?thesis unfolding of_int_abs [symmetric] by linarith
qed

subsection \<open>Reading the last report\<close>

definition provider_results :: "json option \<Rightarrow> provider_id \<Rightarrow> json list" where
  "provider_results quota p =
     filter (\<lambda>result. str_member ''provider'' result = Some (provider_str p))
       (case quota of None \<Rightarrow> [] | Some q \<Rightarrow> members_of ''results'' q)"

definition report_snapshots :: "json option \<Rightarrow> provider_id \<Rightarrow> json list" where
  "report_snapshots quota p = concat (map (members_of ''snapshots'') (provider_results quota p))"

definition low_remaining :: "json option \<Rightarrow> provider_id \<Rightarrow> bool" where
  "low_remaining quota p =
     list_ex (\<lambda>snapshot.
        list_ex (\<lambda>window.
          json_get ''duration_seconds'' window \<noteq> None \<and>
          (case Option.bind (json_get ''used_percent'' window) as_f64 of
             Some used \<Rightarrow> round_f64 (100 - used) < low_remaining_percent
           | None \<Rightarrow> False))
        (members_of ''windows'' snapshot))
       (report_snapshots quota p)"

definition accounts :: "json option \<Rightarrow> provider_id \<Rightarrow> string set" where
  "accounts quota p =
     set (List.map_filter (\<lambda>snapshot.
       Option.bind (json_get ''account'' snapshot) (str_member ''fingerprint'')) (report_snapshots quota p))"

definition in_use :: "json option \<Rightarrow> provider_id \<Rightarrow> bool" where
  "in_use quota p =
     list_ex (\<lambda>result. case Option.bind (json_get ''sources'' result) as_array of
        Some sources \<Rightarrow> sources \<noteq> [] | None \<Rightarrow> False) (provider_results quota p)"

definition backoff_account :: "string set \<Rightarrow> string" where
  "backoff_account as = (case sorted_list_of_set as of a # _ \<Rightarrow> a | [] \<Rightarrow> [])"

subsection \<open>Backoff\<close>

definition backoff_after_429 :: "backoff option \<Rightarrow> string \<Rightarrow> nat option \<Rightarrow> int \<Rightarrow> backoff" where
  "backoff_after_429 previous account retry_after now =
     (let strikes = (case previous of
            Some b \<Rightarrow> if bo_account b = account then min (bo_strikes b + 1) (2 ^ 32 - 1) else 1
          | None \<Rightarrow> 1);
          doubled = min (backoff_start * 2 ^ min (strikes - 1) 8) backoff_cap;
          wait = (case retry_after of
            Some s \<Rightarrow> if 0 < s then min (seconds s) retry_after_cap else doubled
          | None \<Rightarrow> doubled)
      in \<lparr>bo_account = account, bo_until = now + wait, bo_strikes = strikes\<rparr>)"

definition raised_floor_after_429 :: "string \<Rightarrow> int \<Rightarrow> raised_floor" where
  "raised_floor_after_429 account now = \<lparr>rf_account = account, rf_until = now + rate_limited_floor_span\<rparr>"

subsection \<open>The gate\<close>

record gate_input =
  gi_record :: "cadence_record option"
  gi_account :: string
  gi_read_elsewhere :: bool

definition admitted :: "bool \<Rightarrow> int \<Rightarrow> provider_id \<Rightarrow> gate_input \<Rightarrow> bool" where
  "admitted manual now p i =
     (let since_last = Option.bind (Option.bind (gi_record i) last_attempt_at) (age_of now) in
      if manual then (case since_last of None \<Rightarrow> True | Some age \<Rightarrow> manual_floor \<le> age)
      else if (case since_last of None \<Rightarrow> False
               | Some age \<Rightarrow> age < floor_for p (gi_record i) (gi_account i) now) then False
      else
        let backing_off = (case Option.bind (gi_record i) record_backoff of
              None \<Rightarrow> False | Some b \<Rightarrow> bo_account b = gi_account i \<and> now < bo_until b)
        in \<not> backing_off \<and> \<not> gi_read_elsewhere i)"

definition gate :: "provider_id list \<Rightarrow> bool \<Rightarrow> int \<Rightarrow> (provider_id \<Rightarrow> gate_input) \<Rightarrow> provider_id list" where
  "gate candidates manual now input = filter (\<lambda>p. admitted manual now p (input p)) candidates"

definition read_elsewhere ::
    "externs \<Rightarrow> json option \<Rightarrow> provider_id \<Rightarrow> string set \<Rightarrow> string option \<Rightarrow> int \<Rightarrow> bool" where
  "read_elsewhere x summary p as this_device now =
     (if as = {} then False
      else
        let subscriptions = (case summary of None \<Rightarrow> [] | Some s \<Rightarrow> members_of ''subscriptions'' s) in
        (\<forall>account \<in> as. list_ex (\<lambda>subscription.
            str_member ''provider'' subscription = Some (provider_str p) \<and>
            Option.bind (Option.bind (json_get ''snapshot'' subscription) (json_get ''account''))
              (str_member ''fingerprint'') = Some account \<and>
            list_ex (\<lambda>source.
              str_member ''device_id'' source \<noteq> this_device \<and>
              (case instant x (json_get ''observed_at'' source) of
                 None \<Rightarrow> False
               | Some observed \<Rightarrow> (case age_of now observed of
                   None \<Rightarrow> False | Some age \<Rightarrow> age < min_interval p)))
              (members_of ''sources'' subscription)) subscriptions))"

text \<open>\<open>DiagnosticAttemptTrigger\<close>, and \<open>is_manual\<close>.\<close>

datatype trigger = Manual | Scheduled | Startup | Recheck | SettingsChange | AccountChange | Demand

definition is_manual :: "trigger \<Rightarrow> bool" where
  "is_manual t \<longleftrightarrow> t \<in> {Manual, Recheck}"

text \<open>What one provider's answer does to its record: \<open>asked\<close> is whether a source was tried,
  \<open>limited\<close> the \<open>Retry-After\<close> of a 429 when there was one, \<open>succeeded\<close> the outcome.\<close>

definition note_answer ::
    "int \<Rightarrow> string \<Rightarrow> bool \<Rightarrow> nat option option \<Rightarrow> bool \<Rightarrow> cadence_record \<Rightarrow> cadence_record" where
  "note_answer now account asked limited succeeded r =
     (let r = (if asked then r\<lparr>last_attempt_at := Some now\<rparr> else r) in
      case limited of
        Some retry_after \<Rightarrow>
          r\<lparr>record_backoff := Some (backoff_after_429 (record_backoff r) account retry_after now),
            record_raised_floor := Some (raised_floor_after_429 account now)\<rparr>
      | None \<Rightarrow> if succeeded then r\<lparr>record_backoff := None\<rparr> else r)"

subsection \<open>Collection requests\<close>

definition demand_to_answer :: "int option \<Rightarrow> int option \<Rightarrow> int option \<Rightarrow> int \<Rightarrow> int option" where
  "demand_to_answer requested_at last_complete answered now =
     Option.bind requested_at (\<lambda>requested.
       let fresh = (case age_of now requested of None \<Rightarrow> True | Some age \<Rightarrow> age \<le> demand_lifetime) in
       if fresh \<and> (case last_complete of None \<Rightarrow> True | Some c \<Rightarrow> c < requested) \<and>
          (case answered of None \<Rightarrow> True | Some a \<Rightarrow> a < requested)
       then Some requested else None)"

text \<open>\<open>QuotaRefreshTierHint\<close>, and \<open>CadenceState\<close> of \<open>service/mod.rs\<close> with two of its operations.\<close>

record tier_hint =
  hint_tier :: refresh_tier
  hint_seconds :: int
  hint_provider :: string
  hint_reason :: "tier_reason option"

record cadence_state =
  cadence_hint :: "tier_hint option"
  answered_demand :: "int option"
  last_demand :: "int option"
  last_complete_collection :: "int option"

definition note_collection_request :: "int option \<Rightarrow> int \<Rightarrow> cadence_state \<Rightarrow> int option \<times> cadence_state" where
  "note_collection_request requested now s =
     (let answer = demand_to_answer requested (last_complete_collection s) (answered_demand s) now in
      (answer, if answer \<noteq> None then s\<lparr>answered_demand := answer, last_demand := Some now\<rparr> else s))"

definition note_complete_collection :: "int \<Rightarrow> cadence_state \<Rightarrow> cadence_state" where
  "note_complete_collection started s =
     s\<lparr>last_complete_collection :=
        Some (case last_complete_collection s of None \<Rightarrow> started | Some previous \<Rightarrow> max previous started)\<rparr>"

subsection \<open>Properties\<close>

lemmas cadence_durations = manual_floor_def active_interval_def normal_interval_def idle_interval_def
  active_window_def idle_after_def demand_lifetime_def backoff_start_def backoff_cap_def
  retry_after_cap_def rate_limited_floor_def rate_limited_floor_span_def seconds_def

lemma floor_for_ge: "min_interval p \<le> floor_for p r account now"
  by (auto simp: floor_for_def split: option.splits)

lemma min_interval_pos: "seconds 60 \<le> min_interval p"
  by (cases p) (simp_all add: min_interval_def seconds_def)

lemma max_option_le:
  "(case max a b of None \<Rightarrow> True | Some t \<Rightarrow> t \<le> now) \<longleftrightarrow>
     (case a of None \<Rightarrow> True | Some t \<Rightarrow> t \<le> now) \<and> (case b of None \<Rightarrow> True | Some t \<Rightarrow> t \<le> (now :: int))"
  by (cases a; cases b) (auto simp: max_def)


definition sample_record :: cadence_record where
  "sample_record = \<lparr>last_attempt_at = Some (seconds 1000), record_backoff = None, record_raised_floor = None\<rparr>"


text \<open>The wait a 429 earns lies between a second and an hour.\<close>

definition wait_after_429 :: "backoff option \<Rightarrow> string \<Rightarrow> nat option \<Rightarrow> int" where
  "wait_after_429 previous account retry_after = bo_until (backoff_after_429 previous account retry_after 0)"

lemma backoff_until: "bo_until (backoff_after_429 previous account retry_after now) =
    now + wait_after_429 previous account retry_after"
  by (simp add: wait_after_429_def backoff_after_429_def Let_def)

lemma doubled_bounds: "backoff_start \<le> min (backoff_start * 2 ^ k) backoff_cap"
  by (simp add: backoff_start_def backoff_cap_def seconds_def)

lemma wait_after_429_bounds:
  "0 < wait_after_429 previous account retry_after \<and> wait_after_429 previous account retry_after \<le> seconds 3600 \<and>
   (retry_after = None \<or> retry_after = Some 0 \<longrightarrow>
      seconds 300 \<le> wait_after_429 previous account retry_after \<and>
      wait_after_429 previous account retry_after \<le> seconds 1800)"
  using doubled_bounds
  by (auto simp: wait_after_429_def backoff_after_429_def Let_def backoff_start_def backoff_cap_def
      retry_after_cap_def seconds_def min_def split: option.splits)

text \<open>C11: A 429 keeps its account quiet. After a provider answered 429 at \<open>t0\<close>, no later pass that
  nobody asked for in person asks that account again before the wait the 429 earned is over, nor
  before five minutes and the catalog's floor; and the wait is never longer than an hour.\<close>

theorem rate_limited_stays_quiet:
  assumes "t0 \<le> now"
    and "admitted False now p \<lparr>gi_record = Some (note_answer t0 account True (Some retry_after) succeeded r),
           gi_account = account, gi_read_elsewhere = e\<rparr>"
  shows "t0 + wait_after_429 (record_backoff r) account retry_after \<le> now \<and>
    t0 + rate_limited_floor \<le> now \<and> t0 + min_interval p \<le> now \<and>
    wait_after_429 (record_backoff r) account retry_after \<le> seconds 3600"
proof -
  let ?r = "note_answer t0 account True (Some retry_after) succeeded r"
  have r: "last_attempt_at ?r = Some t0"
      "record_backoff ?r = Some (backoff_after_429 (record_backoff r) account retry_after t0)"
      "record_raised_floor ?r = Some (raised_floor_after_429 account t0)"
    by (simp_all add: note_answer_def Let_def)
  have account: "bo_account (backoff_after_429 previous account retry_after t0) = account" for previous
    by (simp add: backoff_after_429_def Let_def)
  have floor: "floor_for p (Some ?r) account now = (if now < t0 + rate_limited_floor_span
      then max (min_interval p) rate_limited_floor else min_interval p)"
    by (simp add: floor_for_def r raised_floor_after_429_def)
  from assms have "t0 + wait_after_429 (record_backoff r) account retry_after \<le> now"
    and "t0 + floor_for p (Some ?r) account now \<le> now"
    by (simp_all add: admitted_def Let_def r age_of_def account backoff_until split: if_splits)
  moreover from this(2) have "t0 + rate_limited_floor \<le> now"
    unfolding floor by (simp add: cadence_durations split: if_splits)
  ultimately show ?thesis
    using floor_for_ge [of p "Some ?r" account now] wait_after_429_bounds by simp
qed

theorem rate_limited_stays_quiet_witness:
  "seconds 1000 + wait_after_429 None ''a'' (Some 600) \<le> seconds 1600"
proof -
  have "admitted False (seconds 1600) Claude \<lparr>gi_record = Some (note_answer (seconds 1000) ''a'' True
      (Some (Some 600)) False cadence_record_default), gi_account = ''a'', gi_read_elsewhere = False\<rparr>"
    by code_simp
  from rate_limited_stays_quiet [OF _ this] show ?thesis
    by (simp add: seconds_def cadence_record_default_def)
qed

text \<open>Consecutive 429s without a \<open>Retry-After\<close> double the wait: after the \<open>n\<close>-th on one account
  the strikes are \<open>n\<close> and the wait is five minutes asks \<open>2 ^ (n - 1)\<close>, at most thirty minutes; the
  clamp of the exponent never shows.\<close>

theorem consecutive_429s_double:
  assumes "asks \<noteq> []" and "length asks < 2 ^ 32"
  shows "foldl (\<lambda>b t. Some (backoff_after_429 b account None t)) None asks =
    Some \<lparr>bo_account = account,
          bo_until = last asks + min (seconds 300 * 2 ^ (length asks - 1)) (seconds 1800),
          bo_strikes = length asks\<rparr>"
  using assms
proof (induction asks rule: rev_induct)
  case (snoc t asks)
  have clamp: "min (seconds 300 * 2 ^ min k 8) (seconds 1800) = min (seconds 300 * 2 ^ k) (seconds 1800)" for k
  proof (cases "k \<le> 8")
    case False
    then have "(2 :: int) ^ 8 \<le> 2 ^ k" by (intro power_increasing) simp_all
    then show ?thesis using False by (simp add: seconds_def)
  qed simp
  show ?case
  proof (cases "asks = []")
    case True
    then show ?thesis by (simp add: backoff_after_429_def Let_def cadence_durations)
  next
    case False
    with snoc have "foldl (\<lambda>b t. Some (backoff_after_429 b account None t)) None asks =
      Some \<lparr>bo_account = account,
            bo_until = last asks + min (seconds 300 * 2 ^ (length asks - 1)) (seconds 1800),
            bo_strikes = length asks\<rparr>" by simp
    with snoc.prems(2) show ?thesis
      by (simp add: backoff_after_429_def Let_def backoff_start_def backoff_cap_def clamp)
  qed
qed simp

theorem consecutive_429s_double_witness:
  "bo_until (the (foldl (\<lambda>b t. Some (backoff_after_429 b ''a'' None t)) None [seconds 0, seconds 300])) = seconds 900"
  using consecutive_429s_double [of "[seconds 0, seconds 300]" "''a''"] by (simp add: seconds_def)

text \<open>What happens to \<open>CadenceState\<close>: Account reads that may carry a request, and passes that
  asked every provider. \<open>demand_answers\<close> are the requests this Mac answers, in order.\<close>

datatype cadence_event = AccountRead "int option" int | CompletePass int

fun demand_answers :: "cadence_event list \<Rightarrow> cadence_state \<Rightarrow> int list" where
  "demand_answers [] s = []"
| "demand_answers (AccountRead requested now # es) s =
     (case note_collection_request requested now s of
        (None, s) \<Rightarrow> demand_answers es s
      | (Some r, s) \<Rightarrow> r # demand_answers es s)"
| "demand_answers (CompletePass started # es) s = demand_answers es (note_complete_collection started s)"

lemma demand_to_answer_Some:
  "demand_to_answer requested collected answered now = Some r \<Longrightarrow>
     requested = Some r \<and> (\<forall>a. answered = Some a \<longrightarrow> a < r) \<and> (\<forall>c. collected = Some c \<longrightarrow> c < r)"
  by (auto simp: demand_to_answer_def Let_def bind_eq_Some_conv split: if_splits option.splits)

lemma demand_answers_after:
  "(\<forall>a. answered_demand s = Some a \<longrightarrow> (\<forall>r \<in> set (demand_answers es s). a < r)) \<and>
   (\<forall>c. last_complete_collection s = Some c \<longrightarrow> (\<forall>r \<in> set (demand_answers es s). c < r)) \<and>
   sorted_wrt (<) (demand_answers es s)"
proof (induction es arbitrary: s)
  case (Cons e es)
  show ?case
  proof (cases e)
    case (AccountRead requested now)
    let ?answer = "demand_to_answer requested (last_complete_collection s) (answered_demand s) now"
    show ?thesis
    proof (cases ?answer)
      case None
      then have step: "note_collection_request requested now s = (None, s)"
        by (simp add: note_collection_request_def Let_def)
      from Cons [of s] show ?thesis by (simp add: AccountRead step)
    next
      case (Some r)
      let ?s = "s\<lparr>answered_demand := Some r, last_demand := Some now\<rparr>"
      have step: "note_collection_request requested now s = (Some r, ?s)"
        using Some by (simp add: note_collection_request_def Let_def)
      have run: "demand_answers (e # es) s = r # demand_answers es ?s"
        by (simp add: step AccountRead)
      from Cons [of ?s] demand_to_answer_Some [OF Some] show ?thesis
        unfolding run by auto
    qed
  next
    case (CompletePass started)
    with Cons [of "note_complete_collection started s"] show ?thesis
      by (cases "last_complete_collection s")
        (auto simp: note_complete_collection_def max_def split: if_splits)
  qed
qed simp

text \<open>Whatever the order of Account reads and complete passes, the collection requests this Mac
  answers are strictly newer one after the other, so no request is answered twice; and each is
  newer than every complete pass before it.\<close>

theorem demand_answered_once:
  "sorted_wrt (<) (demand_answers events s) \<and> distinct (demand_answers events s) \<and>
   (case last_complete_collection s of None \<Rightarrow> True | Some c \<Rightarrow> list_all (\<lambda>r. c < r) (demand_answers events s))"
  using demand_answers_after [of s events]
  by (auto simp: strict_sorted_iff list_all_iff split: option.splits)

end
