(* ===== verification/Schedule.thy ===== *)
theory Schedule
  imports Cadence
begin

text \<open>
  The scheduler's decisions (\<open>packages/service/src/service/schedule.rs\<close>, and \<open>plan_intervals\<close>,
  \<open>earliest_asks\<close>, \<open>note_reset_boundary\<close> and \<open>mark_reset_attempted\<close> of \<open>service/mod.rs\<close>): which event
  wakes it, which providers a pass takes, and which window reset it catches up with. An
  \<open>Instant\<close> is nanoseconds of a monotonic clock. What the lemmas show: the wake is the earliest
  event with the documented preference, and a reset whose catch-up was tried never comes back.
\<close>

definition reset_boundary_slack :: int where "reset_boundary_slack = seconds 2"
definition due_slack :: int where "due_slack = seconds 30"

definition quota_refresh_interval :: "nat \<Rightarrow> int option" where
  "quota_refresh_interval s = (if s \<in> {60, 120, 300, 600, 900} then Some (seconds s) else None)"

datatype scheduler_wake = WakeAccount | WakeQuota | WakeResetBoundary | WakeProviderStatus

definition next_wake :: "int \<Rightarrow> int \<Rightarrow> int option \<Rightarrow> int \<Rightarrow> scheduler_wake \<times> int" where
  "next_wake next_account next_quota next_reset next_status =
     (let (kind, t) = (WakeAccount, next_account);
          (kind, t) = (if next_quota \<le> t then (WakeQuota, next_quota) else (kind, t));
          (kind, t) = (case next_reset of
              Some reset \<Rightarrow> if reset \<le> t then (WakeResetBoundary, reset) else (kind, t)
            | None \<Rightarrow> (kind, t))
      in if next_status < t then (WakeProviderStatus, next_status) else (kind, t))"

definition due_providers :: "(provider_id, int) btree \<Rightarrow> int \<Rightarrow> provider_id list" where
  "due_providers next_due now = map fst (filter (\<lambda>(_, t). t \<le> now + due_slack) next_due)"

definition shared_pass_at :: "provider_id list \<Rightarrow> (provider_id, int) btree \<Rightarrow> int \<Rightarrow> int option" where
  "shared_pass_at due earliest now =
     list_max (filter (\<lambda>t. now < t \<and> t \<le> now + due_slack) (List.map_filter (bt_get earliest) due))"

text \<open>\<open>instant_from_utc\<close> and \<open>utc_from_instant\<close>: the delta is read in whole milliseconds.\<close>

definition instant_from_utc :: "int \<Rightarrow> int \<Rightarrow> int \<Rightarrow> int" where
  "instant_from_utc t now_utc now =
     (let ms = milliseconds_toward_zero (t - now_utc) in if ms \<le> 0 then now else now + ms * 1000000)"

definition utc_from_instant :: "int \<Rightarrow> int \<Rightarrow> int \<Rightarrow> int" where
  "utc_from_instant t now now_utc = (if t \<le> now then now_utc else now_utc + (t - now))"

subsection \<open>Window resets\<close>

text \<open>Every window of the report with its provider and its reset instant.\<close>

definition window_resets :: "externs \<Rightarrow> json \<Rightarrow> (provider_id \<times> int) list" where
  "window_resets x quota =
     concat (map (\<lambda>snapshot.
       (case Option.bind (str_member ''provider'' snapshot) provider_parse of
          None \<Rightarrow> []
        | Some p \<Rightarrow> List.map_filter (\<lambda>window. map_option (\<lambda>t. (p, t)) (instant x (json_get ''resets_at'' window)))
                     (members_of ''windows'' snapshot)))
       (concat (map (members_of ''snapshots'') (members_of ''results'' quota))))"

definition timestamp_of :: "int \<Rightarrow> int" where
  "timestamp_of t = t div 1000000000"

definition next_reset_boundary ::
    "externs \<Rightarrow> json \<Rightarrow> int \<Rightarrow> (provider_id \<Rightarrow> int) \<Rightarrow> int set \<Rightarrow> (int \<times> provider_id set) option" where
  "next_reset_boundary x quota now next_due_at attempted =
     (let wakes = filter (\<lambda>(_, wake). timestamp_of wake \<notin> attempted)
            (filter (\<lambda>(p, wake). wake < next_due_at p)
            (map (\<lambda>(p, reset). (p, reset + reset_boundary_slack))
            (filter (\<lambda>(_, reset). now < reset) (window_resets x quota))))
      in map_option (\<lambda>first. (first, set (map fst (filter (\<lambda>(_, wake). wake = first) wakes))))
           (list_min (map snd wakes)))"

text \<open>\<open>SchedulerPlan\<close>.\<close>

record scheduler_plan =
  plan_next_due :: "(provider_id, int) btree"
  plan_reset_at :: "int option"
  plan_reset_providers :: "provider_id set"
  plan_attempted_resets :: "int set"

definition mark_reset_attempted :: "scheduler_plan \<Rightarrow> provider_id set \<times> scheduler_plan" where
  "mark_reset_attempted plan =
     (let attempted = (case plan_reset_at plan of
            Some t \<Rightarrow> insert (timestamp_of t) (plan_attempted_resets plan)
          | None \<Rightarrow> plan_attempted_resets plan);
          attempted = (if 64 < card attempted then attempted - {Min attempted} else attempted)
      in (plan_reset_providers plan,
          plan\<lparr>plan_reset_at := None, plan_attempted_resets := attempted, plan_reset_providers := {}\<rparr>))"

definition note_reset_boundary ::
    "externs \<Rightarrow> int \<Rightarrow> int \<Rightarrow> int \<Rightarrow> json \<Rightarrow> scheduler_plan \<Rightarrow> scheduler_plan" where
  "note_reset_boundary x now now_utc fixed quota plan =
     (let next_due_at = (\<lambda>p. case bt_get (plan_next_due plan) p of
            Some t \<Rightarrow> utc_from_instant t now now_utc
          | None \<Rightarrow> now_utc + fixed);
          wake = next_reset_boundary x quota now_utc next_due_at (plan_attempted_resets plan)
      in plan\<lparr>plan_reset_at := map_option fst wake,
              plan_reset_providers := (case wake of Some (_, ps) \<Rightarrow> ps | None \<Rightarrow> {})\<rparr>)"

subsection \<open>Intervals\<close>

text \<open>\<open>plan_intervals\<close>: what the scheduler plans for one provider, and \<open>earliest_asks\<close>.\<close>

record provider_plan =
  pp_interval :: int
  pp_not_before :: "int option"

definition plan_tier ::
    "(provider_id, int) btree \<Rightarrow> json option \<Rightarrow> int option \<Rightarrow> int \<Rightarrow> provider_id \<Rightarrow>
     refresh_tier \<times> tier_reason option" where
  "plan_tier writes quota demanded now p =
     tier_of p \<lparr>last_write = bt_get writes p, has_low_remaining = low_remaining quota p,
       activity_last_demand = demanded\<rparr> now"

definition plan_interval ::
    "refresh_mode \<Rightarrow> int \<Rightarrow> (provider_id, int) btree \<Rightarrow> json option \<Rightarrow> int option \<Rightarrow>
     (string, cadence_record) btree \<Rightarrow> int \<Rightarrow> provider_id \<Rightarrow> provider_plan" where
  "plan_interval mode fixed writes quota demanded records now p =
     (let (tier, _) = plan_tier writes quota demanded now p;
          r = bt_get records (provider_str p);
          account = backoff_account (accounts quota p);
          least = floor_for p r account now
      in \<lparr>pp_interval = interval_of least mode fixed tier,
          pp_not_before = not_before p r account now\<rparr>)"

text \<open>The Settings hint: the fastest provider that is set up here, and of equal ones the first of the
  busiest tier. \<open>as_secs\<close> drops the fraction of a second.\<close>

fun tier_rank :: "refresh_tier \<Rightarrow> nat" where
  "tier_rank Active = 0" | "tier_rank Normal = 1" | "tier_rank Idle = 2"

definition hint_of :: "provider_id \<Rightarrow> int \<Rightarrow> refresh_tier \<times> tier_reason option \<Rightarrow> tier_hint" where
  "hint_of p t tier = \<lparr>hint_tier = fst tier, hint_seconds = t div 1000000000,
     hint_provider = provider_str p, hint_reason = snd tier\<rparr>"

definition better_hint :: "int \<Rightarrow> refresh_tier \<Rightarrow> (int \<times> tier_hint) option \<Rightarrow> bool" where
  "better_hint t tier hint \<longleftrightarrow>
     (case hint of
        None \<Rightarrow> True
      | Some (best, current) \<Rightarrow>
          t < best \<or> t = best \<and> tier_rank tier < tier_rank (hint_tier current))"

definition plan_hint ::
    "refresh_mode \<Rightarrow> int \<Rightarrow> (provider_id, int) btree \<Rightarrow> json option \<Rightarrow> int option \<Rightarrow>
     (string, cadence_record) btree \<Rightarrow> int \<Rightarrow> tier_hint option" where
  "plan_hint mode fixed writes quota demanded records now =
     (let hint = fold (\<lambda>p hint.
            let tier = plan_tier writes quota demanded now p;
                t = pp_interval (plan_interval mode fixed writes quota demanded records now p)
            in if in_use quota p \<and> better_hint t (fst tier) hint
               then Some (t, hint_of p t tier) else hint) all_providers None
      in if mode = Automatic then map_option snd hint else None)"

text \<open>The plans of every provider; the hint is stored, and a hint that changed is announced.\<close>

definition plan_intervals ::
    "refresh_mode \<Rightarrow> int \<Rightarrow> (provider_id, int) btree \<Rightarrow> json option \<Rightarrow>
     (string, cadence_record) btree \<Rightarrow> int \<Rightarrow> cadence_state \<Rightarrow>
     (provider_id, provider_plan) btree \<times> bool \<times> cadence_state" where
  "plan_intervals mode fixed writes quota records now s =
     (let demanded = last_demand s;
          hint = plan_hint mode fixed writes quota demanded records now
      in (map (\<lambda>p. (p, plan_interval mode fixed writes quota demanded records now p)) all_providers,
          cadence_hint s \<noteq> hint, s\<lparr>cadence_hint := hint\<rparr>))"

definition earliest_asks :: "(provider_id, provider_plan) btree \<Rightarrow> int \<Rightarrow> int \<Rightarrow> (provider_id, int) btree" where
  "earliest_asks plans now_utc now =
     List.map_filter (\<lambda>(p, plan). map_option (\<lambda>t. (p, instant_from_utc t now_utc now)) (pp_not_before plan)) plans"

subsection \<open>Properties\<close>

text \<open>The scheduler wakes for the earliest of its events, and for the documented one when
  several fall together: a reset catch-up before a periodic collection, that before an
  Account-only read, and any of them before a status page.\<close>

theorem next_wake_earliest:
  "next_wake account quota reset status =
    (let t = Min ({account, quota, status} \<union> set_option reset) in
     (if reset = Some t then WakeResetBoundary
      else if quota = t then WakeQuota
      else if account = t then WakeAccount
      else WakeProviderStatus, t))"
proof (cases reset)
  case None
  then show ?thesis
    by (auto simp: next_wake_def Let_def min_def insert_commute)
next
  case (Some r)
  then show ?thesis
    by (auto simp: next_wake_def Let_def min_def insert_commute)
qed

lemma next_reset_boundary_Some:
  assumes "next_reset_boundary x quota now next_due_at attempted = Some (t, ps)"
  shows "now + reset_boundary_slack < t \<and> timestamp_of t \<notin> attempted \<and> ps \<noteq> {} \<and>
    (\<forall>p \<in> ps. t < next_due_at p \<and> (p, t - reset_boundary_slack) \<in> set (window_resets x quota))"
proof -
  define wakes where "wakes = filter (\<lambda>(_, wake). timestamp_of wake \<notin> attempted)
            (filter (\<lambda>(p, wake). wake < next_due_at p)
            (map (\<lambda>(p, reset). (p, reset + reset_boundary_slack))
            (filter (\<lambda>(_, reset). now < reset) (window_resets x quota))))"
  from assms have first: "list_min (map snd wakes) = Some t"
    and ps: "ps = set (map fst (filter (\<lambda>(_, wake). wake = t) wakes))"
    unfolding next_reset_boundary_def Let_def wakes_def [symmetric] by auto
  from list_min_Some [OF first] obtain p where p: "(p, t) \<in> set wakes" by auto
  have all: "now + reset_boundary_slack < w \<and> timestamp_of w \<notin> attempted \<and> w < next_due_at q \<and>
      (q, w - reset_boundary_slack) \<in> set (window_resets x quota)" if "(q, w) \<in> set wakes" for q w
    using that by (auto simp: wakes_def)
  from p have "p \<in> ps" by (force simp: ps)
  with all [OF p] show ?thesis by (auto simp: ps dest: all)
qed

text \<open>
  What happens to the plan: a new Quota report is noted, and the scheduler runs the pending
  catch-up. \<open>catch_ups\<close> are the instants that were caught up with, in order. The clocks of the
  events are arbitrary: they may even step back.
\<close>

datatype plan_event = QuotaNoted int int int json | CatchUp

fun catch_ups :: "externs \<Rightarrow> plan_event list \<Rightarrow> scheduler_plan \<Rightarrow> int list" where
  "catch_ups x [] plan = []"
| "catch_ups x (QuotaNoted now now_utc fixed quota # es) plan =
     catch_ups x es (note_reset_boundary x now now_utc fixed quota plan)"
| "catch_ups x (CatchUp # es) plan =
     (case plan_reset_at plan of Some t \<Rightarrow> [t] | None \<Rightarrow> []) @ catch_ups x es (snd (mark_reset_attempted plan))"

definition plan_fresh :: "scheduler_plan \<Rightarrow> bool" where
  "plan_fresh plan \<longleftrightarrow> finite (plan_attempted_resets plan) \<and>
     (\<forall>t. plan_reset_at plan = Some t \<longrightarrow> timestamp_of t \<notin> plan_attempted_resets plan)"

lemma note_reset_boundary_fresh:
  "plan_fresh plan \<Longrightarrow> plan_fresh (note_reset_boundary x now now_utc fixed quota plan) \<and>
     plan_attempted_resets (note_reset_boundary x now now_utc fixed quota plan) = plan_attempted_resets plan"
  using next_reset_boundary_Some
  by (fastforce simp: plan_fresh_def note_reset_boundary_def Let_def)

lemma catch_ups_distinct:
  assumes "plan_fresh plan" and "card (plan_attempted_resets plan) + length (catch_ups x es plan) \<le> 64"
  shows "distinct (map timestamp_of (catch_ups x es plan)) \<and>
    timestamp_of ` set (catch_ups x es plan) \<inter> plan_attempted_resets plan = {}"
  using assms
proof (induction es arbitrary: plan)
  case (Cons e es)
  show ?case
  proof (cases e)
    case (QuotaNoted now now_utc fixed quota)
    let ?plan = "note_reset_boundary x now now_utc fixed quota plan"
    have "plan_fresh ?plan" and same: "plan_attempted_resets ?plan = plan_attempted_resets plan"
      using note_reset_boundary_fresh [OF Cons.prems(1)] by blast+
    with Cons.IH [of ?plan] Cons.prems(2) show ?thesis by (simp add: QuotaNoted same)
  next
    case CatchUp
    show ?thesis
    proof (cases "plan_reset_at plan")
      case None
      with Cons.prems have "card (plan_attempted_resets plan) \<le> 64" by simp
      with None Cons.prems Cons.IH [of "snd (mark_reset_attempted plan)"] show ?thesis
        by (simp add: CatchUp mark_reset_attempted_def plan_fresh_def Let_def)
    next
      case (Some t)
      let ?plan = "snd (mark_reset_attempted plan)"
      have new: "timestamp_of t \<notin> plan_attempted_resets plan" and fin: "finite (plan_attempted_resets plan)"
        using Cons.prems(1) Some by (simp_all add: plan_fresh_def)
      have run: "catch_ups x (e # es) plan = t # catch_ups x es ?plan"
        by (simp add: CatchUp Some)
      have "card (insert (timestamp_of t) (plan_attempted_resets plan)) \<le> 64"
        using Cons.prems(2) new fin unfolding run by simp
      then have attempted: "plan_attempted_resets ?plan = insert (timestamp_of t) (plan_attempted_resets plan)"
        and "plan_fresh ?plan"
        using Some fin by (simp_all add: mark_reset_attempted_def plan_fresh_def Let_def)
      with Cons.IH [of ?plan] Cons.prems(2) new fin show ?thesis unfolding run by simp
    qed
  qed
qed simp

text \<open>A failed catch-up cannot loop. Whatever Quota reports arrive and whatever the clocks say,
  of the first 64 resets the scheduler catches up with no two fall in the same second; the
  boundary it picks is always a reset still ahead, before its provider's next tick.\<close>

theorem reset_catch_up_once:
  assumes "plan_attempted_resets plan = {}" and "plan_reset_at plan = None"
    and "length (catch_ups x events plan) \<le> 64"
  shows "distinct (map timestamp_of (catch_ups x events plan))"
  using catch_ups_distinct [of plan x events] assms by (simp add: plan_fresh_def)

definition sample_reset_report :: json where
  "sample_reset_report = JObj [(''results'', JArr [JObj [(''snapshots'', JArr [JObj
     [(''provider'', JStr ''codex''), (''windows'', JArr [JObj [(''resets_at'', JStr ''2026-07-01T00:00:10Z'')]])]])]])]"

definition sample_clock :: externs where
  "sample_clock = sample_externs\<lparr>instant_of := (\<lambda>s. if s = ''2026-07-01T00:00:10Z'' then Some (seconds 10) else None)\<rparr>"

definition sample_plan :: scheduler_plan where
  "sample_plan = \<lparr>plan_next_due = [], plan_reset_at = None, plan_reset_providers = {}, plan_attempted_resets = {}\<rparr>"

theorem reset_catch_up_once_witness:
  "catch_ups sample_clock [QuotaNoted 0 0 (seconds 300) sample_reset_report, CatchUp,
     QuotaNoted 0 0 (seconds 300) sample_reset_report, CatchUp] sample_plan = [seconds 12]
   \<and> distinct (map timestamp_of [seconds 12])"
proof -
  have run: "catch_ups sample_clock [QuotaNoted 0 0 (seconds 300) sample_reset_report, CatchUp,
     QuotaNoted 0 0 (seconds 300) sample_reset_report, CatchUp] sample_plan = [seconds 12]" by code_simp
  with reset_catch_up_once [of sample_plan sample_clock "[QuotaNoted 0 0 (seconds 300) sample_reset_report, CatchUp,
     QuotaNoted 0 0 (seconds 300) sample_reset_report, CatchUp]"]
  show ?thesis by (simp add: sample_plan_def)
qed

end
