(* ===== verification/Lanes.thy ===== *)
theory Lanes
  imports Schedule
begin

text \<open>
  The refresh lanes (\<open>RefreshState\<close>, \<open>RefreshLane\<close>, \<open>request_lane\<close>, \<open>request_full\<close>,
  \<open>maybe_start_pending\<close>, \<open>clear_lane\<close> and the ends of \<open>run_lane\<close> and \<open>run_refresh\<close> in
  \<open>packages/service/src/service/mod.rs\<close>). Each section the \<open>refresh\<close> mutex guards is one step; the
  threads of the service are the steps they still have to take, and any interleaving of them with
  the requests of other threads is a run. \<open>passes\<close> logs every Quota pass that started. What the
  lemmas show: a full refresh never overlaps a Quota or Usage lane, and a request that had to wait
  is never left waiting once nothing runs; and, as a run, that the providers of a blocked pass can
  be left behind.
\<close>

datatype lane = QuotaLane | UsageLane | AccountLane

text \<open>\<open>Option<ActiveRefresh>\<close> is whether the lane runs; its cancel flag is not modelled. A Quota lane
  carries the providers and trigger its thread runs with.\<close>

record refresh_state =
  rs_active :: bool
  rs_pending :: bool
  rs_pending_trigger :: "trigger option"
  rs_quota :: "(provider_id list \<times> trigger) option"
  rs_usage :: bool
  rs_account :: bool
  rs_pending_quota :: bool
  rs_pending_quota_providers :: "provider_id set"
  rs_pending_quota_trigger :: "trigger option"
  rs_pending_usage :: bool
  rs_pending_account :: bool

definition refresh_idle :: refresh_state where
  "refresh_idle =
     \<lparr>rs_active = False, rs_pending = False, rs_pending_trigger = None, rs_quota = None,
      rs_usage = False, rs_account = False, rs_pending_quota = False,
      rs_pending_quota_providers = {}, rs_pending_quota_trigger = None, rs_pending_usage = False,
      rs_pending_account = False\<rparr>"

text \<open>What a caller is told; the revision it also carries is the store's.\<close>

record refresh_result =
  accepted :: bool
  is_pending :: bool

fun lane_blocked :: "lane \<Rightarrow> refresh_state \<Rightarrow> bool" where
  "lane_blocked QuotaLane r \<longleftrightarrow> rs_active r \<or> rs_quota r \<noteq> None"
| "lane_blocked UsageLane r \<longleftrightarrow> rs_active r \<or> rs_usage r"
| "lane_blocked AccountLane r \<longleftrightarrow> rs_active r \<or> rs_quota r \<noteq> None \<or> rs_account r"

fun trigger_priority :: "trigger \<Rightarrow> nat" where
  "trigger_priority Scheduled = 0" | "trigger_priority Startup = 0" | "trigger_priority Demand = 0"
| "trigger_priority SettingsChange = 1" | "trigger_priority AccountChange = 1"
| "trigger_priority Manual = 2" | "trigger_priority Recheck = 2"

definition coalesce_refresh_trigger :: "trigger option \<Rightarrow> trigger \<Rightarrow> trigger" where
  "coalesce_refresh_trigger current incoming =
     (case current of
        Some c \<Rightarrow> if trigger_priority incoming \<le> trigger_priority c then c else incoming
      | None \<Rightarrow> incoming)"

fun request_lane :: "lane \<Rightarrow> trigger \<Rightarrow> provider_id list \<Rightarrow> refresh_state \<Rightarrow> refresh_result \<times> refresh_state" where
  "request_lane lane t ps r =
     (if lane_blocked lane r
      then (\<lparr>accepted = False, is_pending = True\<rparr>,
        (case lane of
           QuotaLane \<Rightarrow>
             r\<lparr>rs_pending_quota := True,
               rs_pending_quota_providers := rs_pending_quota_providers r \<union> set ps,
               rs_pending_quota_trigger :=
                 Some (case rs_pending_quota_trigger r of Some Demand \<Rightarrow> Demand | _ \<Rightarrow> t)\<rparr>
         | UsageLane \<Rightarrow> r\<lparr>rs_pending_usage := True\<rparr>
         | AccountLane \<Rightarrow> r\<lparr>rs_pending_account := True\<rparr>))
      else (\<lparr>accepted = True, is_pending = False\<rparr>,
        (case lane of
           QuotaLane \<Rightarrow> r\<lparr>rs_pending_quota := False, rs_quota := Some (ps, t)\<rparr>
         | UsageLane \<Rightarrow> r\<lparr>rs_pending_usage := False, rs_usage := True\<rparr>
         | AccountLane \<Rightarrow> r\<lparr>rs_pending_account := False, rs_account := True\<rparr>)))"

definition request_full :: "trigger \<Rightarrow> refresh_state \<Rightarrow> refresh_result \<times> refresh_state" where
  "request_full t r =
     (if rs_active r \<or> rs_quota r \<noteq> None \<or> rs_usage r
      then (\<lparr>accepted = False, is_pending = True\<rparr>,
            r\<lparr>rs_pending := True,
              rs_pending_trigger := Some (coalesce_refresh_trigger (rs_pending_trigger r) t)\<rparr>)
      else (\<lparr>accepted = True, is_pending = False\<rparr>, r\<lparr>rs_active := True\<rparr>))"

definition clear_lane :: "lane \<Rightarrow> refresh_state \<Rightarrow> refresh_state" where
  "clear_lane lane r =
     (case lane of
        QuotaLane \<Rightarrow> r\<lparr>rs_quota := None\<rparr>
      | UsageLane \<Rightarrow> r\<lparr>rs_usage := False\<rparr>
      | AccountLane \<Rightarrow> r\<lparr>rs_account := False\<rparr>)"

text \<open>What a thread still has to do, one section of the mutex at a time.\<close>

datatype task = MaybeStartPending | RequestFull trigger | RequestLane lane trigger "provider_id list"

definition maybe_start_pending :: "bool \<Rightarrow> refresh_state \<Rightarrow> task list \<times> refresh_state" where
  "maybe_start_pending shutdown r =
     (if shutdown then ([], r)
      else if rs_active r then ([], r)
      else if rs_pending r then
        ([RequestFull (case rs_pending_trigger r of Some t \<Rightarrow> t | None \<Rightarrow> Scheduled)],
         r\<lparr>rs_pending_trigger := None, rs_pending := False\<rparr>)
      else
        let start_account = rs_pending_account r \<and> \<not> lane_blocked AccountLane r;
            lanes_idle = (rs_quota r = None \<and> \<not> rs_usage r);
            quota = (if lanes_idle \<and> rs_pending_quota r
              then [RequestLane QuotaLane
                     (case rs_pending_quota_trigger r of Some t \<Rightarrow> t | None \<Rightarrow> Scheduled)
                     (sorted_list_of_set (rs_pending_quota_providers r))]
              else []);
            usage = (if lanes_idle \<and> rs_pending_usage r then [RequestLane UsageLane Scheduled []] else []);
            account = (if start_account then [RequestLane AccountLane Scheduled []] else [])
        in (quota @ usage @ account,
            if quota \<noteq> [] then r\<lparr>rs_pending_quota_providers := {}, rs_pending_quota_trigger := None\<rparr> else r))"

fun run_task :: "bool \<Rightarrow> task \<Rightarrow> refresh_state \<Rightarrow> task list \<times> refresh_state" where
  "run_task shutdown MaybeStartPending r = maybe_start_pending shutdown r"
| "run_task shutdown (RequestFull t) r = ([], snd (request_full t r))"
| "run_task shutdown (RequestLane lane t ps) r = ([], snd (request_lane lane t ps r))"

subsection \<open>Runs\<close>

record service =
  refresh :: refresh_state
  threads :: "task list list"
  shut_down :: bool
  passes :: "(provider_id list \<times> trigger) list"

definition service_start :: service where
  "service_start = \<lparr>refresh = refresh_idle, threads = [], shut_down = False, passes = []\<rparr>"

definition started_pass :: "refresh_state \<Rightarrow> refresh_state \<Rightarrow> (provider_id list \<times> trigger) list" where
  "started_pass before after =
     (case rs_quota after of Some pass \<Rightarrow> if rs_quota before = None then [pass] else [] | None \<Rightarrow> [])"

definition lane_running :: "lane \<Rightarrow> refresh_state \<Rightarrow> bool" where
  "lane_running lane r \<longleftrightarrow>
     (case lane of QuotaLane \<Rightarrow> rs_quota r \<noteq> None | UsageLane \<Rightarrow> rs_usage r | AccountLane \<Rightarrow> rs_account r)"

definition apply_task :: "task \<Rightarrow> service \<Rightarrow> task list \<times> service" where
  "apply_task task s =
     (case run_task (shut_down s) task (refresh s) of (todo, r) \<Rightarrow>
        (todo, s\<lparr>refresh := r, passes := passes s @ started_pass (refresh s) r\<rparr>))"

text \<open>
  The steps of the service. A request comes in at any time; a lane or a full refresh ends and its
  thread goes on to \<open>maybe_start_pending\<close>; a thread takes its next step. With \<open>spawn_fails\<close>, a
  thread may also fail to spawn, which clears the lane and does nothing more.
\<close>

inductive lane_step :: "bool \<Rightarrow> service \<Rightarrow> service \<Rightarrow> bool" for spawn_fails :: bool where
  request: "task \<noteq> MaybeStartPending \<Longrightarrow> lane_step spawn_fails s (snd (apply_task task s))"
| lane_ends: "lane_running lane (refresh s) \<Longrightarrow>
    lane_step spawn_fails s (s\<lparr>refresh := clear_lane lane (refresh s), threads := [MaybeStartPending] # threads s\<rparr>)"
| full_ends: "rs_active (refresh s) \<Longrightarrow>
    lane_step spawn_fails s (s\<lparr>refresh := (refresh s)\<lparr>rs_active := False\<rparr>, threads := [MaybeStartPending] # threads s\<rparr>)"
| thread_step: "threads s = before @ (task # tasks) # after \<Longrightarrow>
    apply_task task s = (todo, t) \<Longrightarrow>
    lane_step spawn_fails s (t\<lparr>threads := before @ (todo @ tasks) # after\<rparr>)"
| shuts_down: "lane_step spawn_fails s (s\<lparr>shut_down := True\<rparr>)"
| lane_spawn_fails: "spawn_fails \<Longrightarrow> lane_running lane (refresh s) \<Longrightarrow>
    lane_step spawn_fails s (s\<lparr>refresh := clear_lane lane (refresh s)\<rparr>)"
| full_spawn_fails: "spawn_fails \<Longrightarrow> rs_active (refresh s) \<Longrightarrow>
    lane_step spawn_fails s (s\<lparr>refresh := (refresh s)\<lparr>rs_active := False\<rparr>\<rparr>)"

inductive_cases lane_step_cases: "lane_step f s t"

inductive reachable :: "bool \<Rightarrow> service \<Rightarrow> bool" for spawn_fails :: bool where
  start: "reachable spawn_fails service_start"
| step: "reachable spawn_fails s \<Longrightarrow> lane_step spawn_fails s t \<Longrightarrow> reachable spawn_fails t"

subsection \<open>Invariants\<close>

definition exclusive :: "refresh_state \<Rightarrow> bool" where
  "exclusive r \<longleftrightarrow> (rs_active r \<longrightarrow> rs_quota r = None \<and> \<not> rs_usage r)"

definition owes :: "refresh_state \<Rightarrow> bool" where
  "owes r \<longleftrightarrow> rs_pending r \<or> rs_pending_quota r \<or> rs_pending_usage r \<or> rs_pending_account r"

definition running :: "refresh_state \<Rightarrow> bool" where
  "running r \<longleftrightarrow> rs_active r \<or> rs_quota r \<noteq> None \<or> rs_usage r \<or> rs_account r"

definition quiescent :: "service \<Rightarrow> bool" where
  "quiescent s \<longleftrightarrow> \<not> running (refresh s) \<and> list_all (\<lambda>tasks. tasks = []) (threads s)"

lemma run_task_exclusive: "exclusive r \<Longrightarrow> run_task sd task r = (todo, r') \<Longrightarrow> exclusive r'"
  by (cases task) (auto simp: exclusive_def request_full_def maybe_start_pending_def Let_def
      simp del: not_None_eq split: lane.splits if_splits)

lemma reachable_exclusive: "reachable f s \<Longrightarrow> exclusive (refresh s)"
proof (induction rule: reachable.induct)
  case start
  then show ?case by (simp add: service_start_def refresh_idle_def exclusive_def)
next
  case (step s t)
  from step(2,3) show ?case
  proof (cases rule: lane_step.cases)
    case (request task)
    then show ?thesis
      using run_task_exclusive [OF step(3)] by (auto simp: apply_task_def split: prod.splits)
  next
    case (thread_step before task tasks "after" todo u)
    then show ?thesis
      using run_task_exclusive [OF step(3)] by (auto simp: apply_task_def split: prod.splits)
  qed (auto simp: exclusive_def clear_lane_def split: lane.splits)
qed

text \<open>Every step of a thread leaves something running, something for the thread to do, or nothing
  owed.\<close>

definition attended :: "service \<Rightarrow> bool" where
  "attended s \<longleftrightarrow> shut_down s \<or> \<not> owes (refresh s) \<or> \<not> quiescent s"

lemma run_task_attends:
  "run_task False task r = (todo, r') \<Longrightarrow>
     running r' \<or> (task = MaybeStartPending \<and> (todo \<noteq> [] \<or> \<not> owes r'))"
  by (cases task) (auto simp: running_def owes_def request_full_def maybe_start_pending_def Let_def
      split: lane.splits if_splits)

lemma reachable_attended: "reachable False s \<Longrightarrow> attended s"
proof (induction rule: reachable.induct)
  case start
  then show ?case by (simp add: service_start_def refresh_idle_def attended_def owes_def)
next
  case (step s t)
  from step(2,3) show ?case
  proof (cases rule: lane_step.cases)
    case (request task)
    then show ?thesis
      using run_task_attends [of task "refresh s"]
      by (cases "shut_down s") (auto simp: apply_task_def attended_def quiescent_def split: prod.splits)
  next
    case (thread_step before task tasks "after" todo u)
    then show ?thesis
      using run_task_attends [of task "refresh s"]
      by (cases "shut_down s") (auto simp: apply_task_def attended_def quiescent_def split: prod.splits)
  qed (auto simp: attended_def quiescent_def)
qed

subsection \<open>What waits is carried, and what is only carried is lost\<close>

text \<open>A provider waits for a Quota pass while the state or a thread still names it.\<close>

fun task_names :: "provider_id \<Rightarrow> task \<Rightarrow> bool" where
  "task_names p (RequestLane QuotaLane t ps) \<longleftrightarrow> p \<in> set ps"
| "task_names p _ \<longleftrightarrow> False"

definition waits :: "provider_id \<Rightarrow> service \<Rightarrow> bool" where
  "waits p s \<longleftrightarrow> p \<in> rs_pending_quota_providers (refresh s)
     \<or> list_ex (list_ex (task_names p)) (threads s)"

lemma task_names_iff: "task_names p task \<longleftrightarrow> (\<exists>t ps. task = RequestLane QuotaLane t ps \<and> p \<in> set ps)"
  by (cases "(p, task)" rule: task_names.cases) auto

definition pass_takes :: "provider_id \<Rightarrow> (provider_id list \<times> trigger) list \<Rightarrow> bool" where
  "pass_takes p started \<longleftrightarrow> list_ex (\<lambda>(ps, t). p \<in> set ps) started"

lemma run_task_carries:
  assumes "run_task sd task r = (todo, r')"
    and "p \<in> rs_pending_quota_providers r \<or> task_names p task"
  shows "p \<in> rs_pending_quota_providers r' \<or> list_ex (task_names p) todo
    \<or> pass_takes p (started_pass r r')"
proof (cases task)
  case MaybeStartPending
  then show ?thesis using assms
    by (auto simp: maybe_start_pending_def Let_def split: if_splits)
next
  case (RequestFull t)
  then show ?thesis using assms by (auto simp: request_full_def split: if_splits)
next
  case (RequestLane lane t ps)
  then show ?thesis using assms
    by (cases lane) (auto simp: started_pass_def pass_takes_def split: if_splits option.splits)
qed

lemma apply_task_carries:
  assumes "apply_task task s = (todo, t)"
    and "p \<in> rs_pending_quota_providers (refresh s) \<or> task_names p task"
  shows "p \<in> rs_pending_quota_providers (refresh t) \<or> list_ex (task_names p) todo
    \<or> pass_takes p (drop (length (passes s)) (passes t))"
proof -
  from assms(1) have run: "run_task (shut_down s) task (refresh s) = (todo, refresh t)"
    and log: "drop (length (passes s)) (passes t) = started_pass (refresh s) (refresh t)"
    by (auto simp: apply_task_def split: prod.splits)
  from run_task_carries [OF run assms(2)] show ?thesis by (simp add: log)
qed

lemma apply_task_threads: "apply_task task s = (todo, t) \<Longrightarrow> threads t = threads s"
  by (auto simp: apply_task_def split: prod.splits)

lemma clear_lane_providers [simp]:
  "rs_pending_quota_providers (clear_lane lane r) = rs_pending_quota_providers r"
  by (simp add: clear_lane_def split: lane.splits)

lemma lane_step_carries:
  assumes "lane_step f s t" "waits p s"
  shows "waits p t \<or> pass_takes p (drop (length (passes s)) (passes t))"
  using assms
proof (induction rule: lane_step.induct)
  case (request task s)
  obtain todo u where app: "apply_task task s = (todo, u)" by fastforce
  then have "todo = []" using request(1)
    by (cases task) (auto simp: apply_task_def split: prod.splits)
  with app apply_task_carries [OF app, of p] apply_task_threads [OF app] request(2)
  show ?case by (fastforce simp: waits_def)
next
  case (thread_step s before task tasks "after" todo u)
  show ?case
  proof (cases "p \<in> rs_pending_quota_providers (refresh s) \<or> task_names p task")
    case True
    from apply_task_carries [OF thread_step(2) this] show ?thesis by (auto simp: waits_def)
  next
    case False
    with thread_step(1,3) show ?thesis by (auto simp: waits_def)
  qed
qed (auto simp: waits_def)

text \<open>A lane that ends and whose thread at once takes its last step.\<close>

definition end_lane :: "lane \<Rightarrow> service \<Rightarrow> service" where
  "end_lane lane s =
     (case apply_task MaybeStartPending (s\<lparr>refresh := clear_lane lane (refresh s)\<rparr>) of
        (todo, t) \<Rightarrow> t\<lparr>threads := todo # threads s\<rparr>)"

lemma reachable_end_lane:
  assumes "reachable f s" "lane_running lane (refresh s)"
  shows "reachable f (end_lane lane s)"
proof -
  let ?u = "s\<lparr>refresh := clear_lane lane (refresh s), threads := [MaybeStartPending] # threads s\<rparr>"
  obtain todo t where app: "apply_task MaybeStartPending ?u = (todo, t)" by fastforce
  have "reachable f ?u" using assms by (blast intro: reachable.step lane_ends)
  moreover have "lane_step f ?u (t\<lparr>threads := [] @ (todo @ []) # threads s\<rparr>)"
    by (rule thread_step [OF _ app]) simp
  ultimately have "reachable f (t\<lparr>threads := [] @ (todo @ []) # threads s\<rparr>)" by (rule reachable.step)
  moreover have "t\<lparr>threads := [] @ (todo @ []) # threads s\<rparr> = end_lane lane s"
    using app by (auto simp: end_lane_def apply_task_def split: prod.splits)
  ultimately show ?thesis by simp
qed

definition request_now :: "task \<Rightarrow> service \<Rightarrow> service" where
  "request_now task s = snd (apply_task task s)"

lemma reachable_request_now:
  "reachable f s \<Longrightarrow> task \<noteq> MaybeStartPending \<Longrightarrow> reachable f (request_now task s)"
  unfolding request_now_def by (rule reachable.step [OF _ request])

definition overtaken_demand :: service where
  "overtaken_demand =
     end_lane UsageLane (end_lane QuotaLane (
       request_now (RequestLane QuotaLane Scheduled [Codex]) (
       end_lane QuotaLane (
       request_now (RequestLane QuotaLane Demand [Claude]) (
       request_now (RequestLane UsageLane Scheduled []) (
       request_now (RequestLane QuotaLane Scheduled [Codex]) service_start))))))"

lemma overtaken_demand_eq:
  "overtaken_demand =
     \<lparr>refresh = refresh_idle\<lparr>rs_pending_quota_providers := {Claude},
        rs_pending_quota_trigger := Some Demand\<rparr>,
      threads = [[], [], []], shut_down = False,
      passes = [([Codex], Scheduled), ([Codex], Scheduled)]\<rparr>"
  by (simp add: overtaken_demand_def end_lane_def request_now_def apply_task_def service_start_def
      refresh_idle_def maybe_start_pending_def clear_lane_def started_pass_def)

lemma overtaken_demand_reachable: "reachable False overtaken_demand"
  unfolding overtaken_demand_def
  by (rule reachable_end_lane reachable_request_now reachable.start)+
    (simp_all add: end_lane_def request_now_def apply_task_def service_start_def refresh_idle_def
      maybe_start_pending_def clear_lane_def started_pass_def lane_running_def)

subsection \<open>The properties\<close>

text \<open>C16: in every reachable state, whatever the interleaving of requests, threads and spawn
  failures, a full refresh that is running has no Quota lane and no Usage lane beside it.\<close>

theorem full_refresh_runs_alone:
  assumes "reachable f s" "rs_active (refresh s)"
  shows "rs_quota (refresh s) = None \<and> \<not> rs_usage (refresh s)"
  using reachable_exclusive [OF assms(1)] assms(2) by (simp add: exclusive_def)

lemma full_refresh_runs_alone_witness:
  "rs_quota (refresh (request_now (RequestFull Manual) service_start)) = None
     \<and> \<not> rs_usage (refresh (request_now (RequestFull Manual) service_start))"
  by (rule full_refresh_runs_alone [OF reachable_request_now [OF reachable.start, of "RequestFull Manual" False]])
    (simp_all add: request_now_def apply_task_def service_start_def refresh_idle_def request_full_def)



text \<open>A provider whose Quota pass was blocked stays named, in the state or by a thread about to
  ask for the pass, until a Quota pass that reads it starts.\<close>

theorem blocked_provider_stays_named:
  assumes "lane_step f s t" "waits p s"
  shows "waits p t \<or> list_ex (\<lambda>(ps, trigger). p \<in> set ps) (drop (length (passes s)) (passes t))"
  using lane_step_carries [OF assms] by (simp add: pass_takes_def)

lemma blocked_provider_stays_named_witness:
  "waits Claude (overtaken_demand\<lparr>shut_down := True\<rparr>)
     \<or> list_ex (\<lambda>(ps, trigger). Claude \<in> set ps)
         (drop (length (passes overtaken_demand)) (passes (overtaken_demand\<lparr>shut_down := True\<rparr>)))"
  by (rule blocked_provider_stays_named [OF shuts_down [of False]])
    (simp add: waits_def overtaken_demand_eq)

text \<open>C19: being named is not being read. A Quota pass that starts for other providers while a blocked
  one is still pending clears \<open>pending_quota\<close> and keeps the providers and trigger the blocked pass
  owed. The service can come to rest, with every request answered and nothing pending, while the
  provider of a blocked demand pass is still named and no pass ever read it.\<close>

theorem overtaken_pass_is_lost:
  "\<exists>s. reachable False s \<and> \<not> shut_down s \<and> quiescent s \<and> \<not> rs_pending_quota (refresh s)
     \<and> rs_pending_quota_providers (refresh s) = {Claude}
     \<and> rs_pending_quota_trigger (refresh s) = Some Demand
     \<and> list_all (\<lambda>(ps, trigger). Claude \<notin> set ps) (passes s)"
  by (rule exI [of _ overtaken_demand], rule conjI, rule overtaken_demand_reachable)
    (simp add: overtaken_demand_eq quiescent_def running_def refresh_idle_def)

end
