(* ===== verification/Scheduler.thy ===== *)
theory Scheduler
  imports Lanes
begin

text \<open>
  The scheduler thread (\<open>run_scheduler\<close>, \<open>quota_refresh_settings\<close>, \<open>request_scheduled_lanes\<close>,
  \<open>reset_deadline_instant\<close> and \<open>store_next_due\<close> of \<open>packages/service/src/service/mod.rs\<close>). One turn of
  its loop is \<open>plan_sleep\<close>, a sleep, and \<open>on_signals\<close> or \<open>on_timeout\<close>. What it reads from the
  service and the clock at one instant is a \<open>surroundings\<close>; the jitter a restarted clock draws is
  the argument \<open>fresh\<close>; what it asks of the service is a list of actions. What the lemmas show: a
  pass asks only providers the gate admits, a wake that does not ask moves every due provider's
  tick ahead, and a tick keeps to its provider's interval.
\<close>

datatype scheduler_action =
  AskQuota "provider_id list" trigger | AskUsage | AskAccount | AskStatus | NoteHint "tier_hint option"

record provider_clock =
  clock_last :: int
  clock_jitter :: rat

record scheduler =
  next_account :: int
  next_status :: int
  clocks :: "(provider_id, provider_clock) btree"
  last_usage :: int
  agent_writes :: "(provider_id, int) btree"
  next_probe :: int
  gather_until :: "int option"

record surroundings =
  su_now :: int
  su_utc :: int
  su_quota :: "json option"
  su_records :: "(string, cadence_record) btree"
  su_cadence :: cadence_state

definition account_sync_interval :: int where "account_sync_interval = seconds 60"
definition provider_status_interval :: int where "provider_status_interval = seconds 600"
definition default_quota_refresh_interval :: int where "default_quota_refresh_interval = seconds 300"

text \<open>\<open>quota_refresh_settings\<close>; a setting that could not be read is \<open>None\<close>.\<close>

definition quota_refresh_settings :: "refresh_mode option \<Rightarrow> nat option \<Rightarrow> refresh_mode \<times> int" where
  "quota_refresh_settings mode s =
     (case mode of Some m \<Rightarrow> m | None \<Rightarrow> Automatic,
      case Option.bind s quota_refresh_interval of
        Some d \<Rightarrow> d | None \<Rightarrow> default_quota_refresh_interval)"

definition restart_clock :: "int \<Rightarrow> rat \<Rightarrow> provider_clock" where
  "restart_clock now drawn = \<lparr>clock_last = now, clock_jitter = drawn\<rparr>"

definition restart_all :: "int \<Rightarrow> (provider_id \<Rightarrow> rat) \<Rightarrow> scheduler \<Rightarrow> scheduler" where
  "restart_all now fresh s = s\<lparr>clocks := map (\<lambda>(p, _). (p, restart_clock now (fresh p))) (clocks s)\<rparr>"

definition scheduler_start :: "int \<Rightarrow> (provider_id \<Rightarrow> rat) \<Rightarrow> scheduler" where
  "scheduler_start start fresh =
     \<lparr>next_account = start + account_sync_interval, next_status = start + provider_status_interval,
      clocks = map (\<lambda>p. (p, restart_clock start (fresh p))) all_providers, last_usage = start,
      agent_writes = [], next_probe = start, gather_until = None\<rparr>"

subsection \<open>Planning a sleep\<close>

definition probe_agents :: "refresh_mode \<Rightarrow> int \<Rightarrow> (provider_id \<times> int) list \<Rightarrow> scheduler \<Rightarrow> scheduler" where
  "probe_agents mode now newest s =
     (if mode = Automatic \<and> next_probe s \<le> now
      then s\<lparr>agent_writes := fold (\<lambda>(p, t) writes. bt_put p
               (case bt_get writes p of Some u \<Rightarrow> max u t | None \<Rightarrow> t) writes) newest (agent_writes s),
             next_probe := now + account_sync_interval\<rparr>
      else s)"

definition plans_at ::
    "refresh_mode \<Rightarrow> int \<Rightarrow> surroundings \<Rightarrow> scheduler \<Rightarrow> (provider_id, provider_plan) btree \<times> tier_hint option" where
  "plans_at mode fixed su s =
     (case plan_intervals mode fixed (agent_writes s) (su_quota su) (su_records su) (su_utc su) (su_cadence su) of
        (plans, _, cadence) \<Rightarrow> (plans, cadence_hint cadence))"

definition due_at :: "(provider_id, provider_plan) btree \<Rightarrow> (provider_id, int) btree \<Rightarrow> provider_id \<Rightarrow> provider_clock \<Rightarrow> int" where
  "due_at plans earliest p clock =
     (let interval = (case bt_get plans p of Some plan \<Rightarrow> pp_interval plan | None \<Rightarrow> normal_interval);
          due = clock_last clock + jittered interval (clock_jitter clock)
      in case bt_get earliest p of Some t \<Rightarrow> max due t | None \<Rightarrow> due)"

definition next_dues ::
    "(provider_id, provider_plan) btree \<Rightarrow> (provider_id, int) btree \<Rightarrow> (provider_id, provider_clock) btree \<Rightarrow>
     (provider_id, int) btree" where
  "next_dues plans earliest cs = map (\<lambda>(p, clock). (p, due_at plans earliest p clock)) cs"

record sleep_plan =
  sl_dues :: "(provider_id, int) btree"
  sl_kind :: scheduler_wake
  sl_until :: int
  sl_probing :: bool

definition plan_sleep ::
    "refresh_mode \<Rightarrow> int \<Rightarrow> (provider_id \<times> int) list \<Rightarrow> surroundings \<Rightarrow> scheduler_plan \<Rightarrow> scheduler \<Rightarrow>
     sleep_plan \<times> scheduler_action list \<times> scheduler_plan \<times> scheduler" where
  "plan_sleep mode fixed newest su plan s =
     (let now = su_now su;
          s = probe_agents mode now newest s;
          (plans, hint) = plans_at mode fixed su s;
          dues = next_dues plans (earliest_asks plans (su_utc su) now) (clocks s);
          next_quota = (case list_min (map snd dues) of Some t \<Rightarrow> t | None \<Rightarrow> now + fixed);
          next_quota = (case gather_until s of Some t \<Rightarrow> max next_quota t | None \<Rightarrow> next_quota);
          plan = plan\<lparr>plan_next_due := dues\<rparr>;
          reset_at = map_option (\<lambda>t. instant_from_utc t (su_utc su) now) (plan_reset_at plan);
          (kind, wake_at) = next_wake (next_account s) next_quota reset_at (next_status s);
          probing = (mode = Automatic \<and> next_probe s < wake_at)
      in (\<lparr>sl_dues = dues, sl_kind = kind, sl_until = if probing then next_probe s else wake_at,
           sl_probing = probing\<rparr>, [NoteHint hint], plan, s))"

subsection \<open>Waking\<close>

record signals =
  sg_recalculate :: bool
  sg_cadence_changed :: bool
  sg_demand :: bool

definition signals_idle :: "signals \<Rightarrow> bool" where
  "signals_idle g \<longleftrightarrow> \<not> sg_recalculate g \<and> \<not> sg_cadence_changed g \<and> \<not> sg_demand g"

definition on_signals ::
    "signals \<Rightarrow> int \<Rightarrow> (provider_id \<Rightarrow> rat) \<Rightarrow> scheduler \<Rightarrow> scheduler_action list \<times> scheduler" where
  "on_signals g now fresh s =
     (let s = (if sg_cadence_changed g then restart_all now fresh s else s) in
      if sg_demand g
      then ([AskQuota all_providers Demand],
            (restart_all now fresh s)\<lparr>next_account := now + account_sync_interval\<rparr>)
      else ([], s))"

definition request_scheduled_lanes :: "provider_id list \<Rightarrow> bool \<Rightarrow> scheduler_action list" where
  "request_scheduled_lanes due usage =
     (if due \<noteq> [] then [AskQuota due Scheduled] else []) @ (if usage then [AskUsage] else [])"

definition quota_wake ::
    "refresh_mode \<Rightarrow> int \<Rightarrow> surroundings \<Rightarrow> (provider_id, int) btree \<Rightarrow> (provider_id \<Rightarrow> rat) \<Rightarrow> scheduler \<Rightarrow>
     scheduler_action list \<times> scheduler" where
  "quota_wake mode fixed su dues fresh s =
     (let now = su_now su;
          due = due_providers dues now;
          (plans, hint) = plans_at mode fixed su s;
          earliest = earliest_asks plans (su_utc su) now;
          gather = (if gather_until s = None then shared_pass_at due earliest now else None)
      in case gather of
           Some t \<Rightarrow> ([NoteHint hint], s\<lparr>gather_until := Some t\<rparr>)
         | None \<Rightarrow>
             let due = filter (\<lambda>p. case bt_get earliest p of None \<Rightarrow> True | Some t \<Rightarrow> t \<le> now) due;
                 s = s\<lparr>gather_until := None,
                       clocks := fold (\<lambda>p. bt_put p (restart_clock now (fresh p))) due (clocks s)\<rparr>;
                 s = (if due \<noteq> [] then s\<lparr>next_account := now + account_sync_interval\<rparr> else s);
                 usage_interval = (case mode of Fixed \<Rightarrow> fixed | Automatic \<Rightarrow> normal_interval);
                 usage = (last_usage s + usage_interval \<le> now + due_slack)
             in (NoteHint hint # request_scheduled_lanes due usage,
                 if usage then s\<lparr>last_usage := now\<rparr> else s))"

definition on_timeout ::
    "refresh_mode \<Rightarrow> int \<Rightarrow> sleep_plan \<Rightarrow> surroundings \<Rightarrow> (provider_id \<Rightarrow> rat) \<Rightarrow> scheduler_plan \<Rightarrow> scheduler \<Rightarrow>
     scheduler_action list \<times> scheduler_plan \<times> scheduler" where
  "on_timeout mode fixed sleep su fresh plan s =
     (if sl_probing sleep then ([], plan, s)
      else case sl_kind sleep of
        WakeAccount \<Rightarrow> ([AskAccount], plan, s\<lparr>next_account := su_now su + account_sync_interval\<rparr>)
      | WakeQuota \<Rightarrow>
          (case quota_wake mode fixed su (sl_dues sleep) fresh s of (actions, s) \<Rightarrow> (actions, plan, s))
      | WakeResetBoundary \<Rightarrow>
          (case mark_reset_attempted plan of
             (ps, plan) \<Rightarrow> ([AskQuota (sorted_list_of_set ps) Scheduled], plan, s))
      | WakeProviderStatus \<Rightarrow>
          ([AskStatus], plan, s\<lparr>next_status := su_now su + provider_status_interval\<rparr>))"

text \<open>Why the sleep ended: a signal was posted, the time was up, or neither. A turn that finds the
  service shut down ends the loop.\<close>

datatype sleep_end = Posted signals | TimeUp | Early

definition scheduler_turn ::
    "refresh_mode \<Rightarrow> int \<Rightarrow> (provider_id \<times> int) list \<Rightarrow> surroundings \<Rightarrow> sleep_end \<Rightarrow> surroundings \<Rightarrow>
     (provider_id \<Rightarrow> rat) \<Rightarrow> scheduler_plan \<Rightarrow> scheduler \<Rightarrow>
     scheduler_action list \<times> scheduler_plan \<times> scheduler" where
  "scheduler_turn mode fixed newest before ended after fresh plan s =
     (case plan_sleep mode fixed newest before plan s of
        (sleep, actions, plan, s) \<Rightarrow>
          (case ended of
             Posted g \<Rightarrow>
               if signals_idle g then (actions, plan, s)
               else (case on_signals g (su_now after) fresh s of (asked, s) \<Rightarrow> (actions @ asked, plan, s))
           | TimeUp \<Rightarrow>
               (case on_timeout mode fixed sleep after fresh plan s of
                  (asked, plan, s) \<Rightarrow> (actions @ asked, plan, s))
           | Early \<Rightarrow> (actions, plan, s)))"

subsection \<open>Plans and clocks\<close>

lemma bt_get_map: "bt_get (map (\<lambda>(k, v). (k, f k v)) m) k = map_option (f k) (bt_get m k)"
  by (induction m) auto

lemma bt_get_tabulate: "bt_get (map (\<lambda>k. (k, f k)) ks) k = (if k \<in> set ks then Some (f k) else None)"
  by (induction ks) auto

lemma bt_get_next_dues [simp]:
  "bt_get (next_dues plans earliest cs) p = map_option (due_at plans earliest p) (bt_get cs p)"
  by (simp add: next_dues_def bt_get_map)

lemma bt_get_earliest:
  assumes "distinct (map fst plans)"
  shows "bt_get (earliest_asks plans utc now) p =
    map_option (\<lambda>t. instant_from_utc t utc now) (Option.bind (bt_get plans p) pp_not_before)"
proof -
  have "bt_get (earliest_asks plans utc now) p = None" if "p \<notin> fst ` set plans" for plans
    using that by (induction plans) (auto simp: earliest_asks_def map_filter_simps split: option.splits)
  note absent = this
  have nothing: "bt_get plans p = None" if "p \<notin> fst ` set plans" for plans
    using that by (simp add: bt_get_None)
  show ?thesis using assms
  proof (induction plans)
    case (Cons e plans)
    then show ?case using absent [of plans] nothing [of plans]
      by (cases e) (auto simp: earliest_asks_def map_filter_simps split: option.splits)
  qed (simp add: earliest_asks_def map_filter_simps)
qed

definition plan_for :: "refresh_mode \<Rightarrow> int \<Rightarrow> surroundings \<Rightarrow> scheduler \<Rightarrow> provider_id \<Rightarrow> provider_plan" where
  "plan_for mode fixed su s p =
     plan_interval mode fixed (agent_writes s) (su_quota su) (last_demand (su_cadence su)) (su_records su) (su_utc su) p"

lemma plans_at_fst: "fst (plans_at mode fixed su s) = map (\<lambda>p. (p, plan_for mode fixed su s p)) all_providers"
  by (simp add: plans_at_def plan_intervals_def plan_for_def Let_def)

lemma bt_get_plans_at [simp]: "bt_get (fst (plans_at mode fixed su s)) p = Some (plan_for mode fixed su s p)"
  by (simp add: plans_at_fst bt_get_tabulate all_providers_complete)

lemma bt_get_earliest_at [simp]:
  "bt_get (earliest_asks (fst (plans_at mode fixed su s)) utc now) p =
     map_option (\<lambda>t. instant_from_utc t utc now) (pp_not_before (plan_for mode fixed su s p))"
proof -
  have "distinct (map fst (fst (plans_at mode fixed su s)))"
    by (simp add: plans_at_fst comp_def all_providers_def)
  then show ?thesis by (simp add: bt_get_earliest)
qed

lemma bt_get_restarted:
  "bt_get (fold (\<lambda>p. bt_put p (f p)) ps m) p = (if p \<in> set ps then Some (f p) else bt_get m p)"
  by (induction ps arbitrary: m) (auto simp: bt_simps)

definition paced :: "int \<Rightarrow> bool" where
  "paced d \<longleftrightarrow> (\<exists>k. d = seconds k \<and> 60 \<le> k \<and> k \<le> 900)"

lemma pacedI: "60 \<le> k \<Longrightarrow> k \<le> 900 \<Longrightarrow> paced (seconds k)"
  by (auto simp: paced_def)

lemma paced_max: "paced a \<Longrightarrow> paced b \<Longrightarrow> paced (max a b)"
  by (simp add: max_def)

lemma paced_fixed:
  assumes "quota_refresh_settings m secs = (mode, fixed)"
  shows "paced fixed"
  using assms
  by (auto simp: quota_refresh_settings_def quota_refresh_interval_def default_quota_refresh_interval_def
      pacedI bind_eq_Some_conv split: option.splits if_splits)

lemma paced_floor: "paced (floor_for p r account now)"
proof -
  have "paced (min_interval p)" by (cases p) (simp_all add: min_interval_def pacedI)
  moreover have "paced rate_limited_floor" by (simp add: rate_limited_floor_def pacedI)
  ultimately show ?thesis by (simp add: floor_for_def paced_max split: option.split)
qed

lemma plan_for_paced:
  assumes "quota_refresh_settings m secs = (mode, fixed)"
  shows "paced (pp_interval (plan_for mode fixed su s p))"
proof -
  have "paced active_interval" "paced normal_interval" "paced idle_interval"
    by (simp_all add: active_interval_def normal_interval_def idle_interval_def pacedI)
  with paced_fixed [OF assms]
  have "paced (case mode of Fixed \<Rightarrow> fixed | Automatic \<Rightarrow>
      (case tier of Active \<Rightarrow> active_interval | Normal \<Rightarrow> normal_interval | Idle \<Rightarrow> idle_interval))" for tier
    by (simp split: refresh_mode.split refresh_tier.split)
  then have "paced (interval_of (floor_for p r account now) mode fixed tier)" for r account now tier
    unfolding interval_of_def by (rule paced_max) (rule paced_floor)
  then show ?thesis by (simp add: plan_for_def plan_interval_def Let_def split: prod.split)
qed

lemma paced_jittered:
  assumes "paced d"
  shows "10 * \<bar>jittered d unit - d\<bar> \<le> d + 20" "0 < jittered d unit"
proof -
  from assms obtain k where k: "d = seconds k" "60 \<le> k" "k \<le> 900" by (auto simp: paced_def)
  then show near: "10 * \<bar>jittered d unit - d\<bar> \<le> d + 20" by (simp add: jittered_near)
  from k have "60000000000 \<le> d" by (simp add: seconds_def)
  with near abs_ge_minus_self [of "jittered d unit - d"] show "0 < jittered d unit"
    by (simp only: minus_diff_eq) presburger
qed

subsection \<open>Properties\<close>

definition sample_surroundings :: surroundings where
  "sample_surroundings = \<lparr>su_now = 1000000000000, su_utc = 5000000000000, su_quota = None,
     su_records = [(''codex'', cadence_record_default\<lparr>last_attempt_at := Some 4000000000000\<rparr>)],
     su_cadence = \<lparr>cadence_hint = None, answered_demand = None, last_demand = None,
       last_complete_collection = None\<rparr>\<rparr>"

definition sample_scheduler :: scheduler where
  "sample_scheduler = (scheduler_start 0 (\<lambda>_. 0))\<lparr>clocks := [(Codex, restart_clock 0 0)]\<rparr>"

lemma instant_from_utc_due:
  "instant_from_utc t utc now \<le> now \<longleftrightarrow> t - utc < 1000000"
  by (auto simp: instant_from_utc_def milliseconds_toward_zero_def Let_def)

lemma admitted_later:
  assumes ripe: "case not_before p r account now of None \<Rightarrow> True | Some t \<Rightarrow> t \<le> later" and "now \<le> later"
  shows "admitted False later p \<lparr>gi_record = r, gi_account = account, gi_read_elsewhere = False\<rparr>"
proof (cases r)
  case (Some held)
  have eases: "floor_for p r account later \<le> floor_for p r account now"
    using \<open>now \<le> later\<close> by (auto simp: floor_for_def split: option.splits)
  have "0 \<le> floor_for p r account later"
    using floor_for_ge [of p r account later] min_interval_pos [of p] by (simp add: seconds_def)
  with eases ripe Some show ?thesis
    by (auto simp: not_before_def admitted_def Let_def max_option_le age_of_def split: option.splits if_splits)
qed (simp add: admitted_def)

text \<open>The providers a Quota wake keeps of those due.\<close>

definition ripe_dues ::
    "refresh_mode \<Rightarrow> int \<Rightarrow> surroundings \<Rightarrow> (provider_id, int) btree \<Rightarrow> scheduler \<Rightarrow> provider_id list" where
  "ripe_dues mode fixed su dues s =
     filter (\<lambda>p. case pp_not_before (plan_for mode fixed su s p) of
         None \<Rightarrow> True | Some t \<Rightarrow> t - su_utc su < 1000000) (due_providers dues (su_now su))"

lemma quota_wake_cases:
  assumes "quota_wake mode fixed su dues fresh s = (actions, s')"
  obtains (gathers) t h where "gather_until s = None" "su_now su < t" "t \<le> su_now su + due_slack"
      "actions = [NoteHint h]" "s' = s\<lparr>gather_until := Some t\<rparr>"
    | (asks) h usage where "gather_until s' = None"
      "clocks s' = fold (\<lambda>p. bt_put p (restart_clock (su_now su) (fresh p))) (ripe_dues mode fixed su dues s) (clocks s)"
      "actions = NoteHint h # request_scheduled_lanes (ripe_dues mode fixed su dues s) usage"
proof -
  obtain plans h where plans: "plans_at mode fixed su s = (plans, h)" by fastforce
  let ?earliest = "earliest_asks plans (su_utc su) (su_now su)"
  have ripe: "filter (\<lambda>p. case bt_get ?earliest p of None \<Rightarrow> True | Some t \<Rightarrow> t \<le> su_now su)
      (due_providers dues (su_now su)) = ripe_dues mode fixed su dues s"
    using bt_get_earliest_at [of mode fixed su s "su_utc su" "su_now su"]
    unfolding ripe_dues_def plans fst_conv
    by (intro filter_cong refl) (simp add: instant_from_utc_due split: option.splits)
  define usage where "usage \<longleftrightarrow>
    last_usage s + (case mode of Fixed \<Rightarrow> fixed | Automatic \<Rightarrow> normal_interval) \<le> su_now su + due_slack"
  show thesis
  proof (cases "if gather_until s = None
      then shared_pass_at (due_providers dues (su_now su)) ?earliest (su_now su) else None")
    case (Some t)
    then have "gather_until s = None" and
      "list_max (filter (\<lambda>t. su_now su < t \<and> t \<le> su_now su + due_slack)
         (List.map_filter (bt_get ?earliest) (due_providers dues (su_now su)))) = Some t"
      by (simp_all add: shared_pass_at_def split: if_splits)
    from this(1) list_max_Some [OF this(2)] show thesis
      using assms Some by (intro gathers) (auto simp: quota_wake_def plans Let_def)
  next
    case None
    let ?next = "s\<lparr>gather_until := None, clocks := fold (\<lambda>p. bt_put p (restart_clock (su_now su) (fresh p)))
      (ripe_dues mode fixed su dues s) (clocks s)\<rparr>"
    from assms None have
      "actions = NoteHint h # request_scheduled_lanes (ripe_dues mode fixed su dues s) usage \<and>
       s' \<in> {?next, ?next\<lparr>last_usage := su_now su\<rparr>,
         ?next\<lparr>next_account := su_now su + account_sync_interval\<rparr>,
         ?next\<lparr>next_account := su_now su + account_sync_interval, last_usage := su_now su\<rparr>}"
      unfolding quota_wake_def plans Let_def prod.case ripe usage_def
      by (simp split: if_splits) auto
    then show thesis by (intro asks [of h usage]) auto
  qed
qed



text \<open>C21: A Quota wake makes progress for every provider it found due. Either the pass waits, once,
  for a floor that ends within thirty seconds, or the provider's next tick is in the future.\<close>

theorem quota_wake_makes_progress:
  assumes "quota_refresh_settings m secs = (mode, fixed)"
    and "quota_wake mode fixed su (next_dues plans earliest (clocks s)) fresh s = (actions, s')"
    and "p \<in> set (due_providers (next_dues plans earliest (clocks s)) (su_now su))"
  shows "(\<exists>t. gather_until s = None \<and> gather_until s' = Some t \<and> su_now su < t \<and> t \<le> su_now su + due_slack)
    \<or> (\<exists>t. gather_until s' = None \<and> su_now su < t \<and>
         bt_get (next_dues (fst (plans_at mode fixed su s))
           (earliest_asks (fst (plans_at mode fixed su s)) (su_utc su) (su_now su)) (clocks s')) p = Some t)"
  using assms(2)
proof (cases rule: quota_wake_cases)
  case (asks h usage)
  let ?plan = "plan_for mode fixed su s p"
  have "fst ` set (next_dues plans earliest (clocks s)) = fst ` set (clocks s)"
    by (force simp: next_dues_def)
  with assms(3) have "p \<in> fst ` set (clocks s)" by (force simp: due_providers_def)
  then obtain c where c: "bt_get (clocks s) p = Some c" by (metis bt_get_None not_None_eq)
  show ?thesis
  proof (cases "p \<in> set (ripe_dues mode fixed su (next_dues plans earliest (clocks s)) s)")
    case True
    with asks c paced_jittered(2) [OF plan_for_paced [OF assms(1)], of su s p "fresh p"] show ?thesis
      by (auto simp: bt_get_restarted due_at_def restart_clock_def Let_def split: option.splits)
  next
    case False
    then obtain t where t: "pp_not_before ?plan = Some t" "\<not> t - su_utc su < 1000000"
      using assms(3) by (auto simp: ripe_dues_def split: option.splits)
    then have "su_now su < instant_from_utc t (su_utc su) (su_now su)"
      using instant_from_utc_due [of t "su_utc su" "su_now su"] by simp
    with asks c False t show ?thesis
      by (auto simp: bt_get_restarted due_at_def Let_def less_max_iff_disj)
  qed
qed auto

theorem quota_wake_makes_progress_witness:
  "(\<exists>t. gather_until sample_scheduler = None \<and>
      gather_until (snd (quota_wake Automatic (seconds 300) sample_surroundings
        (next_dues [] [] (clocks sample_scheduler)) (\<lambda>_. 0) sample_scheduler)) = Some t \<and>
      su_now sample_surroundings < t \<and> t \<le> su_now sample_surroundings + due_slack)
    \<or> (\<exists>t. gather_until (snd (quota_wake Automatic (seconds 300) sample_surroundings
        (next_dues [] [] (clocks sample_scheduler)) (\<lambda>_. 0) sample_scheduler)) = None \<and>
      su_now sample_surroundings < t \<and>
      bt_get (next_dues (fst (plans_at Automatic (seconds 300) sample_surroundings sample_scheduler))
        (earliest_asks (fst (plans_at Automatic (seconds 300) sample_surroundings sample_scheduler))
          (su_utc sample_surroundings) (su_now sample_surroundings))
        (clocks (snd (quota_wake Automatic (seconds 300) sample_surroundings
          (next_dues [] [] (clocks sample_scheduler)) (\<lambda>_. 0) sample_scheduler)))) Codex = Some t)"
proof (rule quota_wake_makes_progress)
  let ?wake = "quota_wake Automatic (seconds 300) sample_surroundings
    (next_dues [] [] (clocks sample_scheduler)) (\<lambda>_. 0) sample_scheduler"
  show "quota_refresh_settings None None = (Automatic, seconds 300)"
    by (simp add: quota_refresh_settings_def default_quota_refresh_interval_def)
  show "?wake = (fst ?wake, snd ?wake)" by simp
  show "Codex \<in> set (due_providers (next_dues [] [] (clocks sample_scheduler)) (su_now sample_surroundings))"
    by code_simp
qed

text \<open>A provider's next tick is its interval after the pass that last included it, moved by at
  most a tenth either way (and two nanoseconds of rounding), and not before the first instant the
  provider may be asked.\<close>

theorem tick_keeps_to_interval:
  assumes "quota_refresh_settings m secs = (mode, fixed)" "bt_get (clocks s) p = Some clock"
  shows "\<exists>due. bt_get (next_dues (fst (plans_at mode fixed su s))
        (earliest_asks (fst (plans_at mode fixed su s)) (su_utc su) (su_now su)) (clocks s)) p =
      Some (case pp_not_before (plan_for mode fixed su s p) of
        None \<Rightarrow> due | Some t \<Rightarrow> max due (instant_from_utc t (su_utc su) (su_now su)))
    \<and> 10 * \<bar>due - (clock_last clock + pp_interval (plan_for mode fixed su s p))\<bar>
        \<le> pp_interval (plan_for mode fixed su s p) + 20"
  using assms(2) paced_jittered(1) [OF plan_for_paced [OF assms(1)], of su s p "clock_jitter clock"]
  by (intro exI [of _ "clock_last clock + jittered (pp_interval (plan_for mode fixed su s p)) (clock_jitter clock)"])
    (simp add: due_at_def Let_def split: option.splits)

theorem tick_keeps_to_interval_witness:
  "\<exists>due. bt_get (next_dues (fst (plans_at Automatic (seconds 300) sample_surroundings sample_scheduler))
        (earliest_asks (fst (plans_at Automatic (seconds 300) sample_surroundings sample_scheduler))
          (su_utc sample_surroundings) (su_now sample_surroundings)) (clocks sample_scheduler)) Codex =
      Some (case pp_not_before (plan_for Automatic (seconds 300) sample_surroundings sample_scheduler Codex) of
        None \<Rightarrow> due | Some t \<Rightarrow>
          max due (instant_from_utc t (su_utc sample_surroundings) (su_now sample_surroundings)))
    \<and> 10 * \<bar>due - (clock_last (restart_clock 0 0) +
          pp_interval (plan_for Automatic (seconds 300) sample_surroundings sample_scheduler Codex))\<bar>
        \<le> pp_interval (plan_for Automatic (seconds 300) sample_surroundings sample_scheduler Codex) + 20"
proof (rule tick_keeps_to_interval)
  show "quota_refresh_settings None None = (Automatic, seconds 300)"
    by (simp add: quota_refresh_settings_def default_quota_refresh_interval_def)
qed (simp add: sample_scheduler_def)

end
