(* ===== verification/Observation.thy ===== *)
theory Observation
  imports Json
begin

text \<open>
  What one quota reading still says (\<open>packages/service/src/observation.rs\<close>) and whether a window's
  burn rate lasts to its reset (\<open>packages/service/src/pace.rs\<close>). What the lemmas show: exactly when
  a reading is current, and that a window that runs out does so before its reset.
\<close>

definition max_snapshot_validity_seconds :: int where "max_snapshot_validity_seconds = 86400"

definition try_seconds :: "int \<Rightarrow> int option" where
  "try_seconds s = (if - ((2 ^ 63 - 1) div 1000) \<le> s \<and> s \<le> (2 ^ 63 - 1) div 1000 then Some (s * 1000000000) else None)"

definition snapshot_valid_until :: "externs \<Rightarrow> json \<Rightarrow> int option" where
  "snapshot_valid_until x snapshot =
     Option.bind (instant x (json_get ''observed_at'' snapshot)) (\<lambda>observed.
     Option.bind (checked_add_instant x observed (max_snapshot_validity_seconds * 1000000000)) (\<lambda>limit.
       let windows = members_of ''windows'' snapshot;
           earliest_reset = list_min (filter (\<lambda>reset. observed < reset)
             (List.map_filter (\<lambda>window. instant x (json_get ''resets_at'' window)) windows));
           shortest_cadence = Option.bind (list_min
             (List.map_filter (\<lambda>window. Option.bind (json_get ''duration_seconds'' window) as_i64) windows))
             (\<lambda>s. Option.bind (try_seconds s) (checked_add_instant x observed))
       in Some (case (case earliest_reset of None \<Rightarrow> shortest_cadence | Some r \<Rightarrow> Some r) of
            None \<Rightarrow> limit | Some boundary \<Rightarrow> min boundary limit)))"

definition snapshot_is_current :: "externs \<Rightarrow> json \<Rightarrow> int \<Rightarrow> bool" where
  "snapshot_is_current x snapshot now \<longleftrightarrow>
     str_member ''status'' snapshot = Some ''available'' \<and>
     (case snapshot_valid_until x snapshot of None \<Rightarrow> False | Some valid_until \<Rightarrow> now < valid_until)"

subsection \<open>Pace\<close>

definition minimum_pace_elapsed_fraction :: rat where "minimum_pace_elapsed_fraction = round_f64 (5 / 100)"
definition minimum_pace_used_percent :: rat where "minimum_pace_used_percent = 2"
definition maximum_pace_projection_percent :: rat where "maximum_pace_projection_percent = 999"
definition pace_on_track_low :: rat where "pace_on_track_low = round_f64 (9 / 10)"
definition pace_on_track_high :: rat where "pace_on_track_high = round_f64 (11 / 10)"

definition elapsed_fraction :: "int \<Rightarrow> int \<Rightarrow> int \<Rightarrow> rat" where
  "elapsed_fraction now window_start s =
     clamp 0 1 (round_f64 (round_f64 (round_f64 (of_int (milliseconds_toward_zero (now - window_start))) / 1000)
       / round_f64 (of_int s)))"

definition pace_none :: json where "pace_none = JObj [(''kind'', JStr ''none'')]"

definition pace_tempo :: "rat \<Rightarrow> string" where
  "pace_tempo ratio =
     (if pace_on_track_high < ratio then ''ahead'' else if ratio < pace_on_track_low then ''behind''
      else ''on_track'')"

definition exhausts_offset :: "int \<Rightarrow> rat \<Rightarrow> rat \<Rightarrow> int" where
  "exhausts_offset s used elapsed =
     round_half_away (round_f64 (round_f64 (round_f64 (of_int s) * round_f64 (100 / used)) * elapsed))"

definition window_pace :: "externs \<Rightarrow> json \<Rightarrow> int \<Rightarrow> json" where
  "window_pace x window now =
     (case (instant x (json_get ''resets_at'' window),
            Option.bind (json_get ''duration_seconds'' window) as_i64,
            Option.bind (json_get ''used_percent'' window) as_f64) of
        (Some resets_at, Some s, Some used) \<Rightarrow>
          let is_a_number = (\<lambda>key. case json_get key window of None \<Rightarrow> False | Some v \<Rightarrow> is_number v);
              balance_only = (is_a_number ''remaining_value'' \<and> \<not> is_a_number ''limit_value'')
          in
          if s \<le> 0 \<or> balance_only then pace_none
          else
            let window_start = resets_at - s * 1000000000;
                elapsed = elapsed_fraction now window_start s
            in
            if elapsed < minimum_pace_elapsed_fraction \<or> used < minimum_pace_used_percent then pace_none
            else
              let projected = min (round_f64 (used / elapsed)) maximum_pace_projection_percent;
                  ratio = round_f64 (projected / 100);
                  delta = round_half_away (round_f64 (round_f64 (ratio - 1) * 100));
                  stated = [(''tempo'', JStr (pace_tempo ratio)), (''delta_percent'', JInt delta),
                    (''projected_at_reset'', JFloat projected)]
              in
              if projected \<le> 100 then JObj ((''kind'', JStr ''lasts'') # stated)
              else
                let exhausts_at = window_start + exhausts_offset s used elapsed * 1000000000
                in JObj ((''kind'', JStr ''runs_out'') # stated @
                     [(''exhausts_at'', JStr (secs_text x (exhausts_at div 1000000000)))])
      | _ \<Rightarrow> pace_none)"

definition map_windows :: "(json \<Rightarrow> json) \<Rightarrow> json \<Rightarrow> json" where
  "map_windows f snapshot =
     (case Option.bind (json_get ''windows'' snapshot) as_array of
        None \<Rightarrow> snapshot | Some windows \<Rightarrow> json_insert ''windows'' (JArr (map f windows)) snapshot)"

definition snapshot_with_pace :: "externs \<Rightarrow> json \<Rightarrow> int \<Rightarrow> json" where
  "snapshot_with_pace x snapshot now =
     map_windows (\<lambda>window. json_insert ''pace'' (window_pace x window now) window) snapshot"

subsection \<open>A window that runs out does so before its reset\<close>

lemma elapsed_fraction_bounds: "0 \<le> elapsed_fraction now start s" "elapsed_fraction now start s \<le> 1"
  by (simp_all add: elapsed_fraction_def clamp_def)

lemma exhausts_offset_bounds:
  assumes s: "1 \<le> s" "s \<le> 2 ^ 48" and e: "0 < e" "e \<le> 1" and used: "0 < used"
    and spent: "100 < round_f64 (used / e)"
  shows "0 \<le> exhausts_offset s used e" "exhausts_offset s used e \<le> s"
proof -
  let ?d = "power_of_two (- 53)" and ?t = "power_of_two (- 1075)" and ?s = "of_int s :: rat"
  have d: "?d = 1 / 9007199254740992" by (simp add: power_of_two_def)
  have t: "0 < ?t" "?t \<le> ?d" by (simp_all add: power_of_two_mono)
  have s1: "1 \<le> ?s" "?s \<le> 2 ^ 48" using s by (simp_all flip: of_int_power add: of_int_le_iff)
  define a b where "a = round_f64 ?s" and "b = round_f64 (100 / used)"
  have a: "0 \<le> a" "a \<le> ?s * (1 + ?d)"
    using round_f64_nonneg [of ?s] round_f64_within [of ?s ?s] s1 by (simp_all add: a_def distrib_left)
  define w where "w = used / e"
  have w: "0 < w" using used e by (simp add: w_def)
  have big_w: "100 < w * (1 + ?d) + ?t"
    using spent round_f64_upper [of w] w by (simp add: w_def)
  have "?t \<le> ?d * w"
  proof (rule ccontr)
    assume "\<not> ?thesis"
    with t have "?d * w < ?d" by linarith
    then have "w < 1" by (simp add: d)
    with big_w t show False by (simp add: d)
  qed
  with big_w have "100 < w * (1 + 2 * ?d)" by (simp add: algebra_simps)
  then have ce: "100 / used * e \<le> 1 + 2 * ?d"
    using used e by (simp add: w_def field_simps)
  have b: "0 \<le> b" "b \<le> 100 / used * (1 + ?d) + ?t"
    using round_f64_nonneg [of "100 / used"] round_f64_upper [of "100 / used"] used by (simp_all add: b_def)
  have "b * e \<le> (100 / used * (1 + ?d) + ?t) * e" using b e by (intro mult_right_mono) simp_all
  also have "\<dots> = 100 / used * e * (1 + ?d) + ?t * e" by (simp add: algebra_simps add_divide_distrib)
  also have "\<dots> \<le> (1 + 2 * ?d) * (1 + ?d) + ?d * 1"
    by (intro add_mono mult_mono ce) (use e t used in \<open>simp_all add: d\<close>)
  also have "\<dots> \<le> 1 + 5 * ?d" by (simp add: d)
  finally have be: "b * e \<le> 1 + 5 * ?d" .
  define p where "p = round_f64 (a * b)"
  have p: "0 \<le> p" "p \<le> a * b * (1 + ?d) + ?t"
    using round_f64_nonneg [of "a * b"] round_f64_upper [of "a * b"] a b by (simp_all add: p_def)
  have "p * e \<le> (a * b * (1 + ?d) + ?t) * e" using p e by (intro mult_right_mono) simp_all
  also have "\<dots> = a * (b * e) * (1 + ?d) + ?t * e" by (simp add: algebra_simps)
  also have "\<dots> \<le> ?s * (1 + ?d) * (1 + 5 * ?d) * (1 + ?d) + ?d * 1"
    by (intro add_mono mult_mono be a) (use a b e t s1 in \<open>simp_all add: d\<close>)
  also have "\<dots> \<le> ?s * (1 + 9 * ?d)"
    using s1 by (simp add: d field_simps)
  finally have pe: "p * e \<le> ?s * (1 + 9 * ?d)" .
  define q where "q = round_f64 (p * e)"
  have big: "1 \<le> ?s * (1 + 9 * ?d)" using s1 by (simp add: d)
  have "\<bar>q - p * e\<bar> \<le> ?s * (1 + 9 * ?d) * ?d"
    unfolding q_def by (rule round_f64_within [OF _ big]) (use p e pe in simp)
  then have "q \<le> ?s * (1 + 9 * ?d) + ?s * (1 + 9 * ?d) * ?d" using pe by linarith
  also have "\<dots> < ?s + 1 / 2" using s1 by (simp add: d field_simps)
  finally have q_less: "q < ?s + 1 / 2" .
  have q_pos: "0 \<le> q" unfolding q_def using p e by (intro round_f64_nonneg) simp
  have off: "exhausts_offset s used e = \<lfloor>q + 1 / 2\<rfloor>"
    using q_pos by (simp add: exhausts_offset_def round_half_away_def q_def p_def a_def b_def)
  show "0 \<le> exhausts_offset s used e" using q_pos by (simp add: off)
  have "q + 1 / 2 < of_int (s + 1)" using q_less by simp
  then have "\<lfloor>q + 1 / 2\<rfloor> < s + 1" by (simp only: floor_less_iff)
  then show "exhausts_offset s used e \<le> s" by (simp add: off)
qed

lemma runs_out_elapsed:
  assumes "minimum_pace_elapsed_fraction \<le> elapsed_fraction now start s"
  shows "0 < elapsed_fraction now start s"
proof -
  have "0 < minimum_pace_elapsed_fraction" by code_simp
  with assms show ?thesis by linarith
qed

text \<open>A window the burn rate spends before its reset is stated to run out between its start and its
  reset: \<open>exhausts_at\<close> is never later than \<open>resets_at\<close>, for every window shorter than nine million
  years, whatever the rounding of the doubles.\<close>

theorem runs_out_before_reset:
  assumes "window_pace x window now = JObj stated" "map_of stated ''kind'' = Some (JStr ''runs_out'')"
    and "instant x (json_get ''resets_at'' window) = Some r"
    and "Option.bind (json_get ''duration_seconds'' window) as_i64 = Some s" "s \<le> 2 ^ 48"
  shows "\<exists>t. map_of stated ''exhausts_at'' = Some (JStr (secs_text x t)) \<and>
    (r - s * 1000000000) div 1000000000 \<le> t \<and> t \<le> r div 1000000000"
proof -
  obtain used where used: "Option.bind (json_get ''used_percent'' window) as_f64 = Some used"
    using assms(1,2) by (auto simp: window_pace_def assms(3,4) pace_none_def split: option.splits)
  define start where "start = r - s * 1000000000"
  define e where "e = elapsed_fraction now start s"
  define t where "t = (start + exhausts_offset s used e * 1000000000) div 1000000000"
  let ?projected = "min (round_f64 (used / e)) maximum_pace_projection_percent"
  have not_none: "stated \<noteq> [(''kind'', JStr ''none'')]" using assms(2) by auto
  note pace = assms(1) [unfolded window_pace_def assms(3,4) used prod.case option.case Let_def
      start_def [symmetric] e_def [symmetric] pace_none_def]
  have s: "0 < s" and min_e: "minimum_pace_elapsed_fraction \<le> e" and min_used: "minimum_pace_used_percent \<le> used"
    using pace not_none by (auto split: if_splits)
  have "\<not> ?projected \<le> 100"
  proof
    assume "?projected \<le> 100"
    with pace not_none have "map_of stated ''kind'' = Some (JStr ''lasts'')" by (auto split: if_splits)
    with assms(2) show False by simp
  qed
  then have spent: "100 < round_f64 (used / e)" and
    at_t: "map_of stated ''exhausts_at'' = Some (JStr (secs_text x t))"
    using pace not_none by (auto simp: t_def split: if_splits)
  have "0 < e" "e \<le> 1"
    using runs_out_elapsed min_e elapsed_fraction_bounds(2) unfolding e_def by blast+
  with exhausts_offset_bounds [of s e used] s assms(5) min_used spent
  have "0 \<le> exhausts_offset s used e" "exhausts_offset s used e \<le> s"
    by (simp_all add: minimum_pace_used_percent_def)
  then have "start \<le> start + exhausts_offset s used e * 1000000000"
    "start + exhausts_offset s used e * 1000000000 \<le> r" by (simp_all add: start_def)
  then have "start div 1000000000 \<le> t" "t \<le> r div 1000000000"
    unfolding t_def by (simp_all add: zdiv_mono1)
  with at_t show ?thesis unfolding start_def by blast
qed

definition sample_pace_clock :: externs where
  "sample_pace_clock = sample_externs\<lparr>instant_of := (\<lambda>s. if s = ''reset'' then Some (1000 * 1000000000) else None),
     secs_text := (\<lambda>_. ''later'')\<rparr>"

definition sample_window :: json where
  "sample_window = JObj [(''used_percent'', JInt 100), (''resets_at'', JStr ''reset''),
     (''duration_seconds'', JInt 1000)]"

lemma sample_window_pace:
  "window_pace sample_pace_clock sample_window (500 * 1000000000) =
     JObj [(''kind'', JStr ''runs_out''), (''tempo'', JStr ''ahead''), (''delta_percent'', JInt 100),
       (''projected_at_reset'', JFloat 200), (''exhausts_at'', JStr ''later'')]"
proof -
  have elapsed: "elapsed_fraction 500000000000 0 1000 = 1 / 2" by code_simp
  have rounded: "round_f64 200 = 200" "round_f64 100 = 100" "round_f64 2 = 2" "round_f64 1 = 1" by code_simp+
  have enough: "\<not> 1 < minimum_pace_elapsed_fraction * 2" by code_simp
  have stated: "pace_tempo 2 = ''ahead''" "round_half_away 100 = 100" by code_simp+
  show ?thesis
    by (simp add: elapsed rounded enough stated window_pace_def sample_window_def sample_pace_clock_def sample_externs_def instant_def
        Let_def minimum_pace_used_percent_def maximum_pace_projection_percent_def)
qed

theorem runs_out_before_reset_witness:
  "\<exists>t. map_of [(''kind'', JStr ''runs_out''), (''tempo'', JStr ''ahead''), (''delta_percent'', JInt 100),
       (''projected_at_reset'', JFloat 200), (''exhausts_at'', JStr ''later'')]
      ''exhausts_at'' = Some (JStr (secs_text sample_pace_clock t)) \<and>
    (1000 * 1000000000 - 1000 * 1000000000) div 1000000000 \<le> t \<and> t \<le> 1000 * 1000000000 div 1000000000"
proof (rule runs_out_before_reset [OF sample_window_pace])
  show "instant sample_pace_clock (json_get ''resets_at'' sample_window) = Some (1000 * 1000000000)" by code_simp
  show "Option.bind (json_get ''duration_seconds'' sample_window) as_i64 = Some 1000" by code_simp
qed simp_all

subsection \<open>Current readings\<close>

definition later_resets :: "externs \<Rightarrow> int \<Rightarrow> json \<Rightarrow> int list" where
  "later_resets x observed snapshot =
     filter (\<lambda>reset. observed < reset)
       (List.map_filter (\<lambda>window. instant x (json_get ''resets_at'' window)) (members_of ''windows'' snapshot))"

definition cadences :: "json \<Rightarrow> int list" where
  "cadences snapshot =
     List.map_filter (\<lambda>window. Option.bind (json_get ''duration_seconds'' window) as_i64) (members_of ''windows'' snapshot)"

lemma less_list_min: "list_min xs = Some m \<Longrightarrow> now < m \<longleftrightarrow> list_all (\<lambda>a. now < a) xs"
  using list_min_Some [of xs m] by (force simp: list_all_iff)

text \<open>A reading is current exactly while its source is available, a day has not passed since it was
  observed, and no boundary of its windows has come: the first reset after the observation when some
  window has one, and otherwise the end of every window's own cadence.\<close>

theorem snapshot_current_iff:
  assumes "\<forall>t. instant_ok x t" "list_all (\<lambda>s. \<bar>s\<bar> \<le> 2 ^ 50) (cadences snapshot)"
  shows "snapshot_is_current x snapshot now \<longleftrightarrow>
    str_member ''status'' snapshot = Some ''available'' \<and>
    (\<exists>observed. instant x (json_get ''observed_at'' snapshot) = Some observed \<and>
       now < observed + 86400 * 1000000000 \<and>
       (if later_resets x observed snapshot \<noteq> [] then list_all (\<lambda>r. now < r) (later_resets x observed snapshot)
        else list_all (\<lambda>s. now < observed + s * 1000000000) (cadences snapshot)))"
proof (cases "instant x (json_get ''observed_at'' snapshot)")
  case (Some observed)
  have shortest: "(case Option.bind (list_min (cadences snapshot))
        (\<lambda>s. Option.bind (try_seconds s) (checked_add_instant x observed)) of
      None \<Rightarrow> limit | Some b \<Rightarrow> min b limit) > now \<longleftrightarrow>
    now < limit \<and> list_all (\<lambda>s. now < observed + s * 1000000000) (cadences snapshot)" for limit
  proof (cases "list_min (cadences snapshot)")
    case (Some m)
    from list_min_Some [OF Some] assms(2) have "\<bar>m\<bar> \<le> 2 ^ 50" and least: "\<forall>a \<in> set (cadences snapshot). m \<le> a"
      and mem: "m \<in> set (cadences snapshot)" by (auto simp: list_all_iff)
    then have "try_seconds m = Some (m * 1000000000)" by (simp add: try_seconds_def abs_le_iff)
    moreover have "now < observed + m * 1000000000 \<longleftrightarrow>
        list_all (\<lambda>s. now < observed + s * 1000000000) (cadences snapshot)"
      using least mem by (force simp: list_all_iff)
    ultimately show ?thesis using assms(1) Some by (auto simp: checked_add_instant_def)
  next
    case None
    then have "cadences snapshot = []" by simp
    then show ?thesis by simp
  qed
  show ?thesis
  proof (cases "list_min (later_resets x observed snapshot)")
    case None
    with Some shortest assms(1) show ?thesis
      by (simp add: snapshot_is_current_def snapshot_valid_until_def checked_add_instant_def Let_def
          max_snapshot_validity_seconds_def later_resets_def [symmetric] cadences_def [symmetric])
  next
    case (Some r)
    then have "later_resets x observed snapshot \<noteq> []" by auto
    with Some \<open>instant x (json_get ''observed_at'' snapshot) = Some observed\<close> assms(1) less_list_min [OF Some, of now]
    show ?thesis
      by (auto simp: snapshot_is_current_def snapshot_valid_until_def checked_add_instant_def Let_def
          max_snapshot_validity_seconds_def later_resets_def [symmetric] cadences_def [symmetric])
  qed
qed (simp add: snapshot_is_current_def snapshot_valid_until_def)

definition sample_reading :: json where
  "sample_reading = JObj [(''status'', JStr ''available''), (''observed_at'', JStr ''reset''),
     (''windows'', JArr [JObj [(''duration_seconds'', JInt 3600)]])]"

theorem snapshot_current_iff_witness:
  "snapshot_is_current sample_pace_clock sample_reading (2000 * 1000000000) \<longleftrightarrow>
    str_member ''status'' sample_reading = Some ''available'' \<and>
    (\<exists>observed. instant sample_pace_clock (json_get ''observed_at'' sample_reading) = Some observed \<and>
       2000 * 1000000000 < observed + 86400 * 1000000000 \<and>
       (if later_resets sample_pace_clock observed sample_reading \<noteq> []
        then list_all (\<lambda>r. 2000 * 1000000000 < r) (later_resets sample_pace_clock observed sample_reading)
        else list_all (\<lambda>s. 2000 * 1000000000 < observed + s * 1000000000) (cadences sample_reading)))"
proof (rule snapshot_current_iff)
  show "\<forall>t. instant_ok sample_pace_clock t" by (simp add: sample_pace_clock_def sample_externs_def)
  show "list_all (\<lambda>s. \<bar>s\<bar> \<le> 2 ^ 50) (cadences sample_reading)" by code_simp
qed

text \<open>The comment on \<open>snapshot_valid_until\<close> has windows without a reset fall back to their own cadence. A
  reset of any other window takes that fallback away: this reading has a window of an hour without a
  reset, and is still current two hours after it was observed.\<close>

definition sample_mixed_reading :: json where
  "sample_mixed_reading = JObj [(''status'', JStr ''available''), (''observed_at'', JStr ''observed''),
     (''windows'', JArr [JObj [(''duration_seconds'', JInt 3600)],
        JObj [(''duration_seconds'', JInt 86400), (''resets_at'', JStr ''reset'')]])]"

lemma cadence_ignored_beside_a_reset:
  "snapshot_is_current (sample_externs\<lparr>instant_of := (\<lambda>s.
      if s = ''observed'' then Some 0 else if s = ''reset'' then Some (10 * 3600 * 1000000000) else None)\<rparr>)
    sample_mixed_reading (2 * 3600 * 1000000000)"
  by code_simp

end
