(* ===== verification/Quota_History.thy ===== *)
theory Quota_History
  imports Observation
begin

text \<open>
  How a window's samples fold into the history a surface draws, and how they become the points an
  Account upload carries (\<open>packages/service/src/history.rs\<close>). A finite \<open>f64\<close> is a rational; the text
  of an instant is chrono's (\<open>instant_of\<close>, \<open>secs_text\<close>), and the length of an encoded body is
  serde_json's (the parameter \<open>sz\<close>). What the lemmas show: the drawn curve rises and keeps its ends,
  the union of several devices' points depends on the set of them only, an upload is in Relay's range,
  and its chunks carry every point within the caps.
\<close>

subsection \<open>The history of a window\<close>

definition history_decimation_seconds :: int where "history_decimation_seconds = 300"

record quota_sample =
  sample_resets_at :: int
  sample_observed_at :: int
  sample_used :: rat

text \<open>\<open>round\<close> to a number of decimals, and \<open>TimeDelta::num_seconds\<close>.\<close>

definition round_to :: "rat \<Rightarrow> nat \<Rightarrow> rat" where
  "round_to v decimals =
     round_f64 (of_int (round_half_away (round_f64 (v * 10 ^ decimals))) / 10 ^ decimals)"

definition seconds_toward_zero :: "int \<Rightarrow> int" where
  "seconds_toward_zero d = (if 0 \<le> d then d div 1000000000 else - (- d div 1000000000))"

fun rising_from :: "rat option \<Rightarrow> quota_sample list \<Rightarrow> (quota_sample \<times> rat) list" where
  "rising_from peak [] = []"
| "rising_from peak (s # ss) =
     (let top = (case peak of None \<Rightarrow> sample_used s | Some q \<Rightarrow> max q (sample_used s))
      in (s, top) # rising_from (Some top) ss)"

definition rising :: "quota_sample list \<Rightarrow> (quota_sample \<times> rat) list" where
  "rising = rising_from None"

fun decimate :: "(quota_sample \<times> rat) option \<Rightarrow> (quota_sample \<times> rat) list \<Rightarrow> (quota_sample \<times> rat) list" where
  "decimate kept [] = []"
| "decimate kept (e # es) =
     (if (case kept of None \<Rightarrow> True
          | Some k \<Rightarrow> history_decimation_seconds \<le>
              seconds_toward_zero (sample_observed_at (fst e) - sample_observed_at (fst k)))
      then e # decimate (Some e) es else decimate kept es)"

definition thinned :: "(quota_sample \<times> rat) list \<Rightarrow> (quota_sample \<times> rat) list" where
  "thinned es =
     (let kept = decimate None es in
      if es \<noteq> [] \<and> (kept = [] \<or>
           sample_observed_at (fst (last kept)) \<noteq> sample_observed_at (fst (last es)))
      then kept @ [last es] else kept)"

definition curve :: "(quota_sample \<times> rat) list \<Rightarrow> int \<Rightarrow> int \<Rightarrow> json list" where
  "curve es resets_at s =
     map (\<lambda>(sample, used). JObj
         [(''elapsed_fraction'', JFloat (round_to
             (elapsed_fraction (sample_observed_at sample) (resets_at - s * 1000000000) s) 4)),
          (''used_percent'', JFloat (round_to used 2))]) (thinned es)"

definition group_samples :: "quota_sample list \<Rightarrow> (int, quota_sample list) btree" where
  "group_samples samples =
     map (\<lambda>(r, group). (r, sort_key sample_observed_at group))
       (fold (\<lambda>s m. bt_put (sample_resets_at s)
          ((case bt_get m (sample_resets_at s) of None \<Rightarrow> [] | Some g \<Rightarrow> g) @ [s]) m) samples [])"

definition local_day :: "int \<Rightarrow> int \<Rightarrow> int" where
  "local_day t utc_offset_seconds = (t + utc_offset_seconds * 1000000000) div (86400 * 1000000000)"

definition rfc3339 :: "externs \<Rightarrow> int \<Rightarrow> string" where
  "rfc3339 x t = secs_text x (t div 1000000000)"

definition projection_point :: "externs \<Rightarrow> int \<Rightarrow> int \<Rightarrow> quota_sample \<times> rat \<Rightarrow> json option" where
  "projection_point x resets_at s e =
     map_option (\<lambda>v. JObj [(''elapsed_fraction'', JFloat 1), (''used_percent'', JFloat (round_to v 2))])
       (Option.bind (json_get ''projected_at_reset'' (window_pace x
          (JObj [(''used_percent'', JFloat (snd e)), (''resets_at'', JStr (rfc3339 x resets_at)),
             (''duration_seconds'', JInt s)]) (sample_observed_at (fst e)))) as_f64)"

definition window_today :: "externs \<Rightarrow> int \<Rightarrow> int \<Rightarrow> int \<times> quota_sample list \<Rightarrow> json" where
  "window_today x resets_at s = (\<lambda>(r, group). JObj
     [(''started_at'', JStr (rfc3339 x (r - s * 1000000000))), (''resets_at'', JStr (rfc3339 x r)),
      (''peak_used_percent'', JFloat (round_to (the (list_max (map sample_used group))) 2)),
      (''is_current'', JBool (r = resets_at))])"

definition window_history :: "externs \<Rightarrow> json \<Rightarrow> quota_sample list \<Rightarrow> int \<Rightarrow> int \<Rightarrow> json option" where
  "window_history x window samples now utc_offset_seconds =
     Option.bind (instant x (json_get ''resets_at'' window)) (\<lambda>resets_at.
     Option.bind (Option.bind (Option.bind (json_get ''duration_seconds'' window) as_i64)
        (\<lambda>s. if 0 < s then Some s else None)) (\<lambda>s.
       let grouped = group_samples samples in
       if grouped = [] then None
       else
         let current = map_option rising (bt_get grouped resets_at);
             points = (case current of None \<Rightarrow> [] | Some es \<Rightarrow> curve es resets_at s);
             projection = (case current of
                 Some (e # es) \<Rightarrow> projection_point x resets_at s (last (e # es))
               | _ \<Rightarrow> None);
             today = local_day now utc_offset_seconds;
             windows_today = map (window_today x resets_at s)
               (filter (\<lambda>(r, _). local_day r utc_offset_seconds = today \<or> now < r) grouped)
         in if points = [] \<and> windows_today = [] then None
            else Some (JObj [(''points'', JArr points),
              (''projection'', case projection of None \<Rightarrow> JNull | Some v \<Rightarrow> v),
              (''windows_today'', JArr windows_today)])))"

definition snapshot_with_history ::
    "externs \<Rightarrow> json \<Rightarrow> (string \<Rightarrow> quota_sample list option) \<Rightarrow> int \<Rightarrow> int \<Rightarrow> json" where
  "snapshot_with_history x snapshot samples now utc_offset_seconds =
     map_windows (\<lambda>window.
       case str_member ''id'' window of
         None \<Rightarrow> window
       | Some key \<Rightarrow>
           (case window_history x window (case samples key of None \<Rightarrow> [] | Some ss \<Rightarrow> ss) now utc_offset_seconds of
              None \<Rightarrow> window
            | Some history \<Rightarrow> json_insert ''history'' history window)) snapshot"

subsection \<open>Buckets\<close>

definition quota_history_max_span_seconds :: int where "quota_history_max_span_seconds = 30 * 86400"
definition quota_history_min_span_seconds :: int where "quota_history_min_span_seconds = 48 * 3600"
definition quota_history_span_duration_multiple :: int where "quota_history_span_duration_multiple = 4"
definition quota_history_short_window_bucket_seconds :: int where "quota_history_short_window_bucket_seconds = 900"
definition quota_history_long_window_bucket_seconds :: int where "quota_history_long_window_bucket_seconds = 3600"
definition quota_history_short_window_max_duration_seconds :: int where
  "quota_history_short_window_max_duration_seconds = 86400"

record history_sample =
  hs_observed_at :: string
  hs_used :: rat
  hs_resets_at :: string

record synced_point =
  sp_resets_at :: string
  sp_bucket_start :: string
  sp_used :: rat

record merge_point =
  mp_window_id :: string
  mp_resets_at :: string
  mp_bucket_start :: string
  mp_used :: rat

datatype bucketed = Points "synced_point list" | Refused

text \<open>The multiplications of the code saturate. A saturated span is cut by the maximum either way.\<close>

definition quota_history_span_seconds :: "int \<Rightarrow> int" where
  "quota_history_span_seconds d =
     min quota_history_max_span_seconds
       (max quota_history_min_span_seconds (quota_history_span_duration_multiple * max d 0))"

definition quota_history_bucket_seconds :: "int \<Rightarrow> int" where
  "quota_history_bucket_seconds d =
     (if d \<le> quota_history_short_window_max_duration_seconds then quota_history_short_window_bucket_seconds
      else quota_history_long_window_bucket_seconds)"

definition canonical_rfc3339_utc :: "externs \<Rightarrow> string \<Rightarrow> string option" where
  "canonical_rfc3339_utc x s = map_option (\<lambda>t. secs_text x (t div 1000000000)) (instant_of x s)"

definition instant_millis :: "externs \<Rightarrow> string \<Rightarrow> int option" where
  "instant_millis x s = map_option (\<lambda>t. t div 1000000) (instant_of x s)"

definition quota_history_bucket_start_utc :: "externs \<Rightarrow> string \<Rightarrow> int \<Rightarrow> string option" where
  "quota_history_bucket_start_utc x observed_at d =
     Option.bind (instant_millis x observed_at) (\<lambda>epoch_ms.
       let size_ms = quota_history_bucket_seconds d * 1000;
           start = epoch_ms div size_ms * size_ms
       in if instant_ok x (start * 1000000) then Some (secs_text x (start div 1000)) else None)"

definition quota_history_span_cutoff_ms :: "externs \<Rightarrow> int \<Rightarrow> string \<Rightarrow> int \<Rightarrow> int option" where
  "quota_history_span_cutoff_ms x d now slack_buckets =
     map_option (\<lambda>now_ms. now_ms - quota_history_span_seconds d * 1000
       - slack_buckets * quota_history_bucket_seconds d * 1000) (instant_millis x now)"

definition quota_history_upload_point_out_of_range :: "externs \<Rightarrow> string \<Rightarrow> int \<Rightarrow> string \<Rightarrow> bool" where
  "quota_history_upload_point_out_of_range x bucket_start d now =
     (case instant_millis x bucket_start of
        None \<Rightarrow> True
      | Some start \<Rightarrow>
          (case quota_history_span_cutoff_ms x d now 1 of
             None \<Rightarrow> True
           | Some cutoff \<Rightarrow>
               if start < cutoff then True
               else (case instant_millis x now of
                       None \<Rightarrow> True
                     | Some now_ms \<Rightarrow> now_ms + quota_history_bucket_seconds d * 1000 < start)))"

text \<open>The last uploaded bucket of each reset.\<close>

definition last_by_reset :: "externs \<Rightarrow> synced_point list \<Rightarrow> (string, string \<times> rat) btree" where
  "last_by_reset x previous =
     fold (\<lambda>point m.
       let resets_at = (case canonical_rfc3339_utc x (sp_resets_at point) of
             Some s \<Rightarrow> s | None \<Rightarrow> sp_resets_at point)
       in if (case bt_get m resets_at of None \<Rightarrow> True | Some (bucket, _) \<Rightarrow> bucket \<le> sp_bucket_start point)
          then bt_put resets_at (sp_bucket_start point, sp_used point) m else m) previous []"

text \<open>The reset and bucket of a sample, or \<open>None\<close> for one the loop skips.\<close>

definition sample_bucket :: "externs \<Rightarrow> int \<Rightarrow> int \<Rightarrow> history_sample \<Rightarrow> (string \<times> string) option" where
  "sample_bucket x d cutoff s =
     Option.bind (canonical_rfc3339_utc x (hs_resets_at s)) (\<lambda>resets_at.
     Option.bind (quota_history_bucket_start_utc x (hs_observed_at s) d) (\<lambda>bucket.
     Option.bind (instant_millis x bucket) (\<lambda>start_ms.
       if start_ms < cutoff then None else Some (resets_at, bucket))))"

text \<open>A sample's point when it is the largest of its bucket.\<close>

definition bucket_point :: "externs \<Rightarrow> int \<Rightarrow> int \<Rightarrow> history_sample \<Rightarrow> synced_point" where
  "bucket_point x d cutoff s =
     (case sample_bucket x d cutoff s of
        None \<Rightarrow> \<lparr>sp_resets_at = [], sp_bucket_start = [], sp_used = hs_used s\<rparr>
      | Some (resets_at, bucket) \<Rightarrow>
          \<lparr>sp_resets_at = resets_at, sp_bucket_start = bucket, sp_used = hs_used s\<rparr>)"

definition add_to_bucket ::
    "externs \<Rightarrow> int \<Rightarrow> int \<Rightarrow> history_sample \<Rightarrow> (string \<times> string, synced_point) btree \<Rightarrow>
     (string \<times> string, synced_point) btree" where
  "add_to_bucket x d cutoff =
     keep_largest (sample_bucket x d cutoff) hs_used (bucket_point x d cutoff) sp_used"

fun changed_points :: "(string, string \<times> rat) btree \<Rightarrow> synced_point list \<Rightarrow> synced_point list" where
  "changed_points m [] = []"
| "changed_points m (p # ps) =
     (if (case bt_get m (sp_resets_at p) of None \<Rightarrow> False | Some (_, used) \<Rightarrow> used = sp_used p)
      then changed_points m ps
      else p # changed_points (bt_put (sp_resets_at p) (sp_bucket_start p, sp_used p) m) ps)"

definition bucket_quota_samples ::
    "externs \<Rightarrow> history_sample list \<Rightarrow> int option \<Rightarrow> synced_point list \<Rightarrow> string \<Rightarrow> bucketed" where
  "bucket_quota_samples x samples d previous now =
     (case d of
        None \<Rightarrow> Refused
      | Some d \<Rightarrow>
          if d < 0 then Refused
          else (case quota_history_span_cutoff_ms x d now 0 of
                  None \<Rightarrow> Refused
                | Some cutoff \<Rightarrow> Points (changed_points (last_by_reset x previous)
                    (map snd (fold (add_to_bucket x d cutoff) samples [])))))"

subsection \<open>Several devices' points\<close>

definition merge_key :: "merge_point \<Rightarrow> string \<times> string \<times> string" where
  "merge_key p = (mp_window_id p, mp_resets_at p, mp_bucket_start p)"

definition merge_quota_history :: "merge_point list list \<Rightarrow> merge_point list" where
  "merge_quota_history devices =
     map snd (fold (fold (keep_largest (\<lambda>p. Some (merge_key p)) mp_used (\<lambda>p. p) mp_used)) devices [])"

subsection \<open>Uploads\<close>

record upload_point =
  up_provider :: string
  up_fingerprint :: string
  up_window_id :: string
  up_duration :: int
  up_point :: synced_point

record series_input =
  si_provider :: string
  si_fingerprint :: string
  si_window_id :: string
  si_duration :: int
  si_samples :: "history_sample list"
  si_previous :: "synced_point list"
  si_watermark :: "string option"

definition upload_order :: "upload_point \<Rightarrow> string \<times> string \<times> string \<times> string \<times> string" where
  "upload_order p = (sp_bucket_start (up_point p), sp_resets_at (up_point p), up_window_id p,
     up_provider p, up_fingerprint p)"

definition sample_wanted :: "externs \<Rightarrow> series_input \<Rightarrow> history_sample \<Rightarrow> bool" where
  "sample_wanted x series s \<longleftrightarrow>
     0 \<le> hs_used s \<and> hs_used s \<le> 100 \<and>
     (case quota_history_bucket_start_utc x (hs_observed_at s) (si_duration series) of
        None \<Rightarrow> False
      | Some bucket \<Rightarrow> (case si_watermark series of None \<Rightarrow> True | Some w \<Rightarrow> w \<le> bucket))"

definition plan_series :: "externs \<Rightarrow> string \<Rightarrow> series_input \<Rightarrow> upload_point list" where
  "plan_series x now series =
     (if si_duration series < 0 then []
      else case bucket_quota_samples x (filter (sample_wanted x series) (si_samples series))
             (Some (si_duration series)) (si_previous series) now of
        Refused \<Rightarrow> []
      | Points ps \<Rightarrow>
          map (\<lambda>p. \<lparr>up_provider = si_provider series, up_fingerprint = si_fingerprint series,
              up_window_id = si_window_id series, up_duration = si_duration series, up_point = p\<rparr>)
            (filter (\<lambda>p. \<not> quota_history_upload_point_out_of_range x (sp_bucket_start p)
                 (si_duration series) now) ps))"

definition plan_quota_history_upload :: "externs \<Rightarrow> series_input list \<Rightarrow> string \<Rightarrow> upload_point list" where
  "plan_quota_history_upload x series now = sort_key upload_order (concat (map (plan_series x now) series))"

subsection \<open>Chunks\<close>

definition point_value :: "upload_point \<Rightarrow> json" where
  "point_value p = JObj [(''resets_at'', JStr (sp_resets_at (up_point p))),
     (''bucket_start'', JStr (sp_bucket_start (up_point p))), (''used_percent'', JFloat (sp_used (up_point p)))]"

definition series_json :: "upload_point \<Rightarrow> json list \<Rightarrow> json" where
  "series_json p points = JObj [(''provider'', JStr (up_provider p)), (''fingerprint'', JStr (up_fingerprint p)),
     (''window_id'', JStr (up_window_id p)), (''duration_seconds'', JInt (up_duration p)),
     (''points'', JArr points)]"

definition same_series :: "upload_point \<Rightarrow> upload_point \<Rightarrow> bool" where
  "same_series p q \<longleftrightarrow> up_provider p = up_provider q \<and> up_fingerprint p = up_fingerprint q \<and>
     up_window_id p = up_window_id q \<and> up_duration p = up_duration q"

text \<open>A series in the making is its first point and its points so far.\<close>

fun add_to_series :: "upload_point \<Rightarrow> (upload_point \<times> json list) list \<Rightarrow> (upload_point \<times> json list) list" where
  "add_to_series p [] = [(p, [point_value p])]"
| "add_to_series p ((q, points) # series) =
     (if same_series q p then (q, points @ [point_value p]) # series
      else (q, points) # add_to_series p series)"

definition quota_history_upload_body :: "nat \<Rightarrow> upload_point list \<Rightarrow> json" where
  "quota_history_upload_body generation points =
     JObj [(''protocol_version'', JInt 6), (''generation'', JInt (int generation)),
       (''series'', JArr (map (\<lambda>(p, values). series_json p values) (fold add_to_series points [])))]"

definition series_name :: "upload_point \<Rightarrow> string \<times> string \<times> string" where
  "series_name p = (up_provider p, up_fingerprint p, up_window_id p)"

fun fill_chunk ::
    "(json \<Rightarrow> nat) \<Rightarrow> nat \<Rightarrow> nat \<Rightarrow> nat \<Rightarrow> (string \<times> string \<times> string) list \<Rightarrow> nat \<Rightarrow> upload_point list \<Rightarrow> upload_point list" where
  "fill_chunk sz max_points max_bytes estimate seen n [] = []"
| "fill_chunk sz max_points max_bytes estimate seen n (p # ps) =
     (if max_points \<le> n then []
      else
        let header = (if series_name p \<in> set seen then 0 else sz (series_json p []));
            addition = header + sz (point_value p) + 2
        in if 0 < n \<and> max_bytes < estimate + addition then []
           else p # fill_chunk sz max_points max_bytes (estimate + addition)
             (if 0 < header then seen @ [series_name p] else seen) (n + 1) ps)"

function shrink_chunk :: "(json \<Rightarrow> nat) \<Rightarrow> nat \<Rightarrow> nat \<Rightarrow> upload_point list \<Rightarrow> bool \<times> upload_point list" where
  "shrink_chunk sz generation max_bytes slice =
     (if sz (quota_history_upload_body generation slice) \<le> max_bytes then (True, slice)
      else if length slice \<le> 1 then (False, slice)
      else shrink_chunk sz generation max_bytes (take ((length slice + 1) div 2) slice))"
  by pat_completeness auto
termination by (relation "measure (\<lambda>(_, _, _, slice). length slice)") auto

declare shrink_chunk.simps [simp del]

definition next_slice :: "(json \<Rightarrow> nat) \<Rightarrow> nat \<Rightarrow> nat \<Rightarrow> nat \<Rightarrow> upload_point list \<Rightarrow> bool \<times> upload_point list" where
  "next_slice sz generation max_points max_bytes rest =
     shrink_chunk sz generation max_bytes
       (fill_chunk sz max_points max_bytes (sz (quota_history_upload_body generation [])) [] 0 rest)"

function chunk_slices :: "(json \<Rightarrow> nat) \<Rightarrow> nat \<Rightarrow> nat \<Rightarrow> nat \<Rightarrow> upload_point list \<Rightarrow> upload_point list list" where
  "chunk_slices sz generation max_points max_bytes rest =
     (if rest = [] then []
      else
        let (fits, slice) = next_slice sz generation max_points max_bytes rest
        in (if fits then [slice] else []) @
           chunk_slices sz generation max_points max_bytes (drop (max 1 (length slice)) rest))"
  by pat_completeness auto
termination by (relation "measure (\<lambda>(_, _, _, _, rest). length rest)") auto

declare chunk_slices.simps [simp del]

definition chunk_quota_history_upload ::
    "(json \<Rightarrow> nat) \<Rightarrow> upload_point list \<Rightarrow> nat \<Rightarrow> nat \<Rightarrow> nat \<Rightarrow> json list" where
  "chunk_quota_history_upload sz points generation max_points max_bytes =
     (if max_points = 0 \<or> max_bytes = 0 \<or> points = [] then []
      else map (quota_history_upload_body generation)
        (chunk_slices sz generation max_points max_bytes (sort_key upload_order points)))"

subsection \<open>What an upload answer says\<close>

definition quota_history_oldest_slack_seconds :: int where "quota_history_oldest_slack_seconds = 3600"

definition quota_history_oldest_is_live :: "externs \<Rightarrow> string \<Rightarrow> int \<Rightarrow> string \<Rightarrow> bool" where
  "quota_history_oldest_is_live x bucket_start d now =
     (case (instant_millis x bucket_start, instant_millis x now) of
        (Some bucket, Some now) \<Rightarrow>
          now + quota_history_oldest_slack_seconds * 1000 < bucket + quota_history_span_seconds d * 1000
      | _ \<Rightarrow> False)"

datatype upload_answer = Absent | Answered "string option" "int option"

definition quota_history_rows_lost ::
    "externs \<Rightarrow> string option \<Rightarrow> string option \<Rightarrow> string \<Rightarrow> upload_answer \<Rightarrow> int \<Rightarrow> string \<Rightarrow> bool" where
  "quota_history_rows_lost x recorded_oldest watermark chunk_oldest answer d now =
     (case answer of
        Absent \<Rightarrow> True
      | Answered None _ \<Rightarrow> False
      | Answered (Some answered) held \<Rightarrow>
          let d = (case held of None \<Rightarrow> d | Some h \<Rightarrow> min h d);
              live = (\<lambda>b. quota_history_oldest_is_live x b d now);
              kept = (\<lambda>P v. case v of None \<Rightarrow> None | Some b \<Rightarrow> if P b then Some b else None);
              evidence = (case kept live recorded_oldest of
                  Some b \<Rightarrow> Some b
                | None \<Rightarrow> kept (\<lambda>w. live w \<and>
                    instant_millis x w < instant_millis x chunk_oldest) watermark)
          in (case (Option.bind evidence (instant_millis x), instant_millis x answered) of
                (Some e, Some a) \<Rightarrow> e < a | _ \<Rightarrow> False))"

definition quota_history_reseed_oldest :: "externs \<Rightarrow> string option \<Rightarrow> string \<Rightarrow> int \<Rightarrow> string \<Rightarrow> string" where
  "quota_history_reseed_oldest x recorded_oldest chunk_oldest d now =
     (case recorded_oldest of
        Some recorded \<Rightarrow>
          if quota_history_oldest_is_live x recorded d now \<and>
             instant_millis x recorded \<le> instant_millis x chunk_oldest
          then recorded else chunk_oldest
      | None \<Rightarrow> chunk_oldest)"

definition quota_history_series_key :: "string \<Rightarrow> string \<Rightarrow> string \<Rightarrow> string" where
  "quota_history_series_key provider fingerprint window_id =
     provider @ [CHR 0x00] @ fingerprint @ [CHR 0x00] @ window_id"

subsection \<open>The union of several devices' points\<close>

interpretation merge: largest_per_key "\<lambda>p. Some (merge_key p)" mp_used "\<lambda>p. p" mp_used
  by unfold_locales (auto simp: merge_key_def)

interpretation bucket: largest_per_key "sample_bucket x d cutoff" hs_used "bucket_point x d cutoff" sp_used
  for x d cutoff
  by unfold_locales (auto simp: bucket_point_def split: option.split)

lemma merged_devices:
  "merge.tops (set (concat devices))
     (fold (fold (keep_largest (\<lambda>p. Some (merge_key p)) mp_used (\<lambda>p. p) mp_used)) devices [])"
  using merge.tops_folds [OF merge.tops_empty, of devices] by simp

lemma merge_top: "merge.top points k p \<longleftrightarrow>
    p \<in> points \<and> merge_key p = k \<and> (\<forall>q \<in> points. merge_key q = merge_key p \<longrightarrow> mp_used q \<le> mp_used p)"
  unfolding merge.top_def by auto

lemma merge_entries:
  assumes "merge.tops points m"
  shows "set (map snd m) = {p \<in> points. \<forall>q \<in> points. merge_key q = merge_key p \<longrightarrow> mp_used q \<le> mp_used p}"
    "map merge_key (map snd m) = map fst m"
proof -
  have entry: "(k, p) \<in> set m \<longleftrightarrow>
      p \<in> points \<and> merge_key p = k \<and> (\<forall>q \<in> points. merge_key q = merge_key p \<longrightarrow> mp_used q \<le> mp_used p)" for k p
    using merge.tops_entry [OF assms] by (simp add: merge_top)
  have "p \<in> set (map snd m) \<longleftrightarrow> (\<exists>k. (k, p) \<in> set m)" for p by force
  then show "set (map snd m) = {p \<in> points. \<forall>q \<in> points. merge_key q = merge_key p \<longrightarrow> mp_used q \<le> mp_used p}"
    unfolding set_eq_iff entry mem_Collect_eq by blast
  show "map merge_key (map snd m) = map fst m" using entry by (auto simp: comp_def)
qed

text \<open>C25: The union of several devices' points holds one point for each window, reset and bucket, the
  one with the largest used percent any device reported, in the order of those keys.\<close>

theorem merge_takes_maxima:
  "set (merge_quota_history devices) =
     {p \<in> set (concat devices). \<forall>q \<in> set (concat devices). merge_key q = merge_key p \<longrightarrow> mp_used q \<le> mp_used p}
   \<and> sorted_wrt (<) (map merge_key (merge_quota_history devices))"
proof
  show "set (merge_quota_history devices) =
     {p \<in> set (concat devices). \<forall>q \<in> set (concat devices). merge_key q = merge_key p \<longrightarrow> mp_used q \<le> mp_used p}"
    unfolding merge_quota_history_def by (rule merge_entries(1) [OF merged_devices])
  show "sorted_wrt (<) (map merge_key (merge_quota_history devices))"
    using merge.topsD(1) [OF merged_devices [of devices]]
    unfolding merge_quota_history_def merge_entries(2) [OF merged_devices] bt_ordered_def .
qed

text \<open>The union is a function of the set of points: in whatever order devices answer, however
  often a device's points come, and whether earlier unions are among them, the points are the same.\<close>

theorem merge_of_same_points:
  assumes "set (concat devices) = set (concat others)"
  shows "merge_quota_history devices = merge_quota_history others"
  unfolding merge_quota_history_def
  using merge.tops_unique [OF merged_devices [of devices], of
      "fold (fold (keep_largest (\<lambda>p. Some (merge_key p)) mp_used (\<lambda>p. p) mp_used)) others []"]
    merged_devices [of others] assms by simp

definition sample_point :: "rat \<Rightarrow> merge_point" where
  "sample_point used = \<lparr>mp_window_id = ''weekly'', mp_resets_at = ''r'', mp_bucket_start = ''b'', mp_used = used\<rparr>"

theorem merge_takes_maxima_witness:
  "set (merge_quota_history [[sample_point 1], [sample_point 2]]) =
     {p \<in> set (concat [[sample_point 1], [sample_point 2]]).
        \<forall>q \<in> set (concat [[sample_point 1], [sample_point 2]]).
          merge_key q = merge_key p \<longrightarrow> mp_used q \<le> mp_used p}
   \<and> sorted_wrt (<) (map merge_key (merge_quota_history [[sample_point 1], [sample_point 2]]))"
  by (rule merge_takes_maxima)

theorem merge_of_same_points_witness:
  "merge_quota_history [[sample_point 1], [sample_point 2]] = merge_quota_history [[sample_point 2, sample_point 1, sample_point 2]]"
  by (rule merge_of_same_points) auto

subsection \<open>Chunks carry every point\<close>

lemma take_prefix_trans:
  assumes "a = take (length a) b" "b = take (length b) c"
  shows "a = take (length a) c"
proof -
  have "length a \<le> length b" using assms(1) by (metis length_take min.cobounded1)
  have "a = take (length a) (take (length b) c)" using assms by simp
  also have "\<dots> = take (length a) c" using \<open>length a \<le> length b\<close> by (simp add: min_absorb1)
  finally show ?thesis .
qed

lemma fill_chunk_Cons:
  "fill_chunk sz max_points max_bytes estimate seen n (p # ps) = [] \<or>
     n < max_points \<and> (\<exists>estimate seen. fill_chunk sz max_points max_bytes estimate' seen' n (p # ps) =
       p # fill_chunk sz max_points max_bytes estimate seen (Suc n) ps)"
  if "estimate' = estimate" "seen' = seen"
  using that by (auto simp: Let_def)

lemma fill_chunk_prefix:
  "fill_chunk sz max_points max_bytes estimate seen n ps =
     take (length (fill_chunk sz max_points max_bytes estimate seen n ps)) ps"
proof (induction ps arbitrary: estimate seen n)
  case (Cons p ps)
  from fill_chunk_Cons [OF refl refl, of sz max_points max_bytes estimate seen n p ps] Cons.IH
  show ?case by (elim disjE conjE exE) simp_all
qed simp

lemma fill_chunk_length:
  "n + length (fill_chunk sz max_points max_bytes estimate seen n ps) \<le> max n max_points"
proof (induction ps arbitrary: estimate seen n)
  case (Cons p ps)
  from fill_chunk_Cons [OF refl refl, of sz max_points max_bytes estimate seen n p ps]
  show ?case
  proof (elim disjE conjE exE)
    fix e k
    assume "n < max_points" "fill_chunk sz max_points max_bytes estimate seen n (p # ps) =
      p # fill_chunk sz max_points max_bytes e k (Suc n) ps"
    with Cons.IH [of "Suc n" e k] show ?case by (simp del: fill_chunk.simps)
  qed simp
qed simp

lemma fill_chunk_nonempty:
  "ps \<noteq> [] \<Longrightarrow> 0 < max_points \<Longrightarrow> fill_chunk sz max_points max_bytes estimate seen 0 ps \<noteq> []"
  by (cases ps) (auto simp: Let_def)

lemma shrink_chunk_prefix:
  assumes "slice \<noteq> []" "shrink_chunk sz generation max_bytes slice = (fits, kept)"
  shows "kept = take (length kept) slice \<and> kept \<noteq> [] \<and>
    (if fits then sz (quota_history_upload_body generation kept) \<le> max_bytes
     else length kept = 1 \<and> max_bytes < sz (quota_history_upload_body generation kept))"
  using assms
proof (induction sz generation max_bytes slice rule: shrink_chunk.induct)
  case (1 sz generation max_bytes slice)
  show ?case
  proof (cases "sz (quota_history_upload_body generation slice) \<le> max_bytes \<or> length slice \<le> 1")
    case True
    with 1(3) have "kept = slice \<and> (fits \<longleftrightarrow> sz (quota_history_upload_body generation slice) \<le> max_bytes)"
      by (auto simp: shrink_chunk.simps [of sz generation max_bytes slice] split: if_splits)
    with True 1(2) show ?thesis by (cases slice) auto
  next
    case False
    let ?half = "take ((length slice + 1) div 2) slice"
    from False have "?half \<noteq> []" by (cases slice) auto
    moreover from False 1(3) have "shrink_chunk sz generation max_bytes ?half = (fits, kept)"
      by (simp add: shrink_chunk.simps [of sz generation max_bytes slice])
    ultimately have kept: "kept = take (length kept) ?half \<and> kept \<noteq> [] \<and>
        (if fits then sz (quota_history_upload_body generation kept) \<le> max_bytes
         else length kept = 1 \<and> max_bytes < sz (quota_history_upload_body generation kept))"
      using 1(1) False by auto
    moreover have "kept = take (length kept) slice"
    proof (rule take_prefix_trans)
      show "kept = take (length kept) ?half" using kept by simp
      show "?half = take (length ?half) slice" by simp
    qed
    ultimately show ?thesis by simp
  qed
qed

lemma next_slice_prefix:
  assumes "rest \<noteq> []" "0 < max_points" "next_slice sz generation max_points max_bytes rest = (fits, kept)"
  shows "kept = take (length kept) rest" "kept \<noteq> []" "length kept \<le> max_points"
    and "if fits then sz (quota_history_upload_body generation kept) \<le> max_bytes
      else kept = [hd rest] \<and> max_bytes < sz (quota_history_upload_body generation kept)"
proof -
  let ?slice = "fill_chunk sz max_points max_bytes (sz (quota_history_upload_body generation [])) [] 0 rest"
  have slice: "?slice \<noteq> []" by (rule fill_chunk_nonempty [OF assms(1,2)])
  have kept: "kept = take (length kept) ?slice \<and> kept \<noteq> [] \<and>
      (if fits then sz (quota_history_upload_body generation kept) \<le> max_bytes
       else length kept = 1 \<and> max_bytes < sz (quota_history_upload_body generation kept))"
    by (rule shrink_chunk_prefix [OF slice assms(3) [unfolded next_slice_def]])
  then have shorter: "length kept \<le> length ?slice" by (metis length_take min.cobounded1)
  show prefix: "kept = take (length kept) rest"
    by (rule take_prefix_trans [OF conjunct1 [OF kept] fill_chunk_prefix])
  show "kept \<noteq> []" using kept by simp
  show "length kept \<le> max_points"
    using shorter fill_chunk_length [of 0 sz max_points max_bytes "sz (quota_history_upload_body generation [])" "[]" rest]
    by simp
  show "if fits then sz (quota_history_upload_body generation kept) \<le> max_bytes
      else kept = [hd rest] \<and> max_bytes < sz (quota_history_upload_body generation kept)"
  proof (cases fits)
    case False
    with kept have "length kept = 1" by simp
    then have "kept = take 1 rest" using prefix by simp
    with assms(1) have "kept = [hd rest]" by (cases rest) simp_all
    moreover from False kept have "max_bytes < sz (quota_history_upload_body generation kept)" by simp
    ultimately show ?thesis using False by simp
  qed (use kept in simp)
qed

lemma chunk_slices_carry:
  assumes "0 < max_points" "list_all (\<lambda>p. sz (quota_history_upload_body generation [p]) \<le> max_bytes) rest"
  shows "concat (chunk_slices sz generation max_points max_bytes rest) = rest \<and>
    list_all (\<lambda>slice. slice \<noteq> [] \<and> length slice \<le> max_points \<and>
      sz (quota_history_upload_body generation slice) \<le> max_bytes)
      (chunk_slices sz generation max_points max_bytes rest)"
  using assms
proof (induction sz generation max_points max_bytes rest rule: chunk_slices.induct)
  case (1 sz generation max_points max_bytes rest)
  show ?case
  proof (cases "rest = []")
    case False
    obtain fits kept where slice: "next_slice sz generation max_points max_bytes rest = (fits, kept)" by fastforce
    note kept = next_slice_prefix [OF False 1(2) slice]
    have "sz (quota_history_upload_body generation [hd rest]) \<le> max_bytes"
      using 1(3) False by (cases rest) simp_all
    with kept(4) have fits by (auto split: if_splits)
    have one: "max 1 (length kept) = length kept" using kept(2) by (cases kept) simp_all
    have unfold: "chunk_slices sz generation max_points max_bytes rest =
        kept # chunk_slices sz generation max_points max_bytes (drop (length kept) rest)"
      using False slice \<open>fits\<close> one by (simp add: chunk_slices.simps [of sz generation max_points max_bytes rest])
    have "list_all (\<lambda>p. sz (quota_history_upload_body generation [p]) \<le> max_bytes) (drop (length kept) rest)"
      using 1(3) by (auto simp: list_all_iff dest: in_set_dropD)
    from 1(1) [OF False slice [symmetric] refl, unfolded one, OF 1(2) this]
    have "concat (chunk_slices sz generation max_points max_bytes (drop (length kept) rest)) = drop (length kept) rest"
      and "list_all (\<lambda>slice. slice \<noteq> [] \<and> length slice \<le> max_points \<and>
        sz (quota_history_upload_body generation slice) \<le> max_bytes)
        (chunk_slices sz generation max_points max_bytes (drop (length kept) rest))" by simp_all
    with kept \<open>fits\<close> show ?thesis unfolding unfold
      by (simp add: append_take_drop_id [of "length kept" rest, folded kept(1)])
  qed (simp add: chunk_slices.simps)
qed

text \<open>C27: When no point alone is over the cap, the chunks of an upload carry every point exactly once,
  oldest first, and each chunk is within both caps whatever its encoded size turns out to be.\<close>

theorem chunks_carry_every_point:
  assumes "0 < max_points" "0 < max_bytes"
    and "list_all (\<lambda>p. sz (quota_history_upload_body generation [p]) \<le> max_bytes) points"
  shows "\<exists>slices. chunk_quota_history_upload sz points generation max_points max_bytes =
      map (quota_history_upload_body generation) slices
    \<and> concat slices = sort_key upload_order points
    \<and> list_all (\<lambda>slice. slice \<noteq> [] \<and> length slice \<le> max_points \<and>
        sz (quota_history_upload_body generation slice) \<le> max_bytes) slices"
proof (cases "points = []")
  case False
  have "list_all (\<lambda>p. sz (quota_history_upload_body generation [p]) \<le> max_bytes) (sort_key upload_order points)"
    using assms(3) by (simp add: list_all_iff)
  from chunk_slices_carry [OF assms(1) this] False assms(1,2) show ?thesis
    by (auto simp: chunk_quota_history_upload_def)
qed (simp add: chunk_quota_history_upload_def exI [of _ "[]"])

definition sample_upload :: "string \<Rightarrow> upload_point" where
  "sample_upload bucket = \<lparr>up_provider = ''codex'', up_fingerprint = ''f'', up_window_id = ''weekly'',
     up_duration = 604800, up_point = \<lparr>sp_resets_at = ''r'', sp_bucket_start = bucket, sp_used = 1\<rparr>\<rparr>"

theorem chunks_carry_every_point_witness:
  "\<exists>slices. chunk_quota_history_upload (\<lambda>_. 10) [sample_upload ''b'', sample_upload ''a''] 1 1 10 =
      map (quota_history_upload_body 1) slices
    \<and> concat slices = sort_key upload_order [sample_upload ''b'', sample_upload ''a'']
    \<and> list_all (\<lambda>slice. slice \<noteq> [] \<and> length slice \<le> 1 \<and> (10 :: nat) \<le> 10) slices"
  by (rule chunks_carry_every_point) simp_all

subsection \<open>What is planned for upload\<close>

lemma set_changed_points: "set (changed_points m ps) \<subseteq> set ps"
  by (induction m ps rule: changed_points.induct) auto

text \<open>The samples of a series that count for one point.\<close>

definition samples_of_point :: "externs \<Rightarrow> series_input \<Rightarrow> synced_point \<Rightarrow> history_sample list" where
  "samples_of_point x series p =
     filter (\<lambda>s. sample_wanted x series s \<and>
         canonical_rfc3339_utc x (hs_resets_at s) = Some (sp_resets_at p) \<and>
         quota_history_bucket_start_utc x (hs_observed_at s) (si_duration series) = Some (sp_bucket_start p))
       (si_samples series)"

lemma sample_bucket_Some:
  "sample_bucket x d cutoff s = Some (r, b) \<longleftrightarrow>
     canonical_rfc3339_utc x (hs_resets_at s) = Some r \<and>
     quota_history_bucket_start_utc x (hs_observed_at s) d = Some b \<and>
     (case instant_millis x b of None \<Rightarrow> False | Some t \<Rightarrow> cutoff \<le> t)"
  by (cases "instant_millis x b") (auto simp: sample_bucket_def bind_eq_Some_conv not_less)

lemma plan_series_point:
  assumes "p \<in> set (plan_series x now series)"
  shows "up_provider p = si_provider series \<and> up_fingerprint p = si_fingerprint series \<and>
    up_window_id p = si_window_id series \<and> up_duration p = si_duration series \<and>
    \<not> quota_history_upload_point_out_of_range x (sp_bucket_start (up_point p)) (si_duration series) now \<and>
    list_max (map hs_used (samples_of_point x series (up_point p))) = Some (sp_used (up_point p))"
proof -
  let ?d = "si_duration series"
  have d: "\<not> ?d < 0" using assms by (auto simp: plan_series_def split: if_splits)
  obtain cutoff where cutoff: "quota_history_span_cutoff_ms x ?d now 0 = Some cutoff"
    using assms d by (auto simp: plan_series_def bucket_quota_samples_def split: option.splits)
  let ?wanted = "filter (sample_wanted x series) (si_samples series)"
  let ?m = "fold (add_to_bucket x ?d cutoff) ?wanted []"
  have tops: "bucket.tops x ?d cutoff (set ?wanted) ?m"
    using bucket.tops_fold [OF bucket.tops_empty, of x ?d cutoff ?wanted] by (simp add: add_to_bucket_def)
  obtain q where q: "q \<in> set (changed_points (last_by_reset x (si_previous series)) (map snd ?m))"
    and range: "\<not> quota_history_upload_point_out_of_range x (sp_bucket_start q) ?d now"
    and p: "p = \<lparr>up_provider = si_provider series, up_fingerprint = si_fingerprint series,
              up_window_id = si_window_id series, up_duration = ?d, up_point = q\<rparr>"
    using assms d cutoff by (auto simp: plan_series_def bucket_quota_samples_def)
  from q set_changed_points obtain k where "(k, q) \<in> set ?m" by fastforce
  then obtain s where top: "bucket.top x ?d cutoff (set ?wanted) k s" and entry: "bucket_point x ?d cutoff s = q"
    using bucket.tops_entry [OF tops] by auto
  obtain r b where k: "k = (r, b)" by fastforce
  have s: "s \<in> set ?wanted" "sample_bucket x ?d cutoff s = Some (r, b)"
    and largest: "\<And>t. t \<in> set ?wanted \<Longrightarrow> sample_bucket x ?d cutoff t = Some (r, b) \<Longrightarrow> hs_used t \<le> hs_used s"
    using top unfolding bucket.top_def k by auto
  have q_eq: "sp_resets_at q = r" "sp_bucket_start q = b" "sp_used q = hs_used s"
    using entry s(2) by (auto simp: bucket_point_def)
  have same: "t \<in> set (samples_of_point x series q) \<longleftrightarrow>
      t \<in> set ?wanted \<and> sample_bucket x ?d cutoff t = Some (r, b)" for t
    using s(2) by (auto simp: samples_of_point_def sample_bucket_Some q_eq)
  have mem: "s \<in> set (samples_of_point x series q)" using same s by blast
  have "list_max (map hs_used (samples_of_point x series q)) = Some (hs_used s)"
  proof (cases "list_max (map hs_used (samples_of_point x series q))")
    case None
    with mem show ?thesis by auto
  next
    case (Some u)
    from list_max_Some [OF this] mem have "hs_used s \<le> u" "\<exists>t \<in> set (samples_of_point x series q). u = hs_used t"
      by auto
    with same largest have "u = hs_used s" by (auto intro: order_antisym)
    with Some show ?thesis by simp
  qed
  with range p q_eq show ?thesis by simp
qed

lemma samples_of_point_wanted:
  "list_max (map hs_used (samples_of_point x series p)) = Some u \<Longrightarrow> 0 \<le> u \<and> u \<le> 100"
  using list_max_Some [of "map hs_used (samples_of_point x series p)" u]
  by (auto simp: samples_of_point_def sample_wanted_def)

text \<open>Every point planned for an upload belongs to one of the series, is inside the range Relay
  accepts, carries a percentage, and carries the largest of the samples the series has in that bucket
  since its watermark; and the points are in upload order, oldest bucket first.\<close>

theorem planned_points_are_admissible:
  assumes "p \<in> set (plan_quota_history_upload x inputs now)"
  shows "sorted (map upload_order (plan_quota_history_upload x inputs now)) \<and>
    0 \<le> sp_used (up_point p) \<and> sp_used (up_point p) \<le> 100 \<and>
    list_ex (\<lambda>series. up_provider p = si_provider series \<and> up_fingerprint p = si_fingerprint series \<and>
      up_window_id p = si_window_id series \<and> up_duration p = si_duration series \<and>
      \<not> quota_history_upload_point_out_of_range x (sp_bucket_start (up_point p)) (si_duration series) now \<and>
      list_max (map hs_used (samples_of_point x series (up_point p))) = Some (sp_used (up_point p))) inputs"
proof -
  from assms obtain series where "series \<in> set inputs" "p \<in> set (plan_series x now series)"
    by (auto simp: plan_quota_history_upload_def)
  from this(1) plan_series_point [OF this(2)] show ?thesis
    using samples_of_point_wanted by (fastforce simp: list_ex_iff plan_quota_history_upload_def)
qed

definition sample_history_clock :: externs where
  "sample_history_clock = sample_externs\<lparr>instant_of := (\<lambda>s. Some (int (length s) * 1000000000))\<rparr>"

definition sample_series :: series_input where
  "sample_series = \<lparr>si_provider = ''codex'', si_fingerprint = ''f'', si_window_id = ''weekly'', si_duration = 604800,
     si_samples = [\<lparr>hs_observed_at = ''now'', hs_used = 40, hs_resets_at = ''later''\<rparr>,
       \<lparr>hs_observed_at = ''now'', hs_used = 60, hs_resets_at = ''later''\<rparr>],
     si_previous = [], si_watermark = None\<rparr>"

definition sample_planned :: upload_point where
  "sample_planned = \<lparr>up_provider = ''codex'', up_fingerprint = ''f'', up_window_id = ''weekly'', up_duration = 604800,
     up_point = \<lparr>sp_resets_at = ''sssss'', sp_bucket_start = [], sp_used = 60\<rparr>\<rparr>"

theorem planned_points_are_admissible_witness:
  "sorted (map upload_order (plan_quota_history_upload sample_history_clock [sample_series] ''now'')) \<and>
    0 \<le> sp_used (up_point sample_planned) \<and> sp_used (up_point sample_planned) \<le> 100 \<and>
    list_ex (\<lambda>series. up_provider sample_planned = si_provider series \<and>
      up_fingerprint sample_planned = si_fingerprint series \<and>
      up_window_id sample_planned = si_window_id series \<and> up_duration sample_planned = si_duration series \<and>
      \<not> quota_history_upload_point_out_of_range sample_history_clock
          (sp_bucket_start (up_point sample_planned)) (si_duration series) ''now'' \<and>
      list_max (map hs_used (samples_of_point sample_history_clock series (up_point sample_planned))) =
        Some (sp_used (up_point sample_planned))) [sample_series]"
proof (rule planned_points_are_admissible)
  show "sample_planned \<in> set (plan_quota_history_upload sample_history_clock [sample_series] ''now'')" by code_simp
qed

subsection \<open>The drawn curve\<close>

lemma set_decimate: "set (decimate kept es) \<subseteq> set es"
  by (induction kept es rule: decimate.induct) auto

lemma sorted_rising_from:
  "sorted (map snd (rising_from peak ss)) \<and>
     (\<forall>q. peak = Some q \<longrightarrow> list_all (\<lambda>e. q \<le> snd e) (rising_from peak ss))"
proof (induction peak ss rule: rising_from.induct)
  case (2 peak s ss)
  then show ?case
    by (cases peak) (auto simp: Let_def list_all_iff max_def split: if_splits)
qed simp

lemma map_fst_rising_from: "map fst (rising_from peak ss) = ss"
  by (induction peak ss rule: rising_from.induct) (simp_all add: Let_def)

lemma sorted_decimate: "sorted (map snd es) \<Longrightarrow> sorted (map snd (decimate kept es))"
proof (induction kept es rule: decimate.induct)
  case (2 kept e es)
  then show ?case using set_decimate [of "Some e" es] by (auto simp del: split_paired_All)
qed simp

definition far_enough :: "quota_sample \<times> rat \<Rightarrow> quota_sample \<times> rat \<Rightarrow> bool" where
  "far_enough a b \<longleftrightarrow> history_decimation_seconds \<le>
     seconds_toward_zero (sample_observed_at (fst b) - sample_observed_at (fst a))"

lemma decimate_far: "successively far_enough (case kept of None \<Rightarrow> decimate kept es | Some k \<Rightarrow> k # decimate kept es)"
proof (induction kept es rule: decimate.induct)
  case (2 kept e es)
  then show ?case by (cases kept) (auto simp: far_enough_def split: if_splits)
qed (simp split: option.split)

text \<open>The curve a surface draws for a window starts at the first reading, ends at the instant of the
  last, never falls, and but for its end keeps its points at least five minutes apart.\<close>

theorem curve_rises_and_keeps_its_ends:
  assumes "samples \<noteq> []"
  shows "sorted (map snd (thinned (rising samples))) \<and>
    fst (hd (thinned (rising samples))) = hd samples \<and>
    sample_observed_at (fst (last (thinned (rising samples)))) = sample_observed_at (last samples) \<and>
    (\<exists>kept end. thinned (rising samples) = kept @ end \<and> length end \<le> 1 \<and> successively far_enough kept)"
proof -
  let ?es = "rising samples" and ?kept = "decimate None (rising samples)"
  have fsts: "map fst ?es = samples" by (simp add: rising_def map_fst_rising_from)
  then have es: "?es \<noteq> []" using assms by auto
  have sorted: "sorted (map snd ?es)" using sorted_rising_from [of None samples] by (simp add: rising_def)
  have kept: "?kept \<noteq> []" "hd ?kept = hd ?es" using es by (cases ?es; simp)+
  have kept_sorted: "sorted (map snd ?kept)" by (rule sorted_decimate [OF sorted])
  have below: "snd e \<le> snd (last ?es)" if "e \<in> set ?kept" for e
  proof -
    have "e \<in> set ?es" using that set_decimate by fastforce
    then obtain i where "i < length ?es" "e = ?es ! i" by (auto simp: in_set_conv_nth)
    with sorted es show ?thesis
      using sorted_nth_mono [OF sorted, of i "length ?es - 1"] by (simp add: last_conv_nth)
  qed
  have "sorted (map snd (?kept @ [last ?es]))" using kept_sorted below by (auto simp: sorted_append)
  then have "sorted (map snd (thinned ?es))" using kept_sorted by (simp add: thinned_def Let_def)
  moreover have "fst (hd (thinned ?es)) = hd samples"
    using kept es fsts hd_map [OF es, of fst] by (simp add: thinned_def Let_def)
  moreover have "sample_observed_at (fst (last (thinned ?es))) = sample_observed_at (last samples)"
    using kept es fsts last_map [OF es, of fst] by (simp add: thinned_def Let_def)
  moreover have "\<exists>kept end. thinned ?es = kept @ end \<and> length end \<le> 1 \<and> successively far_enough kept"
    using decimate_far [of None ?es]
    by (intro exI [of _ ?kept] exI [of _ "drop (length ?kept) (thinned ?es)"]) (simp add: thinned_def Let_def)
  ultimately show ?thesis by blast
qed

theorem curve_rises_and_keeps_its_ends_witness:
  "sorted (map snd (thinned (rising [\<lparr>sample_resets_at = 9, sample_observed_at = 1, sample_used = 5\<rparr>]))) \<and>
    fst (hd (thinned (rising [\<lparr>sample_resets_at = 9, sample_observed_at = 1, sample_used = 5\<rparr>]))) =
      hd [\<lparr>sample_resets_at = 9, sample_observed_at = 1, sample_used = 5\<rparr>] \<and>
    sample_observed_at (fst (last (thinned (rising [\<lparr>sample_resets_at = 9, sample_observed_at = 1, sample_used = 5\<rparr>])))) =
      sample_observed_at (last [\<lparr>sample_resets_at = 9, sample_observed_at = 1, sample_used = 5\<rparr>]) \<and>
    (\<exists>kept end. thinned (rising [\<lparr>sample_resets_at = 9, sample_observed_at = 1, sample_used = 5\<rparr>]) = kept @ end \<and>
       length end \<le> 1 \<and> successively far_enough kept)"
  by (rule curve_rises_and_keeps_its_ends) simp

end
