(* ===== verification/Protobuf.thy ===== *)
theory Protobuf
  imports Prelude "HOL-Library.Word"
begin

unbundle bit_operations_syntax

text \<open>
  The schemaless reading of a protobuf message (\<open>read_varint\<close>, \<open>scan_protobuf\<close> of
  \<open>packages/service/src/providers/grok/billing_rpc.rs\<close>). Bytes are \<open>8 word\<close>, keys and values
  \<open>64 word\<close>, positions \<open>nat\<close>. The scan calls itself on a slice of its data and goes on at a later
  position, which is why it ends on any bytes. The end of a
  nested field is an exact sum: no slice has \<open>2 ^ 64 - 1\<close> bytes, so where \<open>saturating_add\<close> stops short
  of it both are past the end of the data. \<open>encode_varint\<close>, \<open>message\<close> and \<open>encode\<close> are the wire
  format itself: the lemmas show that the scan of an encoded message finds its numbers, every one with
  the path of fields it stands under.
\<close>

subsection \<open>Variable-length integers\<close>

function varint_from :: "8 word list \<Rightarrow> nat \<Rightarrow> nat \<Rightarrow> 64 word \<Rightarrow> (64 word \<times> nat) option" where
  "varint_from data index shift v =
     (if index < length data \<and> shift < 64
      then let byte = data ! index;
               v = v OR push_bit shift (ucast (byte AND 0x7f))
        in if byte AND 0x80 = 0 then Some (v, index + 1) else varint_from data (index + 1) (shift + 7) v
      else None)"
  by pat_completeness auto
termination by (relation "measure (\<lambda>(data, index, _). length data - index)") auto

declare varint_from.simps [simp del]

definition read_varint :: "8 word list \<Rightarrow> nat \<Rightarrow> (64 word \<times> nat) option" where
  "read_varint data index = varint_from data index 0 0"

lemma varint_from_advances: "varint_from data index shift v = Some (u, i) \<Longrightarrow> index < i \<and> i \<le> length data"
  by (induction data index shift v rule: varint_from.induct)
    (subst (asm) (2) varint_from.simps, force simp: Let_def split: if_splits)

lemma read_varint_advances: "read_varint data index = Some (u, i) \<Longrightarrow> index < i \<and> i \<le> length data"
  using varint_from_advances by (simp add: read_varint_def)

subsection \<open>The scan\<close>

record fixed32_field =
  f_path :: "64 word list"
  f_bits :: "32 word"
  f_order :: nat

record varint_field =
  v_path :: "64 word list"
  v_value :: "64 word"

record protobuf_scan =
  fixed32 :: "fixed32_field list"
  varints :: "varint_field list"

definition empty_scan :: protobuf_scan where
  "empty_scan = \<lparr>fixed32 = [], varints = []\<rparr>"

definition merge_scan :: "protobuf_scan \<Rightarrow> protobuf_scan \<Rightarrow> protobuf_scan" where
  "merge_scan a b = \<lparr>fixed32 = fixed32 a @ fixed32 b, varints = varints a @ varints b\<rparr>"

definition slice :: "nat \<Rightarrow> nat \<Rightarrow> 'a list \<Rightarrow> 'a list" where
  "slice start stop xs = take (stop - start) (drop start xs)"

definition u32_from_le_bytes :: "8 word list \<Rightarrow> 32 word" where
  "u32_from_le_bytes bs = foldr (\<lambda>b v. ucast b OR push_bit 8 v) bs 0"

lemma length_slice: "start \<le> stop \<Longrightarrow> stop \<le> length xs \<Longrightarrow> length (slice start stop xs) = stop - start"
  by (simp add: slice_def)

function scan_from ::
  "8 word list \<Rightarrow> nat \<Rightarrow> 64 word list \<Rightarrow> nat \<Rightarrow> nat \<Rightarrow> protobuf_scan \<Rightarrow> protobuf_scan" where
  "scan_from data depth path index order scan =
     (if index < length data
      then case read_varint data index of
        None \<Rightarrow> scan
      | Some (key, i) \<Rightarrow>
          if key = 0 then scan_from data depth path (index + 1) order scan
          else let field_path = path @ [drop_bit 3 key]; wire_type = key AND 7 in
          if wire_type = 0 then
            (case read_varint data i of
               Some (v, j) \<Rightarrow> scan_from data depth path j order
                 (scan\<lparr>varints := varints scan @ [\<lparr>v_path = field_path, v_value = v\<rparr>]\<rparr>)
             | None \<Rightarrow> scan_from data depth path (index + 1) order scan)
          else if wire_type = 1 then
            (if length data < i + 8 then scan else scan_from data depth path (i + 8) order scan)
          else if wire_type = 2 then
            (case read_varint data i of
               None \<Rightarrow> scan_from data depth path (index + 1) order scan
             | Some (len, start) \<Rightarrow>
                 let stop = start + unat len in
                 if length data < stop then scan_from data depth path (index + 1) order scan
                 else scan_from data depth path stop order
                   (if depth < 4
                    then merge_scan scan (scan_from (slice start stop data) (depth + 1) field_path 0 0 empty_scan)
                    else scan))
          else if wire_type = 5 then
            (if length data < i + 4 then scan
             else scan_from data depth path (i + 4) (order + 1)
               (scan\<lparr>fixed32 := fixed32 scan @
                 [\<lparr>f_path = field_path, f_bits = u32_from_le_bytes (slice i (i + 4) data), f_order = order\<rparr>]\<rparr>))
          else scan_from data depth path (index + 1) order scan
      else scan)"
  by pat_completeness auto
termination
  by (relation "measures [\<lambda>(data, _, _, index, _, _). length data, \<lambda>(data, _, _, index, _, _). length data - index]")
    (auto dest!: read_varint_advances simp: length_slice split: if_splits)

declare scan_from.simps [simp del]

definition scan_protobuf :: "8 word list \<Rightarrow> nat \<Rightarrow> 64 word list \<Rightarrow> protobuf_scan" where
  "scan_protobuf data depth path = scan_from data depth path 0 0 empty_scan"

subsection \<open>The wire format\<close>

text \<open>Bits of the bytes of a varint.\<close>

lemma bit_less: "unat (v :: 'a::len word) < 2 ^ n \<Longrightarrow> bit v k \<Longrightarrow> k < n"
proof (rule ccontr)
  assume v: "unat v < 2 ^ n" "bit v k" "\<not> k < n"
  then have "take_bit n v = v" 
    by (metis take_bit_nat_eq_self unsigned_take_bit_eq unsigned_word_eqI)
  with v show False by (metis bit_take_bit_iff)
qed

lemma low7: "(b :: 8 word) AND 0x7f = take_bit 7 b"
  by (simp add: take_bit_eq_mask mask_eq_exp_minus_1)

lemma bit_0x80: "bit (0x80 :: 8 word) n \<longleftrightarrow> n = 7"
  using bit_exp_iff [of 7 n, where ?'a = "8 word"] by (auto simp: possible_bit_def)

lemma top_bit: "(b :: 8 word) AND 0x80 = 0 \<longleftrightarrow> \<not> bit b 7"
proof -
  have "bit b 7 \<longleftrightarrow> bit (b AND 0x80) 7" by (simp add: bit_and_iff bit_0x80)
  moreover have "b AND 0x80 = 0" if "\<not> bit b 7"
    by (rule bit_word_eqI) (metis that bit_0x80 bit_and_iff bit_0_eq bot_apply bot_bool_def)
  ultimately show ?thesis by auto
qed

lemma last_byte:
  assumes "unat v < 128"
  shows "ucast (take_bit 7 (ucast v :: 8 word)) = (v :: 64 word)" "\<not> bit (ucast v :: 8 word) 7"
proof -
  have small: "bit v k \<Longrightarrow> k < 7" for k using bit_less [of v 7 k] assms by simp
  then show "\<not> bit (ucast v :: 8 word) 7" by (auto simp: bit_simps)
  show "ucast (take_bit 7 (ucast v :: 8 word)) = (v :: 64 word)"
    by (rule bit_word_eqI) (auto simp: bit_simps dest: small)
qed

lemma next_byte:
  "take_bit 7 (ucast v OR 0x80) = (take_bit 7 (ucast v) :: 8 word)" "bit (ucast v OR 0x80 :: 8 word) 7"
  by (auto intro!: bit_word_eqI simp: bit_simps bit_0x80)

lemma joined_bits:
  "(u OR push_bit shift (ucast (take_bit 7 (ucast v) :: 8 word))) OR push_bit (shift + 7) (drop_bit 7 v) = u OR push_bit shift (v :: 64 word)"
  (is "?l = ?r")
proof (rule bit_word_eqI)
  fix n
  have "7 + (n - (shift + 7)) = n - shift" if "shift + 7 \<le> n" using that by simp
  moreover have "n - shift < 7" if "\<not> shift + 7 \<le> n" "shift \<le> n" using that by simp
  ultimately show "n < LENGTH(64) \<Longrightarrow> bit ?l n \<longleftrightarrow> bit ?r n"
    by (cases "shift + 7 \<le> n") (auto simp: bit_simps)
qed
lemma unat_drop7: "unat (drop_bit 7 (v :: 64 word)) = unat v div 128"
  by (subst unat_drop_bit_eq) (simp add: drop_bit_eq_div)

text \<open>The key of a field.\<close>

lemma key_parts:
  assumes "unat n < 2 ^ 61" "unat w < 8"
  shows "drop_bit 3 (push_bit 3 n OR w) = (n :: 64 word)" "(push_bit 3 n OR w) AND 7 = w"
    "n \<noteq> 0 \<Longrightarrow> push_bit 3 n OR w \<noteq> 0"
proof -
  have n: "bit n k \<Longrightarrow> k < 61" and w: "bit w k \<Longrightarrow> k < 3" for k
    using bit_less [of n 61 k] bit_less [of w 3 k] assms by simp_all
  have "(7 :: 64 word) = mask 3" by (simp add: mask_eq_exp_minus_1)
  then have "v AND 7 = take_bit 3 v" for v :: "64 word" by (simp only: take_bit_eq_mask)
  then show "(push_bit 3 n OR w) AND 7 = w"
    by (intro bit_word_eqI) (auto simp: bit_simps dest: w)
  show "drop_bit 3 (push_bit 3 n OR w) = n"
    by (rule bit_word_eqI) (auto simp: bit_simps dest: n w)
  then show "n \<noteq> 0 \<Longrightarrow> push_bit 3 n OR w \<noteq> 0" by (metis drop_bit_of_0)
qed

function encode_varint :: "64 word \<Rightarrow> 8 word list" where
  "encode_varint v = (if unat v < 128 then [ucast v] else (ucast v OR 0x80) # encode_varint (drop_bit 7 v))"
  by pat_completeness auto
termination by (relation "measure unat") (auto simp: unat_drop7)

declare encode_varint.simps [simp del]

datatype message_field =
  Varint "64 word" "64 word"
| Fixed64 "64 word" "8 word list"
| Fixed32 "64 word" "32 word"
| Nested "64 word" "message_field list"

definition field_key :: "64 word \<Rightarrow> 64 word \<Rightarrow> 8 word list" where
  "field_key n wire_type = encode_varint (push_bit 3 n OR wire_type)"

definition u32_to_le_bytes :: "32 word \<Rightarrow> 8 word list" where
  "u32_to_le_bytes w = map (\<lambda>k. ucast (drop_bit (8 * k) w)) [0, 1, 2, 3]"

fun encode_field :: "message_field \<Rightarrow> 8 word list" where
  "encode_field (Varint n v) = field_key n 0 @ encode_varint v"
| "encode_field (Fixed64 n bs) = field_key n 1 @ bs"
| "encode_field (Fixed32 n w) = field_key n 5 @ u32_to_le_bytes w"
| "encode_field (Nested n fs) =
     (let body = concat (map encode_field fs)
      in field_key n 2 @ encode_varint (of_nat (length body)) @ body)"

abbreviation encode_message :: "message_field list \<Rightarrow> 8 word list" where
  "encode_message fs \<equiv> concat (map encode_field fs)"

definition field_number :: "64 word \<Rightarrow> bool" where
  "field_number n \<longleftrightarrow> n \<noteq> 0 \<and> unat n < 2 ^ 61"

fun well_formed :: "nat \<Rightarrow> message_field list \<Rightarrow> bool" where
  "well_formed levels [] = True"
| "well_formed levels (Varint n v # fs) = (field_number n \<and> well_formed levels fs)"
| "well_formed levels (Fixed64 n bs # fs) = (field_number n \<and> length bs = 8 \<and> well_formed levels fs)"
| "well_formed levels (Fixed32 n w # fs) = (field_number n \<and> well_formed levels fs)"
| "well_formed levels (Nested n ms # fs) =
     (field_number n \<and> 0 < levels \<and> length (encode_message ms) < 2 ^ 64 \<and> well_formed (levels - 1) ms \<and>
      well_formed levels fs)"

text \<open>The numbers of a message: every one with its path, the 32-bit ones with their place among those of
  their own message.\<close>

fun numbers :: "64 word list \<Rightarrow> nat \<Rightarrow> message_field list \<Rightarrow> protobuf_scan" where
  "numbers path order [] = empty_scan"
| "numbers path order (Varint n v # fs) =
     merge_scan \<lparr>fixed32 = [], varints = [\<lparr>v_path = path @ [n], v_value = v\<rparr>]\<rparr> (numbers path order fs)"
| "numbers path order (Fixed64 n bs # fs) = numbers path order fs"
| "numbers path order (Fixed32 n w # fs) =
     merge_scan \<lparr>fixed32 = [\<lparr>f_path = path @ [n], f_bits = w, f_order = order\<rparr>], varints = []\<rparr>
       (numbers path (order + 1) fs)"
| "numbers path order (Nested n ms # fs) = merge_scan (numbers (path @ [n]) 0 ms) (numbers path order fs)"

subsection \<open>Reading it back\<close>

lemma drop_appendD:
  assumes "drop i xs = ys @ zs" "ys \<noteq> []"
  shows "i < length xs" "xs ! i = hd ys" "drop (Suc i) xs = tl ys @ zs"
proof -
  show i: "i < length xs" using assms by (metis append_is_Nil_conv drop_all not_le)
  from Cons_nth_drop_Suc [OF i] assms show "xs ! i = hd ys" "drop (Suc i) xs = tl ys @ zs"
    by (cases ys; simp)+
qed

lemma drop_append_more: "drop i xs = ys @ zs \<Longrightarrow> drop (i + length ys) xs = zs"
  by (metis add.commute append_eq_conv_conj drop_drop)

lemma drop_within:
  assumes "drop i xs = ys @ zs" "ys \<noteq> [] \<or> i \<le> length xs"
  shows "i + length ys \<le> length xs"
  using arg_cong [OF assms(1), of length] assms(2) by (cases ys) auto

lemma varint_from_encode:
  assumes "drop index data = encode_varint v @ rest" "unat v < 2 ^ (64 - shift)" "shift < 64"
  shows "varint_from data index shift u = Some (u OR push_bit shift v, index + length (encode_varint v))"
  using assms
proof (induction v arbitrary: index shift u rule: encode_varint.induct)
  case (1 v)
  have nonempty: "encode_varint v \<noteq> []" by (subst encode_varint.simps) simp
  from 1(2) nonempty have start: "index < length data" "data ! index = hd (encode_varint v)"
    "drop (Suc index) data = tl (encode_varint v) @ rest"
    by (auto dest: drop_appendD)
  show ?case
  proof (cases "unat v < 128")
    case True
    with start 1(4) last_byte [OF True] show ?thesis
      by (simp add: varint_from.simps [of data index] encode_varint.simps [of v] low7 top_bit)
  next
    case False
    then have "7 < 64 - shift"
      using 1(3) power_increasing [of "64 - shift" 7 "2 :: nat"] by (cases "7 < 64 - shift") simp_all
    then have shift: "shift + 7 < 64" and "64 - shift = 7 + (64 - (shift + 7))" by simp_all
    from 1(3) [unfolded this(2) power_add] have "unat (drop_bit 7 v) < 2 ^ (64 - (shift + 7))"
      by (simp add: unat_drop7 div_less_iff_less_mult mult.commute)
    from "1.IH" [OF False _ this shift, of "Suc index"] False start 1(4) show ?thesis
      by (simp add: varint_from.simps [of data index] encode_varint.simps [of v] low7 top_bit next_byte joined_bits)
  qed
qed

lemma read_varint_encode:
  "drop index data = encode_varint v @ rest \<Longrightarrow> read_varint data index = Some (v, index + length (encode_varint v))"
  using varint_from_encode [of index data v rest 0 0] unsigned_less [of v, where ?'a = nat]
  by (simp add: read_varint_def)

lemma read_field_key:
  assumes "drop index data = field_key n w @ rest" "field_number n" "unat w < 8"
  obtains key i where "read_varint data index = Some (key, i)" "key \<noteq> 0" "drop_bit 3 key = n" "key AND 7 = w"
    "drop i data = rest" "index < length data"
proof -
  have "field_key n w \<noteq> []" unfolding field_key_def by (subst encode_varint.simps) simp
  with read_varint_encode [OF assms(1) [unfolded field_key_def]] key_parts [of n w] assms drop_append_more [OF assms(1)]
    drop_appendD(1) [OF assms(1)] that
  show ?thesis by (auto simp: field_number_def field_key_def)
qed

lemma u32_le_bytes: "u32_from_le_bytes (u32_to_le_bytes w) = w"
proof (rule bit_word_eqI)
  fix n assume "n < LENGTH(32)"
  then have "n < 8 \<or> n \<in> {8..<16} \<or> n \<in> {16..<24} \<or> n \<in> {24..<32}" by auto
  then show "bit (u32_from_le_bytes (u32_to_le_bytes w)) n \<longleftrightarrow> bit w n"
    by (auto simp: u32_from_le_bytes_def u32_to_le_bytes_def bit_simps)
qed

lemma merge_scan_assoc: "merge_scan (merge_scan a b) c = merge_scan a (merge_scan b c)"
  by (simp add: merge_scan_def)

lemma merge_empty: "merge_scan a empty_scan = a" "merge_scan empty_scan a = a"
  by (simp_all add: merge_scan_def empty_scan_def)

lemma scan_encoded:
  "drop index data = encode_message fs \<Longrightarrow> well_formed (4 - depth) fs \<Longrightarrow>
   scan_from data depth path index order scan = merge_scan scan (numbers path order fs)"
proof (induction path order fs arbitrary: data depth index scan rule: numbers.induct)
  case (1 path order)
  then show ?case by (simp add: scan_from.simps [of data] merge_empty)
next
  case (2 path order n v fs)
  then have "drop index data = field_key n 0 @ encode_varint v @ encode_message fs" "field_number n" by simp_all
  then obtain key i where key: "read_varint data index = Some (key, i)" "key \<noteq> 0" "drop_bit 3 key = n" "key AND 7 = 0"
    "drop i data = encode_varint v @ encode_message fs" "index < length data"
    by (rule read_field_key) simp
  from "2.IH" [OF drop_append_more [OF key(5)]] 2(3) key read_varint_encode [OF key(5)] show ?case
    by (simp add: scan_from.simps [of data _ _ index] merge_scan_def)
next
  case (3 path order n bs fs)
  then have "drop index data = field_key n 1 @ bs @ encode_message fs" "field_number n" by simp_all
  then obtain key i where key: "read_varint data index = Some (key, i)" "key \<noteq> 0" "drop_bit 3 key = n" "key AND 7 = 1"
    "drop i data = bs @ encode_message fs" "index < length data"
    by (rule read_field_key) simp
  from 3(3) have "bs \<noteq> []" by auto
  from "3.IH" [OF drop_append_more [OF key(5)]] 3(3) key drop_within [OF key(5) disjI1] \<open>bs \<noteq> []\<close> show ?case
    by (auto simp: scan_from.simps [of data _ _ index])
next
  case (4 path order n w fs)
  then have "drop index data = field_key n 5 @ u32_to_le_bytes w @ encode_message fs" "field_number n" by simp_all
  then obtain key i where key: "read_varint data index = Some (key, i)" "key \<noteq> 0" "drop_bit 3 key = n" "key AND 7 = 5"
    "drop i data = u32_to_le_bytes w @ encode_message fs" "index < length data"
    by (rule read_field_key) simp
  have length: "length (u32_to_le_bytes w) = 4" by (simp add: u32_to_le_bytes_def)
  from length have "u32_to_le_bytes w \<noteq> []" by auto
  note within_data = drop_within [OF key(5) disjI1, OF this]
  from length key(5) have "slice i (i + 4) data = u32_to_le_bytes w" by (simp add: slice_def)
  with "4.IH" [OF drop_append_more [OF key(5)]] 4(3) key within_data length u32_le_bytes show ?case
    by (auto simp: scan_from.simps [of data _ _ index] merge_scan_def)
next
  case (5 path order n ms fs)
  let ?body = "encode_message ms"
  from 5 have body: "drop index data = field_key n 2 @ (encode_varint (of_nat (length ?body)) @ ?body @ encode_message fs)"
    "field_number n" "length ?body < 2 ^ 64" "depth < 4"
    by (simp_all add: Let_def)
  from body(1,2) obtain key i where key: "read_varint data index = Some (key, i)" "key \<noteq> 0" "drop_bit 3 key = n"
    "key AND 7 = 2" "drop i data = encode_varint (of_nat (length ?body)) @ (?body @ encode_message fs)"
    "index < length data"
    by (rule read_field_key) simp
  note len = read_varint_encode [OF key(5)]
  define start where "start = i + length (encode_varint (of_nat (length ?body)))"
  have start: "drop start data = ?body @ encode_message fs" unfolding start_def by (rule drop_append_more [OF key(5)])
  have size: "unat (of_nat (length ?body) :: 64 word) = length ?body" using body(3) by (simp add: unat_of_nat)
  have "slice start (start + length ?body) data = ?body" using start by (simp add: slice_def)
  moreover have "well_formed (4 - (depth + 1)) ms" "well_formed (4 - depth) fs" using 5(4) by simp_all
  note "5.IH"(1) [of 0 ?body "depth + 1", OF _ this(1)] "5.IH"(2) [OF drop_append_more [OF start] this(2)]
  moreover have "start + length ?body \<le> length data" using drop_within [OF start] read_varint_advances [OF len] by (simp add: start_def)
  ultimately show ?case
    using key len body(4) size
    by (simp add: scan_from.simps [of data _ _ index] Let_def start_def [symmetric] merge_scan_assoc merge_empty)
qed

text \<open>C32: The scan of any well-formed message, at most four messages deep in one another, finds each of its
  numbers once, in order, with the path of field numbers it stands under.\<close>

theorem scan_finds_every_number:
  assumes "well_formed 4 fs"
  shows "scan_protobuf (encode_message fs) 0 [] = numbers [] 0 fs"
  using scan_encoded [of 0 "encode_message fs" fs 0] assms by (simp add: scan_protobuf_def merge_empty)

theorem scan_finds_every_number_witness:
  "scan_protobuf [10, 15, 13, 0, 0, 200, 65, 42, 8, 8, 128, 247, 196, 213, 6, 16, 0] 0 [] =
     \<lparr>fixed32 = [\<lparr>f_path = [1, 1], f_bits = 0x41C80000, f_order = 0\<rparr>],
      varints = [\<lparr>v_path = [1, 5, 1], v_value = 1790000000\<rparr>, \<lparr>v_path = [1, 5, 2], v_value = 0\<rparr>]\<rparr>"
proof -
  let ?fs = "[Nested 1 [Fixed32 1 0x41C80000, Nested 5 [Varint 1 1790000000, Varint 2 0]]]"
  have "encode_message ?fs = [10, 15, 13, 0, 0, 200, 65, 42, 8, 8, 128, 247, 196, 213, 6, 16, 0]" by code_simp
  moreover have "well_formed 4 ?fs" by code_simp
  ultimately show ?thesis using scan_finds_every_number [of ?fs] by (simp add: merge_scan_def empty_scan_def)
qed

definition count :: "protobuf_scan \<Rightarrow> nat" where
  "count s = length (fixed32 s) + length (varints s)"

lemma count_simps:
  "count empty_scan = 0" "count (merge_scan a b) = count a + count b"
  "count (scan\<lparr>varints := varints scan @ [f]\<rparr>) = count scan + 1"
  "count (scan\<lparr>fixed32 := fixed32 scan @ [g]\<rparr>) = count scan + 1"
  by (simp_all add: count_def empty_scan_def merge_scan_def)

lemma room_left:
  assumes "i < j" "j \<le> (n :: nat)" "0 < w"
  shows "w * (n - j) + 1 \<le> w * (n - i)"
proof -
  have "n - j + 1 \<le> n - i" using assms by simp
  then have "w * (n - j + 1) \<le> w * (n - i)" by (rule mult_le_mono2)
  with assms(3) show ?thesis unfolding distrib_left by linarith
qed

lemma scan_from_size:
  "depth \<le> 4 \<Longrightarrow> index \<le> length data \<Longrightarrow>
   count (scan_from data depth path index order scan) \<le> count scan + (5 - depth) * (length data - index)"
proof (induction "length data" arbitrary: data depth path index order scan rule: less_induct)
  case outer: less
  from outer.prems show ?case
  proof (induction "length data - index" arbitrary: index order scan rule: less_induct)
    case inner: less
    let ?room = "(5 - depth) * (length data - index)"
    have rest: "count (scan_from data depth path j ord s) \<le> count s + (5 - depth) * (length data - j)"
      if "index < j" "j \<le> length data" for j ord s
      by (rule inner.hyps) (use that inner.prems in simp_all)
    have later: "count (scan_from data depth path j ord s) + 1 \<le> count s + ?room"
      if "index < j" "j \<le> length data" for j ord s
      using rest [OF that, of ord s] room_left [OF that, of "5 - depth"] inner.prems by simp
    have nested: "count (scan_from data depth path j ord
        (merge_scan s (scan_from (slice i j data) (Suc depth) p 0 0 empty_scan))) \<le> count s + ?room"
      if "depth < 4" "index < i" "i \<le> j" "j \<le> length data" for i j ord s p
    proof -
      have "length (slice i j data) = j - i" using that by (simp add: slice_def)
      with outer.hyps [of "slice i j data" "Suc depth" 0 p 0 empty_scan] that
      have "count (scan_from (slice i j data) (Suc depth) p 0 0 empty_scan) \<le> (4 - depth) * (j - i)"
        by (simp add: count_simps)
      also have "\<dots> \<le> (5 - depth) * (j - i)" by (rule mult_le_mono1) simp
      finally have "count (scan_from (slice i j data) (Suc depth) p 0 0 empty_scan) + (5 - depth) * (length data - j)
        \<le> (5 - depth) * (j - i + (length data - j))" by (simp add: distrib_left)
      also have "\<dots> \<le> ?room" using that by (intro mult_le_mono2) simp
      finally show ?thesis using that rest [of j ord] by (simp add: count_simps le_trans [OF rest])
    qed
    show ?case
    proof (cases "index < length data")
      case True
      show ?thesis
      proof (cases "read_varint data index")
        case None
        with True show ?thesis by (simp add: scan_from.simps [of data _ _ index])
      next
        case (Some r)
        obtain key i where r: "r = (key, i)" by force
        note i = read_varint_advances [OF Some [unfolded r]]
        have weak: "count (scan_from data depth path j ord s) \<le> count s + ?room" 
          "count s = count scan + 1 \<Longrightarrow> count (scan_from data depth path j ord s) \<le> count scan + ?room"
          if "index < j" "j \<le> length data" for j ord s
          using later [OF that, of ord s] by linarith+
        show ?thesis
          unfolding scan_from.simps [of data depth path index order scan]
          using True Some i later [of "index + 1"]
          by (auto simp: r Let_def count_simps nested weak split: option.splits dest!: read_varint_advances)
      qed
    next
      case False
      then show ?thesis by (simp add: scan_from.simps [of data _ _ index])
    qed
  qed
qed

end
