(* ===== verification/Provider_Types.thy ===== *)
theory Provider_Types
  imports Text_Bytes Doubles
begin

text \<open>
  What a provider's collector answers with (\<open>packages/service/src/providers/common/types.rs\<close>): the
  category of a failure and the cadence that names a headline meter.
\<close>

datatype error_category =
  AuthRequired | AccessDenied | RateLimited | CategoryUnavailable | Unsupported | CategoryError

definition category_str :: "error_category \<Rightarrow> string" where
  "category_str c = (case c of
     AuthRequired \<Rightarrow> ''auth_required''
   | AccessDenied \<Rightarrow> ''unavailable'' | RateLimited \<Rightarrow> ''unavailable'' | CategoryUnavailable \<Rightarrow> ''unavailable''
   | Unsupported \<Rightarrow> ''unsupported''
   | CategoryError \<Rightarrow> ''error'')"

definition category_name :: "error_category \<Rightarrow> string" where
  "category_name c = (case c of
     AuthRequired \<Rightarrow> ''auth_required''
   | AccessDenied \<Rightarrow> ''access_denied''
   | RateLimited \<Rightarrow> ''unavailable'' | CategoryUnavailable \<Rightarrow> ''unavailable''
   | Unsupported \<Rightarrow> ''unsupported''
   | CategoryError \<Rightarrow> ''error'')"

record provider_error =
  category :: error_category
  source_id :: string
  retry_after_seconds :: "nat option"

definition provider_error_new :: "error_category \<Rightarrow> string \<Rightarrow> provider_error" where
  "provider_error_new c source = \<lparr>category = c, source_id = source, retry_after_seconds = None\<rparr>"

datatype window_cadence = FiveHour | Weekly | Monthly

definition cadence_wire :: "window_cadence \<Rightarrow> string" where
  "cadence_wire c = (case c of FiveHour \<Rightarrow> ''five_hour'' | Weekly \<Rightarrow> ''weekly'' | Monthly \<Rightarrow> ''monthly'')"

definition cadence_title :: "window_cadence \<Rightarrow> string" where
  "cadence_title c = (case c of FiveHour \<Rightarrow> ''5 Hours'' | Weekly \<Rightarrow> ''Weekly'' | Monthly \<Rightarrow> ''Monthly'')"

text \<open>\<open>None\<close> is a double that is not finite.\<close>

definition clamp_percent :: "rat option \<Rightarrow> rat" where
  "clamp_percent v = (case v of None \<Rightarrow> 0 | Some q \<Rightarrow> clamp 0 100 q)"

record quota_expiry =
  expires_at :: string
  lapsing :: nat

record quota_window =
  window_id :: string
  window_title :: string
  used_percent :: rat
  window_resets_at :: "string option"
  window_duration_seconds :: "nat option"
  primary_cadence :: "window_cadence option"
  remaining_value :: "rat option"
  limit_value :: "rat option"
  value_unit :: "string option"
  expiries :: "quota_expiry list"

lemma clamp_percent_bounds: "0 \<le> clamp_percent v" "clamp_percent v \<le> 100"
  by (auto simp: clamp_percent_def clamp_def split: option.splits)

end
