(* ===== verification/Civil_Time.thy ===== *)
theory Civil_Time
  imports Text_Bytes
begin

text \<open>
  The calendar the service computes itself (\<open>packages/service/src/providers/common/json.rs\<close> and
  \<open>now_rfc3339\<close>, \<open>civil_from_days\<close> of \<open>packages/service/src/state/mod.rs\<close>). Fixed-width integers wrap
  where a cast or an arithmetic result can leave its type. What the lemmas show: the two conversions
  are inverse from March of year 0 on, so a printed instant parses back to itself, and that the
  provider side loses a day before that.
\<close>

definition wrap_i64 :: "int \<Rightarrow> int" where "wrap_i64 v = (v + 2 ^ 63) mod 2 ^ 64 - 2 ^ 63"
definition wrap_i32 :: "int \<Rightarrow> int" where "wrap_i32 v = (v + 2 ^ 31) mod 2 ^ 32 - 2 ^ 31"
definition wrap_u32 :: "int \<Rightarrow> int" where "wrap_u32 v = v mod 2 ^ 32"

text \<open>The days of the provider side. Both of its divisions of a non-negative number truncate.\<close>

definition days_from_civil :: "int \<Rightarrow> int \<Rightarrow> int \<Rightarrow> int" where
  "days_from_civil year month day =
     (let year = (if month \<le> 2 then year - 1 else year);
          era = year div 400;
          year_of_era = year - era * 400;
          day_of_year = (153 * (month + (if 2 < month then - 3 else 9)) + 2) div 5 + day - 1;
          day_of_era = year_of_era * 365 + year_of_era div 4 - year_of_era div 100 + day_of_year
      in era * 146097 + day_of_era - 719468)"

definition year_of_day :: "int \<Rightarrow> int" where
  "year_of_day doe = (doe - doe div 1460 + doe div 36524 - doe div 146096) div 365"

definition civil_of_era :: "int \<Rightarrow> int \<Rightarrow> int \<times> int \<times> int" where
  "civil_of_era era doe =
     (let yoe = year_of_day doe;
          doy = doe - (365 * yoe + yoe div 4 - yoe div 100);
          mp = (5 * doy + 2) div 153;
          day = doy - (153 * mp + 2) div 5 + 1;
          month = mp + (if mp < 10 then 3 else - 9)
      in (yoe + era * 400, month, day))"

definition civil_from_days :: "int \<Rightarrow> int \<times> int \<times> int" where
  "civil_from_days days =
     (let z = days + 719468;
          era = (if 0 \<le> z then z else z - 146096) div 146097;
          (year, month, day) = civil_of_era era (z - era * 146097)
      in (wrap_i32 (wrap_i32 year + (if month \<le> 2 then 1 else 0)), wrap_u32 month, wrap_u32 day))"

text \<open>The store's own conversion divides with \<open>/\<close>, which truncates: there the adjustment of a negative
  \<open>z\<close> is what makes it a floor.\<close>

definition truncated_div :: "int \<Rightarrow> int \<Rightarrow> int" where
  "truncated_div a b = (if 0 \<le> a then a div b else - (- a div b))"

definition store_civil_from_days :: "int \<Rightarrow> int \<times> int \<times> int" where
  "store_civil_from_days days =
     (let z = days + 719468;
          era = truncated_div (if 0 \<le> z then z else z - 146096) 146097;
          (year, month, day) = civil_of_era era (z - era * 146097)
      in (year + (if month \<le> 2 then 1 else 0), month, day))"

subsection \<open>Instants as text\<close>

definition padded_year :: "int \<Rightarrow> string" where
  "padded_year y = (if y < 0 then CHR ''-'' # zero_padded 3 (nat (- y)) else zero_padded 4 (nat y))"

definition instant_text :: "int \<times> int \<times> int \<Rightarrow> int \<Rightarrow> string" where
  "instant_text = (\<lambda>(year, month, day) r.
     padded_year year @ ''-'' @ zero_padded 2 (nat month) @ ''-'' @ zero_padded 2 (nat day) @ ''T'' @
     zero_padded 2 (nat (r div 3600)) @ '':'' @ zero_padded 2 (nat (r mod 3600 div 60)) @ '':'' @
     zero_padded 2 (nat (r mod 60)) @ ''Z'')"

definition unix_seconds_to_iso :: "int \<Rightarrow> string" where
  "unix_seconds_to_iso s = instant_text (civil_from_days (s div 86400)) (s mod 86400)"

definition now_rfc3339 :: "int \<Rightarrow> string" where
  "now_rfc3339 s = instant_text (store_civil_from_days (s div 86400)) (s mod 86400)"

text \<open>The sign, hours and minutes after the time; \<open>rfind\<close> of a sign is its last place.\<close>

definition rfind_sign :: "string \<Rightarrow> nat option" where
  "rfind_sign s = (let places = filter (\<lambda>i. s ! i = CHR ''+'' \<or> s ! i = CHR ''-'') [0..<length s]
     in if places = [] then None else Some (last places))"

definition parse_zone :: "string \<Rightarrow> (string \<times> int) option" where
  "parse_zone s =
     (if s \<noteq> [] \<and> last s = CHR ''Z'' then Some (butlast s, 0)
      else Option.bind (rfind_sign s) (\<lambda>marker.
        let zone = drop marker s;
            sign = (if hd zone = CHR ''-'' then - 1 else 1);
            parts = split_on CHR '':'' (tl zone)
        in Option.bind (parse_i64 (hd parts)) (\<lambda>hours.
           Option.bind (parse_i64 (if length parts \<le> 1 then ''0'' else parts ! 1)) (\<lambda>minutes.
             Some (take marker s, wrap_i64 (sign * (hours * 3600 + minutes * 60)))))))"

definition nth_part :: "string list \<Rightarrow> nat \<Rightarrow> string option" where
  "nth_part parts i = (if i < length parts then Some (parts ! i) else None)"

definition parse_rfc3339 :: "string \<Rightarrow> int option" where
  "parse_rfc3339 s =
     Option.bind (case split_once CHR ''T'' s of None \<Rightarrow> split_once CHR '' '' s | Some p \<Rightarrow> Some p) (\<lambda>(date, rest).
       let dates = split_on CHR ''-'' date in
       Option.bind (Option.bind (nth_part dates 0) parse_i32) (\<lambda>year.
       Option.bind (Option.bind (nth_part dates 1) parse_u32) (\<lambda>month.
       Option.bind (Option.bind (nth_part dates 2) parse_u32) (\<lambda>day.
       Option.bind (parse_zone rest) (\<lambda>(time, offset).
         let times = split_on CHR '':'' time in
         Option.bind (Option.bind (nth_part times 0) parse_i64) (\<lambda>hour.
         Option.bind (Option.bind (nth_part times 1) parse_i64) (\<lambda>minute.
         Option.bind (Option.bind (nth_part times 2) (\<lambda>t. parse_i64 (hd (split_on CHR ''.'' t)))) (\<lambda>second.
           if month = 0 \<or> 12 < month \<or> day = 0 \<or> 31 < day \<or> 23 < hour \<or> 59 < minute \<or> 60 < second
           then None
           else Some (wrap_i64 (days_from_civil year month day * 86400 + hour * 3600 + minute * 60 + second
             - offset))))))))))"

subsection \<open>The year of a day\<close>

definition year_start :: "int \<Rightarrow> int" where
  "year_start y = 365 * y + y div 4 - y div 100"

text \<open>A day of the 400 years is a century, a group of four years in it, a year in the group and a day in
  the year, counted from the first of March.\<close>

lemma year_of_day_parts:
  fixes c q t r :: int
  assumes "0 \<le> c" "c \<le> 3" "0 \<le> q" "q \<le> 24" "0 \<le> t" "t \<le> 3" "0 \<le> r"
    and "r \<le> 364 \<or> t = 3 \<and> r = 365"
    and "36524 * c + (1461 * q + 365 * t + r) = doe" "1461 * q + 365 * t + r < 36524 \<or> doe = 146096"
  shows "year_of_day doe = 100 * c + 4 * q + t" "doe = year_start (100 * c + 4 * q + t) + r"
proof -
  define j where "j = (24 * c + q + 365 * t + r) div 1460"
  have j: "j = 0 \<and> r \<le> 364 \<or> j = 1 \<and> 269 \<le> r \<and> r \<le> 365"
  proof (cases "24 * c + q + 365 * t + r < 1460")
    case True
    then have "j = 0" unfolding j_def using assms by (intro div_pos_pos_trivial) simp_all
    with assms True show ?thesis by auto
  next
    case False
    have "24 * c + q + 365 * t + r < 2920" using assms by auto
    with False have "j = 1" unfolding j_def by (intro int_div_pos_eq [of _ _ _ "24 * c + q + 365 * t + r - 1460"]) simp_all
    with assms False show ?thesis by auto
  qed
  have "doe = 1460 * (25 * c + q) + (24 * c + q + 365 * t + r)" using assms(9) by simp
  then have k: "doe div 1460 = 25 * c + q + j" unfolding j_def by simp
  have "doe div 36524 - doe div 146096 = c"
  proof (cases "doe = 146096")
    case True
    with assms show ?thesis by auto
  next
    case False
    with assms have "doe div 36524 = c" by (intro int_div_pos_eq [of _ _ _ "1461 * q + 365 * t + r"]) auto
    moreover from False assms have "doe div 146096 = 0" by (intro div_pos_pos_trivial) auto
    ultimately show ?thesis by simp
  qed
  with k have n: "doe - doe div 1460 + doe div 36524 - doe div 146096 = 365 * (100 * c + 4 * q + t) + (r - j)"
    using assms(9) by simp
  show "year_of_day doe = 100 * c + 4 * q + t"
    unfolding year_of_day_def n by (intro int_div_pos_eq [of _ _ _ "r - j"]) (use j assms(7) in auto)
  have "(100 * c + 4 * q + t) div 4 = 25 * c + q" "(100 * c + 4 * q + t) div 100 = c"
    using assms by (auto intro: int_div_pos_eq [of _ _ _ t] int_div_pos_eq [of _ _ _ "4 * q + t"])
  then show "doe = year_start (100 * c + 4 * q + t) + r"
    unfolding year_start_def using assms(9) by simp
qed

lemma year_of_day_bounds:
  assumes "0 \<le> doe" "doe \<le> 146096"
  shows "0 \<le> year_of_day doe" "year_of_day doe \<le> 399"
    "0 \<le> doe - year_start (year_of_day doe)" "doe - year_start (year_of_day doe) \<le> 365"
proof -
  define c where "c = min 3 (doe div 36524)"
  define e where "e = doe - 36524 * c"
  define q where "q = e div 1461"
  define t where "t = min 3 (e mod 1461 div 365)"
  define r where "r = e mod 1461 - 365 * t"
  have c: "0 \<le> c" "c \<le> 3" using assms by (auto simp: c_def pos_imp_zdiv_nonneg_iff)
  have e: "0 \<le> e" "e < 36524 \<or> e = 36524 \<and> doe = 146096"
    using assms minus_div_mult_eq_mod [of doe 36524] pos_mod_sign [of 36524 doe] pos_mod_bound [of 36524 doe]
    by (auto simp: e_def c_def min_def)
  have q: "0 \<le> q" "q \<le> 24" using e by (auto simp: q_def pos_imp_zdiv_nonneg_iff)
  have m: "0 \<le> e mod 1461" "e mod 1461 \<le> 1460" by simp_all
  have t: "0 \<le> t" "t \<le> 3" using m by (auto simp: t_def pos_imp_zdiv_nonneg_iff)
  have r: "0 \<le> r" "r \<le> 364 \<or> t = 3 \<and> r = 365"
  proof -
    have "365 * (w div 365) \<le> w \<and> w \<le> 365 * (w div 365) + 364" for w :: int by presburger
    from this [of "e mod 1461"] m show "0 \<le> r" "r \<le> 364 \<or> t = 3 \<and> r = 365"
      unfolding r_def t_def min_def by (auto split: if_splits)
  qed
  have sum: "1461 * q + 365 * t + r = e" by (simp add: q_def r_def)
  have "36524 * c + (1461 * q + 365 * t + r) = doe" unfolding sum by (simp add: e_def)
  from year_of_day_parts [OF c q t r this] e sum
  have "year_of_day doe = 100 * c + 4 * q + t" "doe = year_start (100 * c + 4 * q + t) + r" by auto
  then show "0 \<le> year_of_day doe" "year_of_day doe \<le> 399"
    "0 \<le> doe - year_start (year_of_day doe)" "doe - year_start (year_of_day doe) \<le> 365"
    using c q t r by auto
qed

lemma civil_of_era_inverse:
  assumes "0 \<le> doe" "doe \<le> 146096" "civil_of_era era doe = (year, month, day)"
  shows "days_from_civil (year + (if month \<le> 2 then 1 else 0)) month day = era * 146097 + doe - 719468"
    "1 \<le> month" "month \<le> 12" "1 \<le> day" "day \<le> 31"
proof -
  define yoe doy mp where "yoe = year_of_day doe" and "doy = doe - year_start yoe" and "mp = (5 * doy + 2) div 153"
  note year = year_of_day_bounds [OF assms(1,2), folded yoe_def, folded doy_def]
  have doy: "doy = doe - (365 * yoe + yoe div 4 - yoe div 100)" by (simp add: doy_def year_start_def)
  have "civil_of_era era doe = (yoe + era * 400, mp + (if mp < 10 then 3 else - 9), doy - (153 * mp + 2) div 5 + 1)"
    unfolding civil_of_era_def Let_def yoe_def [symmetric] doy [symmetric] mp_def [symmetric] by (rule refl)
  then have parts: "year = yoe + era * 400" "month = mp + (if mp < 10 then 3 else - 9)"
    "day = doy - (153 * mp + 2) div 5 + 1"
    using assms(3) by simp_all
  have mp: "0 \<le> mp" "mp \<le> 11" using year by (auto simp: mp_def)
  define w where "w = (153 * mp + 2) div 5"
  have divs: "k * (n div k) \<le> n \<and> n < k * (n div k) + k" if "0 < k" for n k :: int
    unfolding mult.commute [of k]
    using minus_div_mult_eq_mod [of n k] pos_mod_sign [OF that, of n] pos_mod_bound [OF that, of n] by linarith
  have "153 * mp \<le> 5 * doy + 2" "5 * doy + 2 < 153 * mp + 153" using divs [of 153 "5 * doy + 2"] by (simp_all add: mp_def)
  moreover have "5 * w \<le> 153 * mp + 2" "153 * mp + 2 < 5 * w + 5" using divs [of 5 "153 * mp + 2"] by (simp_all add: w_def)
  ultimately have "5 * w \<le> 5 * doy + 4" "5 * doy < 5 * w + 154" by linarith+
  then have "w \<le> doy" "doy \<le> w + 30" by presburger+
  then show "1 \<le> day" "day \<le> 31" unfolding parts w_def by simp_all
  show "1 \<le> month" "month \<le> 12" using mp by (auto simp: parts)
  have small: "month \<le> 2 \<longleftrightarrow> 10 \<le> mp" using mp by (auto simp: parts)
  then have shifted: "month + (if 2 < month then - 3 else 9) = mp" using mp by (auto simp: parts)
  have "(yoe + era * 400) div 400 = era" using year by (intro int_div_pos_eq [of _ _ _ yoe]) auto
  then show "days_from_civil (year + (if month \<le> 2 then 1 else 0)) month day = era * 146097 + doe - 719468"
    using doy shifted by (simp add: days_from_civil_def Let_def parts(1,3))
qed

lemma era_of_day:
  assumes "- 719468 \<le> days"
  shows "civil_from_days days = (case civil_of_era ((days + 719468) div 146097) ((days + 719468) mod 146097) of
      (year, month, day) \<Rightarrow> (wrap_i32 (wrap_i32 year + (if month \<le> 2 then 1 else 0)), wrap_u32 month, wrap_u32 day))"
  using assms by (simp add: civil_from_days_def Let_def minus_div_mult_eq_mod)

lemma civil_from_days_inverse:
  assumes "- 719468 \<le> days" "days \<le> 2 ^ 39" "civil_from_days days = (year, month, day)"
  shows "days_from_civil year month day = days" "0 \<le> year" "year < 2 ^ 31 - 1" "1 \<le> month" "month \<le> 12"
    "1 \<le> day" "day \<le> 31"
proof -
  let ?z = "days + 719468"
  obtain y m d where civil: "civil_of_era (?z div 146097) (?z mod 146097) = (y, m, d)" by (metis prod_cases3)
  note inverse = civil_of_era_inverse [OF _ _ civil]
  have in_range: "0 \<le> ?z mod 146097" "?z mod 146097 \<le> 146096" by simp_all
  have era: "0 \<le> ?z div 146097" "?z div 146097 \<le> 3762967"
    using assms by (auto simp: pos_imp_zdiv_nonneg_iff)
  have "y = year_of_day (?z mod 146097) + ?z div 146097 * 400"
    using civil by (simp add: civil_of_era_def Let_def)
  with year_of_day_bounds [OF in_range] era have y: "0 \<le> y" "y \<le> 1505187199" by auto
  have "wrap_i32 y = y" "wrap_i32 (y + 1) = y + 1" using y by (simp_all add: wrap_i32_def)
  moreover have "wrap_u32 m = m" "wrap_u32 d = d" using inverse in_range by (simp_all add: wrap_u32_def)
  ultimately have ymd: "year = y + (if m \<le> 2 then 1 else 0)" "month = m" "day = d"
    using assms(3) by (auto simp: era_of_day [OF assms(1)] civil split: if_splits)
  from inverse [OF in_range] y ymd show "days_from_civil year month day = days" "0 \<le> year" "year < 2 ^ 31 - 1"
    "1 \<le> month" "month \<le> 12" "1 \<le> day" "day \<le> 31" by (auto simp: algebra_simps)
qed

text \<open>Before March of year 0 the provider side subtracts a whole era too much, and the store does not.\<close>

lemma before_year_zero:
  "civil_from_days (- 719470) = (0, 2, 29)" "store_civil_from_days (- 719470) = (0, 2, 28)"
  "days_from_civil 0 2 28 = - 719470"
  by code_simp+

subsection \<open>Printing and parsing\<close>

lemma parse_padded:
  assumes "low \<le> int n" "int n \<le> high"
  shows "parse_integer low high (zero_padded w n) = Some (int n)"
  using parse_integer_digits [OF zero_padded_digits zero_padded_not_Nil, of low w n high] assms by simp

lemma parse_padded_int:
  assumes "0 \<le> k" "low \<le> k" "k \<le> high"
  shows "parse_integer low high (zero_padded w (nat k)) = Some k"
  using parse_padded [of low "nat k" high w] assms by simp

lemma padded_no_separator:
  "c \<in> set ''-T:Z. +'' \<Longrightarrow> c \<notin> set (zero_padded w n)"
  using digits_no_char [OF zero_padded_digits, of c w n] by (auto simp: is_digit_def byte_def)

lemma parse_rfc3339_parts:
  assumes "split_once CHR ''T'' s = Some (date, rest)" "split_on CHR ''-'' date = [y, mo, d]"
    "parse_i32 y = Some year" "parse_u32 mo = Some month" "parse_u32 d = Some day"
    "parse_zone rest = Some (clock, offset)" "split_on CHR '':'' clock = [h, mi, sec]"
    "parse_i64 h = Some hour" "parse_i64 mi = Some minute" "split_on CHR ''.'' sec = [whole]"
    "parse_i64 whole = Some second"
  shows "parse_rfc3339 s =
    (if month = 0 \<or> 12 < month \<or> day = 0 \<or> 31 < day \<or> 23 < hour \<or> 59 < minute \<or> 60 < second then None
     else Some (wrap_i64 (days_from_civil year month day * 86400 + hour * 3600 + minute * 60 + second - offset)))"
  using assms by (simp add: parse_rfc3339_def nth_part_def Let_def)

lemma parse_zone_utc: "parse_zone (t @ ''Z'') = Some (t, 0)"
  by (simp add: parse_zone_def)

lemma parse_instant_text:
  assumes "0 \<le> year" "year \<le> 2 ^ 31 - 1" "1 \<le> month" "month \<le> 12" "1 \<le> day" "day \<le> 31"
    and "0 \<le> r" "r < 86400"
  shows "parse_rfc3339 (instant_text (year, month, day) r) =
    Some (wrap_i64 (days_from_civil year month day * 86400 + r))"
proof -
  let ?date = "zero_padded 4 (nat year) @ CHR ''-'' # zero_padded 2 (nat month) @ CHR ''-'' # zero_padded 2 (nat day)"
  let ?time = "zero_padded 2 (nat (r div 3600)) @ CHR '':'' # zero_padded 2 (nat (r mod 3600 div 60)) @ CHR '':'' #
    zero_padded 2 (nat (r mod 60))"
  have printed: "instant_text (year, month, day) r = ?date @ CHR ''T'' # ?time @ [CHR ''Z'']"
    using assms(1) by (simp add: instant_text_def padded_year_def)
  note plain = padded_no_separator [of "CHR ''T''"] padded_no_separator [of "CHR ''-''"] padded_no_separator [of "CHR '':''"]
    padded_no_separator [of "CHR ''.''"]
  have once: "split_once CHR ''T'' (?date @ CHR ''T'' # ?time @ [CHR ''Z'']) = Some (?date, ?time @ [CHR ''Z''])"
    using plain by (intro split_once_append) simp
  have dates: "split_on CHR ''-'' ?date = [zero_padded 4 (nat year), zero_padded 2 (nat month), zero_padded 2 (nat day)]"
    using plain by (simp add: split_on_append split_on_none)
  have times: "split_on CHR '':'' ?time =
      [zero_padded 2 (nat (r div 3600)), zero_padded 2 (nat (r mod 3600 div 60)), zero_padded 2 (nat (r mod 60))]"
    using plain by (simp add: split_on_append split_on_none)
  have zone: "parse_zone (?time @ [CHR ''Z'']) = Some (?time, 0)"
    by (rule parse_zone_utc)
  have secs: "split_on CHR ''.'' (zero_padded 2 n) = [zero_padded 2 n]" for n
    using plain by (simp add: split_on_none)
  have clock: "0 \<le> r div 3600" "r div 3600 \<le> 23" "0 \<le> r mod 3600 div 60" "r mod 3600 div 60 \<le> 59"
    using assms(7,8) by (auto simp: pos_imp_zdiv_nonneg_iff)
  have total: "r div 3600 * 3600 + r mod 3600 div 60 * 60 + r mod 60 = r"
  proof -
    have "r mod 3600 mod 60 = r mod 60" by (simp add: mod_mod_cancel)
    with div_mult_mod_eq [of "r mod 3600" 60] div_mult_mod_eq [of r 3600] show ?thesis by linarith
  qed
  have parsed: "parse_i32 (zero_padded 4 (nat year)) = Some year" "parse_u32 (zero_padded 2 (nat month)) = Some month"
    "parse_u32 (zero_padded 2 (nat day)) = Some day" "parse_i64 (zero_padded 2 (nat (r div 3600))) = Some (r div 3600)"
    "parse_i64 (zero_padded 2 (nat (r mod 3600 div 60))) = Some (r mod 3600 div 60)"
    "parse_i64 (zero_padded 2 (nat (r mod 60))) = Some (r mod 60)"
    using assms clock by (auto intro!: parse_padded_int)
  have "r mod 60 \<le> 60" by simp
  with clock assms total show ?thesis
    unfolding printed parse_rfc3339_parts [OF once dates parsed(1-3) zone times parsed(4,5) secs parsed(6)]
    by (simp add: add.assoc)
qed

lemma iso_parses:
  assumes "- 62162035200 \<le> s" "s \<le> 2 ^ 55"
  shows "parse_rfc3339 (unix_seconds_to_iso s) = Some s"
proof -
  obtain year month day where civil: "civil_from_days (s div 86400) = (year, month, day)" by (metis prod_cases3)
  have "- 719468 \<le> s div 86400" "s div 86400 \<le> 2 ^ 39" using assms by auto
  note date = civil_from_days_inverse [OF this civil]
  have "parse_rfc3339 (unix_seconds_to_iso s) = Some (wrap_i64 (days_from_civil year month day * 86400 + s mod 86400))"
    unfolding unix_seconds_to_iso_def civil by (rule parse_instant_text) (use date in simp_all)
  also have "days_from_civil year month day * 86400 + s mod 86400 = s" by (simp add: date(1))
  also have "wrap_i64 s = s" using assms by (simp add: wrap_i64_def)
  finally show ?thesis .
qed

text \<open>C30: Every instant from March of year 0 on, for a billion years, printed by the provider side parses
  back to itself.\<close>

theorem iso_round_trip:
  assumes "- 62162035200 \<le> s" "s \<le> 2 ^ 55"
  shows "parse_rfc3339 (unix_seconds_to_iso s) = Some s"
  using assms by (rule iso_parses)

theorem iso_round_trip_witness: "parse_rfc3339 (unix_seconds_to_iso 1790000000) = Some 1790000000"
  by (rule iso_round_trip) simp_all

text \<open>Before March of year 0 the round trip fails: the last of February but one of year 0 prints as
  a day later.\<close>

theorem iso_before_year_zero:
  "unix_seconds_to_iso (- 62162208000) = ''0000-02-29T00:00:00Z'' \<and>
   parse_rfc3339 ''0000-02-28T00:00:00Z'' = Some (- 62162208000)"
  by code_simp

end
