(* ===== verification/Grok_Billing.thy ===== *)
theory Grok_Billing
  imports Protobuf Provider_Types Civil_Time
begin

text \<open>
  What grok.com's billing RPC answered (\<open>packages/service/src/providers/grok/billing_rpc.rs\<close>): the
  gRPC-web frames, the trailer that carries the status, and the reading found among the numbers of the
  protobuf payloads. The bytes are the response body, whatever they are; a text is made of the bytes a
  trailer frame holds. The lemmas show what any body can be read as and when it is refused.
\<close>

subsection \<open>Frames\<close>

definition u32_from_be_bytes :: "8 word list \<Rightarrow> nat" where
  "u32_from_be_bytes bs = foldl (\<lambda>v b. 256 * v + unat b) 0 bs"

text \<open>One data frame that is cut off leaves no frames at all; fewer than five bytes after the last frame
  are ignored.\<close>

function grpc_web_data_frames_from :: "8 word list \<Rightarrow> nat \<Rightarrow> 8 word list list \<Rightarrow> 8 word list list" where
  "grpc_web_data_frames_from data index frames =
     (if index + 5 \<le> length data
      then let flags = data ! index;
               start = index + 5;
               stop = start + u32_from_be_bytes (slice (index + 1) (index + 5) data)
        in if length data < stop then []
           else grpc_web_data_frames_from data stop
             (if flags AND 0x80 = 0 then frames @ [slice start stop data] else frames)
      else frames)"
  by pat_completeness auto
termination by (relation "measure (\<lambda>(data, index, _). length data - index)") auto

definition grpc_web_data_frames :: "8 word list \<Rightarrow> 8 word list list" where
  "grpc_web_data_frames data = grpc_web_data_frames_from data 0 []"

definition text_of_bytes :: "8 word list \<Rightarrow> string" where
  "text_of_bytes bs = map (\<lambda>b. char_of (unat b)) bs"

definition trailer_line :: "string \<Rightarrow> (string \<rightharpoonup> string) \<Rightarrow> (string \<rightharpoonup> string)" where
  "trailer_line line named =
     (case split_once CHR '':'' line of
        None \<Rightarrow> named
      | Some (key, v) \<Rightarrow> named(to_ascii_lowercase (trim key) \<mapsto> trim v))"

definition trailer_lines :: "string \<Rightarrow> string list" where
  "trailer_lines s = concat (map (split_on CHR 0x0D) (split_on CHR 0x0A s))"

function grpc_web_trailer_fields_from :: "8 word list \<Rightarrow> nat \<Rightarrow> (string \<rightharpoonup> string) \<Rightarrow> (string \<rightharpoonup> string)" where
  "grpc_web_trailer_fields_from data index named =
     (if index + 5 \<le> length data
      then let flags = data ! index;
               start = index + 5;
               stop = start + u32_from_be_bytes (slice (index + 1) (index + 5) data);
               body = text_of_bytes (slice start stop data)
        in if length data < stop then named
           else grpc_web_trailer_fields_from data stop
             (if flags AND 0x80 \<noteq> 0 \<and> utf8_valid body then fold trailer_line (trailer_lines body) named else named)
      else named)"
  by pat_completeness auto
termination by (relation "measure (\<lambda>(data, index, _). length data - index)") auto

definition grpc_web_trailer_fields :: "8 word list \<Rightarrow> (string \<rightharpoonup> string)" where
  "grpc_web_trailer_fields data = grpc_web_trailer_fields_from data 0 (\<lambda>_. None)"

declare grpc_web_data_frames_from.simps [simp del] grpc_web_trailer_fields_from.simps [simp del]

definition looks_like_protobuf :: "8 word list \<Rightarrow> bool" where
  "looks_like_protobuf data =
     (case data of [] \<Rightarrow> False
      | first # _ \<Rightarrow> 0 < unat (drop_bit 3 first) \<and> unat (first AND 7) \<in> {0, 1, 2, 5})"

subsection \<open>Single precision\<close>

definition f32_is_finite :: "32 word \<Rightarrow> bool" where
  "f32_is_finite bits \<longleftrightarrow> unat (drop_bit 23 bits AND 0xFF) \<noteq> 255"

definition f32_value :: "32 word \<Rightarrow> rat" where
  "f32_value bits =
     (let exponent = int (unat (drop_bit 23 bits AND 0xFF));
          fraction = int (unat (bits AND 0x7FFFFF));
          size = (if exponent = 0 then of_int fraction * power_of_two (- 149)
                  else of_int (2 ^ 23 + fraction) * power_of_two (exponent - 150))
      in if unat (drop_bit 31 bits) = 1 then - size else size)"

subsection \<open>The reading\<close>

record billing =
  billing_percent :: rat
  billing_resets_at :: "int option"

definition grpc_status_error :: "int \<Rightarrow> string \<Rightarrow> string \<Rightarrow> provider_error" where
  "grpc_status_error status message source =
     (let lower = to_ascii_lowercase message in
      if status = 16 \<or> status = 7 \<and>
          (text_contains ''unauthenticated'' lower \<or> text_contains ''bad-credentials'' lower \<or>
           text_contains ''no-credentials'' lower \<or> text_contains ''no credentials'' lower)
      then provider_error_new AuthRequired source
      else if status = 9 \<and> text_contains ''no personal team'' lower then provider_error_new Unsupported source
      else if status = 4 \<or> status = 14 then provider_error_new CategoryUnavailable source
      else provider_error_new CategoryError source)"

text \<open>\<open>min_by\<close> keeps the first of equal ones.\<close>

definition nearer :: "fixed32_field \<Rightarrow> fixed32_field option \<Rightarrow> fixed32_field option" where
  "nearer f best = (case best of
     None \<Rightarrow> Some f
   | Some b \<Rightarrow>
       if length (f_path f) < length (f_path b) \<or> length (f_path f) = length (f_path b) \<and> f_order f < f_order b
       then Some f else Some b)"

definition percent_field :: "fixed32_field \<Rightarrow> bool" where
  "percent_field f \<longleftrightarrow> f_path f \<noteq> [] \<and> last (f_path f) = 1 \<and> f32_is_finite (f_bits f) \<and>
     0 \<le> f32_value (f_bits f) \<and> f32_value (f_bits f) \<le> 100"

definition reset_fields :: "varint_field list \<Rightarrow> (64 word list \<times> int) list" where
  "reset_fields named = map (\<lambda>f. (v_path f, uint (v_value f)))
     (filter (\<lambda>f. 1700000000 \<le> uint (v_value f) \<and> uint (v_value f) \<le> 2100000000) named)"

definition chosen_reset :: "int \<Rightarrow> varint_field list \<Rightarrow> int option" where
  "chosen_reset now named =
     (let future = filter (\<lambda>(_, date). now < date) (reset_fields named) in
      case find (\<lambda>(path, _). path = [1, 5, 1]) future of
        Some r \<Rightarrow> Some (snd r)
      | None \<Rightarrow> if future = [] then None else Some (snd (hd future)))"

definition has_usage_period :: "varint_field list \<Rightarrow> bool" where
  "has_usage_period named \<longleftrightarrow> list_ex (\<lambda>f. take 2 (v_path f) = [1, 6] \<or>
     v_path f = [1, 8, 1] \<and> unat (v_value f) \<in> {1, 2}) named"

definition read_payloads :: "8 word list list \<Rightarrow> int \<Rightarrow> string \<Rightarrow> provider_error + billing" where
  "read_payloads payloads now source =
     (let scan = foldl (\<lambda>s payload. merge_scan s (scan_protobuf payload 0 [])) empty_scan payloads;
          parsed = map_option (\<lambda>f. f32_value (f_bits f)) (fold nearer (filter percent_field (fixed32 scan)) None);
          reset = chosen_reset now (varints scan)
      in case parsed of
           Some v \<Rightarrow> Inr \<lparr>billing_percent = v, billing_resets_at = reset\<rparr>
         | None \<Rightarrow>
             if reset \<noteq> None \<and> has_usage_period (varints scan) \<and> fixed32 scan = []
             then Inr \<lparr>billing_percent = 0, billing_resets_at = reset\<rparr>
             else Inl (provider_error_new CategoryError source))"

definition parse_grpc_web_billing :: "8 word list \<Rightarrow> int \<Rightarrow> string \<Rightarrow> provider_error + billing" where
  "parse_grpc_web_billing data now source =
     (let trailers = grpc_web_trailer_fields data;
          status = Option.bind (trailers ''grpc-status'') parse_i32
      in if status \<noteq> None \<and> the status \<noteq> 0
         then Inl (grpc_status_error (the status) (case trailers ''grpc-message'' of None \<Rightarrow> [] | Some m \<Rightarrow> m) source)
         else let frames = grpc_web_data_frames data;
                  payloads = (if frames = [] \<and> looks_like_protobuf data then [data] else frames)
           in if payloads = [] then Inl (provider_error_new CategoryError source)
              else read_payloads payloads now source)"

definition checked_sub_i64 :: "int \<Rightarrow> int \<Rightarrow> int option" where
  "checked_sub_i64 a b = (if - (2 ^ 63) \<le> a - b \<and> a - b < 2 ^ 63 then Some (a - b) else None)"

definition billing_window :: "billing \<Rightarrow> int \<Rightarrow> quota_window" where
  "billing_window b now =
     (let delta = Option.bind (billing_resets_at b) (\<lambda>stop. checked_sub_i64 stop now);
          (title, cadence) = (case delta of
             Some seconds \<Rightarrow>
               if 20 * 86400 \<le> seconds \<and> seconds \<le> 45 * 86400 then (cadence_title Monthly, Some Monthly)
               else if seconds \<le> 10 * 86400 then (cadence_title Weekly, Some Weekly)
               else (cadence_title Weekly, None)
           | None \<Rightarrow> (''Billing Cycle'', None))
      in \<lparr>window_id = ''billing_cycle'', window_title = title, used_percent = clamp_percent (Some (billing_percent b)),
          window_resets_at = map_option unix_seconds_to_iso (billing_resets_at b), window_duration_seconds = None,
          primary_cadence = cadence, remaining_value = None, limit_value = None, value_unit = None, expiries = []\<rparr>)"

subsection \<open>What a body can be read as\<close>

lemma nearer_member: "fold nearer fs best = Some f \<Longrightarrow> f \<in> set fs \<or> best = Some f"
proof (induction fs arbitrary: best)
  case (Cons g fs)
  from Cons.IH [of "nearer g best"] Cons.prems show ?case
    by (auto simp: nearer_def split: option.splits if_splits)
qed simp

lemma chosen_reset_range:
  assumes "chosen_reset now vs = Some t"
  shows "now < t" "1700000000 \<le> t" "t \<le> 2100000000"
proof -
  let ?future = "filter (\<lambda>(_, date). now < date) (reset_fields vs)"
  have "t \<in> snd ` set ?future"
  proof (cases "find (\<lambda>(path, _). path = [1, 5, 1]) ?future")
    case None
    with assms have "?future \<noteq> []" "t = snd (hd ?future)"
      by (auto simp: chosen_reset_def Let_def split: if_splits)
    from hd_in_set [OF this(1)] this(2) show ?thesis by (metis image_eqI)
  next
    case (Some r)
    with assms have "t = snd r" by (simp add: chosen_reset_def Let_def)
    moreover from Some have "r \<in> set ?future" unfolding find_Some_iff by (metis nth_mem)
    ultimately show ?thesis by simp
  qed
  then show "now < t" "1700000000 \<le> t" "t \<le> 2100000000" by (auto simp: reset_fields_def)
qed

lemma parse_billing_ranges:
  assumes "parse_grpc_web_billing data now source = Inr b"
  shows "0 \<le> billing_percent b" "billing_percent b \<le> 100"
    "billing_resets_at b = Some t \<Longrightarrow> now < t \<and> 1700000000 \<le> t \<and> t \<le> 2100000000"
proof -
  from assms obtain payloads where read: "read_payloads payloads now source = Inr b"
    by (auto simp: parse_grpc_web_billing_def Let_def split: if_splits)
  from read show "0 \<le> billing_percent b" "billing_percent b \<le> 100"
    by (auto simp: read_payloads_def Let_def percent_field_def dest!: nearer_member split: option.splits if_splits)
  from read show "billing_resets_at b = Some t \<Longrightarrow> now < t \<and> 1700000000 \<le> t \<and> t \<le> 2100000000"
    by (auto simp: read_payloads_def Let_def dest: chosen_reset_range split: option.splits if_splits)
qed

text \<open>C33: Whatever bytes the RPC answers with, what they are read as is a percentage and a reset still to
  come, the window shows that very percentage, its reset parses back to the instant, and it is called
  weekly or monthly only where the reset lies inside that cadence.\<close>

theorem billing_window_sound:
  assumes "parse_grpc_web_billing data now source = Inr b"
  defines "w \<equiv> billing_window b now"
  shows "used_percent w = billing_percent b \<and> 0 \<le> used_percent w \<and> used_percent w \<le> 100 \<and>
    (case window_resets_at w of
       None \<Rightarrow> primary_cadence w = None
     | Some text \<Rightarrow> \<exists>t. parse_rfc3339 text = Some t \<and> now < t \<and>
         (primary_cadence w = Some Weekly \<longleftrightarrow> t - now \<le> 10 * 86400) \<and>
         (primary_cadence w = Some Monthly \<longleftrightarrow> 20 * 86400 \<le> t - now \<and> t - now \<le> 45 * 86400))"
proof -
  note ranges = parse_billing_ranges [OF assms(1)]
  have percent: "used_percent w = billing_percent b"
    using ranges by (simp add: w_def billing_window_def Let_def clamp_percent_def clamp_def split: prod.splits)
  show ?thesis
  proof (cases "billing_resets_at b")
    case None
    with percent ranges show ?thesis by (simp add: w_def billing_window_def)
  next
    case (Some t)
    have "parse_rfc3339 (unix_seconds_to_iso t) = Some t" using ranges(3) [OF Some] by (intro iso_parses) simp_all
    with percent ranges Some show ?thesis
      by (auto simp: w_def billing_window_def checked_sub_i64_def Let_def)
  qed
qed

text \<open>The witness is the body grok.com sends: one frame, 25 percent, a reset on 2026-09-21.\<close>

theorem billing_window_sound_witness:
  "\<exists>b. parse_grpc_web_billing
       [0, 0, 0, 0, 17, 10, 15, 13, 0, 0, 200, 65, 42, 8, 8, 128, 247, 196, 213, 6, 16, 0] 1789500000 ''s'' = Inr b \<and>
     used_percent (billing_window b 1789500000) = 25 \<and> used_percent (billing_window b 1789500000) \<le> 100"
proof -
  let ?payload = "[10, 15, 13, 0, 0, 200, 65, 42, 8, 8, 128, 247, 196, 213, 6, 16, 0] :: 8 word list"
  have frames: "grpc_web_data_frames (0 # 0 # 0 # 0 # 17 # ?payload) = [?payload]" by code_simp
  have trailers: "grpc_web_trailer_fields (0 # 0 # 0 # 0 # 17 # ?payload) ''grpc-status'' = None" by code_simp
  have scan: "scan_protobuf ?payload 0 [] =
     \<lparr>fixed32 = [\<lparr>f_path = [1, 1], f_bits = 0x41C80000, f_order = 0\<rparr>],
      varints = [\<lparr>v_path = [1, 5, 1], v_value = 1790000000\<rparr>, \<lparr>v_path = [1, 5, 2], v_value = 0\<rparr>]\<rparr>" by code_simp
  have v: "f32_value 0x41C80000 = 25" by code_simp
  have "parse_grpc_web_billing (0 # 0 # 0 # 0 # 17 # ?payload) 1789500000 ''s'' =
      Inr \<lparr>billing_percent = 25, billing_resets_at = Some 1790000000\<rparr>"
    by (simp add: parse_grpc_web_billing_def frames trailers Let_def read_payloads_def scan merge_scan_def empty_scan_def v nearer_def percent_field_def f32_is_finite_def
        chosen_reset_def reset_fields_def)
  from billing_window_sound [OF this] this show ?thesis by auto
qed

subsection \<open>A refused body\<close>

definition u32_to_be_bytes :: "nat \<Rightarrow> 8 word list" where
  "u32_to_be_bytes n = map (\<lambda>k. of_nat (n div 256 ^ k)) [3, 2, 1, 0]"

definition frame :: "8 word \<Rightarrow> 8 word list \<Rightarrow> 8 word list" where
  "frame flags payload = flags # u32_to_be_bytes (length payload) @ payload"

definition bytes_of_text :: "string \<Rightarrow> 8 word list" where
  "bytes_of_text s = map (\<lambda>c. of_nat (byte c)) s"

lemma be_bytes:
  assumes "n < 2 ^ 32"
  shows "u32_from_be_bytes (u32_to_be_bytes n) = n"
proof -
  define a b c where "a = n div 256" and "b = a div 256" and "c = b div 256"
  have parts: "n = 256 * a + n mod 256" "a = 256 * b + a mod 256" "b = 256 * c + b mod 256"
    by (simp_all add: a_def b_def c_def)
  have places: "n div 256 ^ 3 = c" "n div 256 ^ 2 = b" "n div 256 ^ 1 = a"
    by (simp_all add: a_def b_def c_def div_mult2_eq [symmetric])
  have "c < 256" unfolding places(1) [symmetric] using assms by (simp add: div_less_iff_less_mult)
  then have "u32_from_be_bytes (u32_to_be_bytes n) = 256 * (256 * (256 * c + b mod 256) + a mod 256) + n mod 256"
    unfolding u32_from_be_bytes_def u32_to_be_bytes_def list.map places by (simp add: unat_of_nat)
  then show ?thesis unfolding parts(3) [symmetric] parts(2) [symmetric] parts(1) [symmetric] .
qed

lemma text_of_bytes_of_text: "text_of_bytes (bytes_of_text s) = s"
  using byte_bound by (simp add: text_of_bytes_def bytes_of_text_def comp_def unat_of_nat map_idI byte_def)

lemma frame_at:
  assumes "drop index data = frame flags payload @ rest" "length payload < 2 ^ 32"
  shows "index + 5 \<le> length data" "data ! index = flags"
    "u32_from_be_bytes (slice (index + 1) (index + 5) data) = length payload"
    "slice (index + 5) (index + 5 + length payload) data = payload"
    "index + 5 + length payload \<le> length data" "drop (index + 5 + length payload) data = rest"
proof -
  let ?size = "u32_to_be_bytes (length payload)"
  have size: "length ?size = 4" by (simp add: u32_to_be_bytes_def)
  have a: "drop index data = [flags] @ (?size @ payload @ rest)" using assms(1) by (simp add: frame_def)
  have b: "drop (index + 1) data = ?size @ (payload @ rest)" using drop_append_more [OF a] by simp
  have c: "drop (index + 5) data = payload @ rest" using drop_append_more [OF b] size by (simp add: add.commute)
  show "data ! index = flags" using drop_appendD(2) [OF a] by simp
  show size_end: "index + 5 \<le> length data" using drop_within [OF b disjI1] size by (cases ?size) auto
  show "u32_from_be_bytes (slice (index + 1) (index + 5) data) = length payload"
    using b size be_bytes [OF assms(2)] by (simp add: slice_def)
  show "slice (index + 5) (index + 5 + length payload) data = payload" using c by (simp add: slice_def)
  show "index + 5 + length payload \<le> length data" using drop_within [OF c] size_end by simp
  show "drop (index + 5 + length payload) data = rest" by (rule drop_append_more [OF c])
qed

lemma trailer_after_data_frames:
  assumes "drop index data = concat (map (frame 0) payloads) @ frame 0x80 (bytes_of_text s)"
    and "\<forall>p\<in>set payloads. length p < 2 ^ 32" "length s < 2 ^ 32" "utf8_valid s"
  shows "grpc_web_trailer_fields_from data index m = fold trailer_line (trailer_lines s) m"
  using assms(1,2)
proof (induction payloads arbitrary: index)
  case Nil
  then have whole: "drop index data = frame 0x80 (bytes_of_text s) @ []" by simp
  have "length (bytes_of_text s) < 2 ^ 32" using assms(3) by (simp add: bytes_of_text_def)
  note at = frame_at [OF whole this]
  let ?stop = "index + 5 + length (bytes_of_text s)"
  have "\<not> ?stop + 5 \<le> length data" using at(5,6) by simp
  then have "grpc_web_trailer_fields_from data ?stop m' = m'" for m'
    by (simp add: grpc_web_trailer_fields_from.simps [of data ?stop])
  with at assms(4) show ?case
    by (simp add: grpc_web_trailer_fields_from.simps [of data index] text_of_bytes_of_text Let_def)
next
  case (Cons p payloads)
  then have whole: "drop index data = frame 0 p @ (concat (map (frame 0) payloads) @ frame 0x80 (bytes_of_text s))"
    and "length p < 2 ^ 32" by simp_all
  note at = frame_at [OF this]
  from Cons.IH [OF at(6)] Cons.prems(2) at show ?case
    by (simp add: grpc_web_trailer_fields_from.simps [of data index] Let_def)
qed

definition status_trailer :: "nat \<Rightarrow> string \<Rightarrow> string" where
  "status_trailer n m = ''grpc-status:'' @ decimal_string n @ [CHR 0x0D, CHR 0x0A] @ ''grpc-message:'' @ m @ [CHR 0x0D, CHR 0x0A]"

lemma status_trailer_fields:
  assumes "CHR 0x0D \<notin> set m" "CHR 0x0A \<notin> set m"
  shows "fold trailer_line (trailer_lines (status_trailer n m)) (\<lambda>_. None) =
    [''grpc-status'' \<mapsto> decimal_string n, ''grpc-message'' \<mapsto> trim m]"
proof -
  have digits: "list_all is_digit (decimal_string n)" by (simp add: list_all_iff decimal_string_digits)
  have ends: "c \<notin> set (decimal_string n)" if "c \<in> {CHR 0x0D, CHR 0x0A}" for c
    by (rule digits_no_char [OF digits]) (use that in \<open>auto simp: is_digit_def byte_def\<close>)
  let ?a = "''grpc-status:'' @ decimal_string n" let ?b = "''grpc-message:'' @ m"
  have plain: "CHR 0x0D \<notin> set ?a" "CHR 0x0A \<notin> set ?a" "CHR 0x0D \<notin> set ?b" "CHR 0x0A \<notin> set ?b"
    using ends assms by auto
  have "status_trailer n m = (?a @ [CHR 0x0D]) @ CHR 0x0A # (?b @ [CHR 0x0D]) @ CHR 0x0A # []"
    by (simp add: status_trailer_def)
  moreover have "split_on CHR 0x0A \<dots> = [?a @ [CHR 0x0D], ?b @ [CHR 0x0D], []]"
    using plain by (subst split_on_append, simp, subst split_on_append, simp, simp)
  ultimately have "trailer_lines (status_trailer n m) = [?a, [], ?b, [], []]"
    using plain split_on_append [of "CHR 0x0D" ?a "[]"] split_on_append [of "CHR 0x0D" ?b "[]"] by (simp add: trailer_lines_def)
  moreover have "split_once CHR '':'' ?a = Some (''grpc-status'', decimal_string n)"
    "split_once CHR '':'' ?b = Some (''grpc-message'', m)"
    using split_once_append [of "CHR '':''" "''grpc-status''" "decimal_string n"]
      split_once_append [of "CHR '':''" "''grpc-message''" m] by simp_all
  moreover have "to_ascii_lowercase (trim ''grpc-status'') = ''grpc-status''"
    "to_ascii_lowercase (trim ''grpc-message'') = ''grpc-message''" "split_once CHR '':'' [] = None"
    by code_simp+
  ultimately show ?thesis by (simp only: fold.simps trailer_line_def comp_apply id_apply option.case prod.case trim_digits [OF digits])
qed

text \<open>C34: A body whose trailer names a status other than 0 is refused with that status and message,
  whatever its data frames hold.\<close>

theorem refused_status_wins:
  assumes "\<forall>p\<in>set payloads. length p < 2 ^ 32" "0 < n" "n < 2 ^ 31"
    and "list_all is_ascii m" "CHR 0x0D \<notin> set m" "CHR 0x0A \<notin> set m" "length m < 2 ^ 31"
  shows "parse_grpc_web_billing
      (concat (map (frame 0) payloads) @ frame 0x80 (bytes_of_text (status_trailer n m))) now source =
    Inl (grpc_status_error (int n) (trim m) source)"
proof -
  have "length (decimal_string n) \<le> 10" using assms(3) by (intro length_decimal_string) simp_all
  with assms(7) have "length (status_trailer n m) < 2 ^ 32" by (simp add: status_trailer_def)
  moreover have "utf8_valid (status_trailer n m)"
  proof -
    have "list_all is_ascii (decimal_string n)"
      by (intro digits_ascii) (simp add: list_all_iff decimal_string_digits)
    moreover have "list_all is_ascii ''grpc-status:''" "list_all is_ascii [CHR 0x0D, CHR 0x0A]"
      "list_all is_ascii ''grpc-message:''" by code_simp+
    ultimately show ?thesis using assms(4)
      by (intro utf8_valid_ascii) (simp only: status_trailer_def list_all_append simp_thms)
  qed
  ultimately have "grpc_web_trailer_fields (concat (map (frame 0) payloads) @ frame 0x80 (bytes_of_text (status_trailer n m))) =
      [''grpc-status'' \<mapsto> decimal_string n, ''grpc-message'' \<mapsto> trim m]" (is "?fields = _")
    unfolding grpc_web_trailer_fields_def status_trailer_fields [OF assms(5,6), symmetric]
    by (intro trailer_after_data_frames) (use assms(1) in simp_all)
  moreover have "parse_i32 (decimal_string n) = Some (int n)"
    using parse_integer_digits [of "decimal_string n" "- (2 ^ 31)" "2 ^ 31 - 1"] assms(3)
    by (simp add: list_all_iff decimal_string_digits)
  ultimately show ?thesis using assms(2) by (simp add: parse_grpc_web_billing_def)
qed

theorem refused_status_wins_witness:
  "parse_grpc_web_billing
      (concat (map (frame 0) [[13, 0, 0, 200, 65]]) @ frame 0x80 (bytes_of_text (status_trailer 16 ''expired''))) 0 ''s'' =
    Inl (grpc_status_error (int 16) (trim ''expired'') ''s'')"
  by (rule refused_status_wins) (simp_all add: is_ascii_def byte_def)

end
