(* ===== verification/Relay_Validation.thy ===== *)
theory Relay_Validation
  imports Json Usage_Fold Pricing_Cost Providers
begin

text \<open>
  The checks a payload passes before the service reads or sends it (\<open>packages/service/src/relay/mod.rs\<close>).
  A check that has one way to fail (\<open>Err(RelayError::InvalidResponse)\<close>, or what its caller makes of it)
  is a predicate, true for \<open>Ok(())\<close>. An object has distinct members, as \<open>serde_json::Map\<close> does. What \<open>chrono\<close> and \<open>serde\<close> answer is a
  parameter: instants and dates are those of \<open>externs\<close>, and the row a JSON value decodes to is an argument of
  the check of a submission.
\<close>

subsection \<open>Texts, numbers and members\<close>

definition is_opaque :: "string \<Rightarrow> bool" where
  "is_opaque s \<longleftrightarrow> s \<noteq> [] \<and> is_ascii_alphanumeric (hd s) \<and> length s \<le> 128 \<and>
     list_all (\<lambda>c. is_ascii_alphanumeric c \<or> c \<in> set ''._:-'') (tl s)"

definition maximum_safe_integer :: nat where "maximum_safe_integer = 9007199254740991"
definition maximum_request_bytes :: nat where "maximum_request_bytes = 1048576"
definition control_protocol :: int where "control_protocol = 2"
definition managed_data_protocol :: int where "managed_data_protocol = 6"

definition safe_u64 :: "json \<Rightarrow> nat option" where
  "safe_u64 v = Option.bind (as_u64 v) (\<lambda>n. if n \<le> maximum_safe_integer then Some n else None)"

definition safe_positive_u64 :: "json \<Rightarrow> nat option" where
  "safe_positive_u64 v = Option.bind (safe_u64 v) (\<lambda>n. if 0 < n then Some n else None)"

definition valid_rfc3339 :: "externs \<Rightarrow> string \<Rightarrow> bool" where
  "valid_rfc3339 x s \<longleftrightarrow> length s \<le> 64 \<and> is_rfc3339 x s"

definition valid_display :: "string \<Rightarrow> nat \<Rightarrow> bool" where
  "valid_display s mx \<longleftrightarrow> s \<noteq> [] \<and> length s \<le> mx \<and> trim s = s"

definition valid_model_text :: "string \<Rightarrow> bool" where
  "valid_model_text s \<longleftrightarrow> s \<noteq> [] \<and> char_count s \<le> 128 \<and> \<not> has_control s"

definition valid_dimension :: "string \<Rightarrow> nat \<Rightarrow> bool" where
  "valid_dimension s mx \<longleftrightarrow> s \<noteq> [] \<and> is_ascii_alphanumeric (hd s) \<and> length s \<le> mx \<and>
     list_all (\<lambda>c. is_ascii_alphanumeric c \<or> c \<in> set ''._:+-'') (tl s)"

definition valid_decimal_integer :: "string \<Rightarrow> bool" where
  "valid_decimal_integer s \<longleftrightarrow> s \<noteq> [] \<and> length s \<le> 32 \<and>
     (s = ''0'' \<or> is_digit (hd s) \<and> hd s \<noteq> CHR ''0'' \<and> list_all is_digit s)"

text \<open>\<open>get(key).and_then(Value::as_str).is_some_and(p)\<close>, \<open>get(key).is_some_and(p)\<close>, and \<open>!get(key).is_some_and(|v| !p(v))\<close>.\<close>

definition text_member :: "(string \<Rightarrow> bool) \<Rightarrow> string \<Rightarrow> json \<Rightarrow> bool" where
  "text_member p key v \<longleftrightarrow> (case str_member key v of Some s \<Rightarrow> p s | None \<Rightarrow> False)"

definition has_member :: "(json \<Rightarrow> bool) \<Rightarrow> string \<Rightarrow> json \<Rightarrow> bool" where
  "has_member p key v \<longleftrightarrow> (case json_get key v of Some w \<Rightarrow> p w | None \<Rightarrow> False)"

definition optional_member :: "(json \<Rightarrow> bool) \<Rightarrow> string \<Rightarrow> json \<Rightarrow> bool" where
  "optional_member p key v \<longleftrightarrow> (case json_get key v of Some w \<Rightarrow> p w | None \<Rightarrow> True)"

definition is_text :: "(string \<Rightarrow> bool) \<Rightarrow> json \<Rightarrow> bool" where
  "is_text p v \<longleftrightarrow> (case as_str v of Some s \<Rightarrow> p s | None \<Rightarrow> False)"

definition null_or_text :: "(string \<Rightarrow> bool) \<Rightarrow> json \<Rightarrow> bool" where
  "null_or_text p v \<longleftrightarrow> v = JNull \<or> is_text p v"

definition is_boolean :: "json \<Rightarrow> bool" where
  "is_boolean v \<longleftrightarrow> v = JBool True \<or> v = JBool False"

definition bounded_array :: "nat \<Rightarrow> (json \<Rightarrow> bool) \<Rightarrow> json \<Rightarrow> bool" where
  "bounded_array mx p v \<longleftrightarrow> (case as_array v of Some vs \<Rightarrow> length vs \<le> mx \<and> list_all p vs | None \<Rightarrow> False)"

definition valid_read_enum :: "string \<Rightarrow> bool" where
  "valid_read_enum s \<longleftrightarrow> valid_dimension s 64"

definition require_response_fields :: "string list \<Rightarrow> json \<Rightarrow> bool" where
  "require_response_fields keys v \<longleftrightarrow> is_object v \<and> list_all (\<lambda>k. json_get k v \<noteq> None) keys"

definition protocol_is :: "int \<Rightarrow> json \<Rightarrow> bool" where
  "protocol_is n v \<longleftrightarrow> Option.bind (json_get ''protocol_version'' v) as_i64 = Some n"

definition date_or_null :: "externs \<Rightarrow> json \<Rightarrow> bool" where
  "date_or_null x v \<longleftrightarrow> null_or_text (valid_rfc3339 x) v"

subsection \<open>Sign-in and device answers\<close>

definition validate_control_response :: "externs \<Rightarrow> json \<Rightarrow> bool" where
  "validate_control_response x v \<longleftrightarrow>
     require_response_fields [''protocol_version'', ''account_id'', ''device_id'', ''device_generation'',
       ''usage_deleted_before'', ''usage_sync_revision''] v \<and>
     protocol_is control_protocol v \<and> text_member is_opaque ''account_id'' v \<and> text_member is_opaque ''device_id'' v \<and>
     has_member (\<lambda>w. safe_positive_u64 w \<noteq> None) ''device_generation'' v \<and>
     has_member (\<lambda>w. safe_u64 w \<noteq> None) ''usage_sync_revision'' v \<and>
     has_member (date_or_null x) ''usage_deleted_before'' v"

definition validate_session_token :: "externs \<Rightarrow> json \<Rightarrow> bool" where
  "validate_session_token x v \<longleftrightarrow>
     require_response_fields [''access_token'', ''access_expires_at'', ''refresh_token'', ''refresh_expires_at''] v \<and>
     text_member (\<lambda>s. 16 \<le> length s \<and> length s \<le> 2048) ''access_token'' v \<and>
     text_member (\<lambda>s. 16 \<le> length s \<and> length s \<le> 2048) ''refresh_token'' v \<and>
     text_member (valid_rfc3339 x) ''access_expires_at'' v \<and> text_member (valid_rfc3339 x) ''refresh_expires_at'' v"

text \<open>The answer to a rotation is for the session it rotated.\<close>

definition validate_session_refresh_response :: "externs \<Rightarrow> json \<Rightarrow> json \<Rightarrow> bool" where
  "validate_session_refresh_response x v session \<longleftrightarrow>
     require_response_fields [''protocol_version'', ''token_type'', ''account_id'', ''device_id'', ''device_generation'',
       ''session''] v \<and>
     protocol_is control_protocol v \<and> str_member ''token_type'' v = Some ''Bearer'' \<and>
     text_member is_opaque ''account_id'' v \<and> str_member ''account_id'' v = str_member ''account_id'' session \<and>
     text_member (\<lambda>s. is_opaque s \<and> Some s = str_member ''device_id'' session) ''device_id'' v \<and>
     Option.bind (json_get ''device_generation'' v) safe_positive_u64 =
       Option.bind (json_get ''device_generation'' session) safe_positive_u64 \<and>
     has_member (validate_session_token x) ''session'' v"

definition validate_device_profile_response :: "json \<Rightarrow> string option \<Rightarrow> bool" where
  "validate_device_profile_response v expected_device_id \<longleftrightarrow>
     require_response_fields [''protocol_version'', ''status'', ''device_id''] v \<and>
     protocol_is control_protocol v \<and> str_member ''status'' v = Some ''updated'' \<and>
     str_member ''device_id'' v = expected_device_id"

subsection \<open>Account settings\<close>

definition is_account_settings_selector :: "string \<Rightarrow> bool" where
  "is_account_settings_selector s \<longleftrightarrow> length s = 12 \<and>
     list_all (\<lambda>c. is_digit c \<or> 97 \<le> byte c \<and> byte c \<le> 102) s"

text \<open>One or two thresholds, falling.\<close>

definition falling_thresholds :: "json \<Rightarrow> bool" where
  "falling_thresholds v \<longleftrightarrow>
     (case as_array v of
        None \<Rightarrow> False
      | Some vs \<Rightarrow> 1 \<le> length vs \<and> length vs \<le> 2 \<and> list_all (\<lambda>w. as_i64 w \<noteq> None) vs \<and>
          (let numbers = map (\<lambda>w. the (as_i64 w)) vs in
           list_all (\<lambda>n. 1 \<le> n \<and> n \<le> 99) numbers \<and> sorted_wrt (>) numbers))"

definition validate_account_settings_alerts :: "json \<Rightarrow> bool" where
  "validate_account_settings_alerts v \<longleftrightarrow>
     require_response_fields [''reset_reminders'', ''pace_alerts'', ''thresholds''] v \<and>
     has_member is_boolean ''reset_reminders'' v \<and> has_member is_boolean ''pace_alerts'' v \<and>
     has_member (\<lambda>w. case w of
         JObj members \<Rightarrow> length members \<le> 256 \<and>
           list_all (\<lambda>(selector, vs). is_account_settings_selector selector \<and> falling_thresholds vs) members
       | _ \<Rightarrow> False) ''thresholds'' v"

definition valid_budget_amount_usd :: "string \<Rightarrow> bool" where
  "valid_budget_amount_usd s \<longleftrightarrow>
     (let (whole, fraction) = (case split_once CHR ''.'' s of Some (w, f) \<Rightarrow> (w, Some f) | None \<Rightarrow> (s, None)) in
      whole \<noteq> [] \<and> length whole \<le> 7 \<and> list_all is_digit whole \<and>
      (case fraction of None \<Rightarrow> True | Some f \<Rightarrow> f \<noteq> [] \<and> length f \<le> 2 \<and> list_all is_digit f) \<and>
      (let amount = round_f64 (of_nat (digits_value whole) +
             (case fraction of None \<Rightarrow> 0 | Some f \<Rightarrow> of_nat (digits_value f) / 10 ^ length f))
       in 0 < amount \<and> amount \<le> 1000000))"

definition validate_account_settings_budget :: "json \<Rightarrow> bool" where
  "validate_account_settings_budget v \<longleftrightarrow>
     require_response_fields [''amount_usd'', ''alerts''] v \<and> has_member is_boolean ''alerts'' v \<and>
     has_member (null_or_text valid_budget_amount_usd) ''amount_usd'' v"

definition validate_account_settings :: "externs \<Rightarrow> json \<Rightarrow> bool" where
  "validate_account_settings x v \<longleftrightarrow>
     require_response_fields [''protocol_version'', ''revision'', ''updated_at'', ''alerts'', ''budget''] v \<and>
     protocol_is control_protocol v \<and> has_member (\<lambda>w. safe_u64 w \<noteq> None) ''revision'' v \<and>
     text_member (valid_rfc3339 x) ''updated_at'' v \<and>
     has_member validate_account_settings_alerts ''alerts'' v \<and> has_member validate_account_settings_budget ''budget'' v"

subsection \<open>Quota readings\<close>

text \<open>\<open>as_f64().is_some_and(p)\<close>: a JSON number is finite.\<close>

definition number_such_that :: "(rat \<Rightarrow> bool) \<Rightarrow> json \<Rightarrow> bool" where
  "number_such_that p v \<longleftrightarrow> (case as_f64 v of Some q \<Rightarrow> p q | None \<Rightarrow> False)"

definition maximum_quota_expiries :: nat where "maximum_quota_expiries = 16"

definition readable_expiry :: "externs \<Rightarrow> json \<Rightarrow> (int \<times> nat) option" where
  "readable_expiry x item =
     Option.bind (str_member ''expires_at'' item) (\<lambda>s.
     Option.bind (if length s \<le> 64 then instant_of x s else None) (\<lambda>t.
     Option.bind (Option.bind (json_get ''count'' item) safe_positive_u64) (\<lambda>n. Some (t, n))))"

definition readable_expiries :: "externs \<Rightarrow> json \<Rightarrow> (int \<times> nat) list option" where
  "readable_expiries x v =
     Option.bind (as_array v) (\<lambda>items.
       if length items \<le> maximum_quota_expiries \<and> list_all (\<lambda>item. readable_expiry x item \<noteq> None) items
       then Some (map (\<lambda>item. the (readable_expiry x item)) items) else None)"

text \<open>The sum of the counts cannot leave \<open>u64\<close>: sixteen safe integers.\<close>

definition expiries_are_admissible :: "externs \<Rightarrow> json \<Rightarrow> bool" where
  "expiries_are_admissible x window \<longleftrightarrow>
     optional_member (\<lambda>v. case readable_expiries x v of
         None \<Rightarrow> False
       | Some expiries \<Rightarrow> expiries \<noteq> [] \<and> str_member ''value_unit'' window = Some ''count'' \<and>
           sorted_wrt (<) (map fst expiries) \<and>
           has_member (number_such_that (\<lambda>remaining. round_f64 (of_nat (sum_list (map snd expiries))) \<le> remaining))
             ''remaining_value'' window) ''expiries'' window"

definition validate_quota_window :: "externs \<Rightarrow> json \<Rightarrow> bool" where
  "validate_quota_window x v \<longleftrightarrow>
     require_response_fields [''id'', ''title'', ''used_percent''] v \<and>
     text_member (\<lambda>s. valid_dimension s 64) ''id'' v \<and> text_member (\<lambda>s. valid_display s 128) ''title'' v \<and>
     has_member (number_such_that (\<lambda>q. 0 \<le> q \<and> q \<le> 100)) ''used_percent'' v \<and>
     optional_member (is_text (valid_rfc3339 x)) ''resets_at'' v \<and>
     optional_member (\<lambda>w. safe_u64 w \<noteq> None) ''duration_seconds'' v \<and>
     optional_member (number_such_that (\<lambda>_. True)) ''remaining_value'' v \<and>
     optional_member (number_such_that (\<lambda>q. 0 \<le> q)) ''limit_value'' v \<and>
     optional_member (is_text valid_read_enum) ''value_unit'' v \<and>
     optional_member (\<lambda>w. readable_expiries x w \<noteq> None) ''expiries'' v"

definition validate_quota_account :: "json \<Rightarrow> bool" where
  "validate_quota_account v \<longleftrightarrow>
     require_response_fields [''fingerprint'', ''fingerprint_scope''] v \<and>
     text_member is_opaque ''fingerprint'' v \<and> text_member valid_read_enum ''fingerprint_scope'' v \<and>
     optional_member (is_text (\<lambda>s. valid_display s 128)) ''label'' v \<and>
     optional_member (is_text (\<lambda>s. valid_display s 64)) ''plan'' v"

definition validate_quota_snapshot :: "externs \<Rightarrow> json \<Rightarrow> bool" where
  "validate_quota_snapshot x v \<longleftrightarrow>
     require_response_fields [''provider'', ''account'', ''windows'', ''status'', ''observed_at''] v \<and>
     text_member valid_read_enum ''provider'' v \<and> text_member valid_read_enum ''status'' v \<and>
     text_member (valid_rfc3339 x) ''observed_at'' v \<and> has_member validate_quota_account ''account'' v \<and>
     has_member (bounded_array 16 (validate_quota_window x)) ''windows'' v"

definition validate_quota_subscription :: "externs \<Rightarrow> json \<Rightarrow> bool" where
  "validate_quota_subscription x v \<longleftrightarrow>
     require_response_fields [''key'', ''provider'', ''snapshot'', ''sources''] v \<and>
     text_member (\<lambda>s. s \<noteq> [] \<and> length s \<le> 512) ''key'' v \<and> text_member valid_read_enum ''provider'' v \<and>
     has_member (bounded_array 256 (\<lambda>source.
       require_response_fields [''device_id'', ''observed_at''] source \<and>
       text_member is_opaque ''device_id'' source \<and> text_member (valid_rfc3339 x) ''observed_at'' source \<and>
       optional_member (validate_quota_snapshot x) ''snapshot'' source)) ''sources'' v \<and>
     has_member (validate_quota_snapshot x) ''snapshot'' v"

subsection \<open>Readings sent\<close>

definition quota_account_is_admissible :: "json \<Rightarrow> bool" where
  "quota_account_is_admissible v \<longleftrightarrow> is_object v \<and>
     text_member is_opaque ''fingerprint'' v \<and>
     optional_member (is_text (\<lambda>s. valid_display s 128)) ''label'' v \<and>
     optional_member (is_text (\<lambda>s. valid_display s 64)) ''plan'' v"

definition quota_window_is_admissible :: "externs \<Rightarrow> json \<Rightarrow> bool" where
  "quota_window_is_admissible x v \<longleftrightarrow> is_object v \<and>
     text_member (\<lambda>s. valid_dimension s 64) ''id'' v \<and> text_member (\<lambda>s. valid_display s 128) ''title'' v \<and>
     has_member (number_such_that (\<lambda>q. 0 \<le> q \<and> q \<le> 100)) ''used_percent'' v \<and>
     optional_member (is_text (valid_rfc3339 x)) ''resets_at'' v \<and>
     optional_member (\<lambda>w. safe_u64 w \<noteq> None) ''duration_seconds'' v \<and>
     optional_member (number_such_that (\<lambda>_. True)) ''remaining_value'' v \<and>
     optional_member (number_such_that (\<lambda>q. 0 \<le> q)) ''limit_value'' v \<and>
     expiries_are_admissible x v"

definition snapshot_is_admissible :: "externs \<Rightarrow> json \<Rightarrow> bool" where
  "snapshot_is_admissible x v \<longleftrightarrow> is_object v \<and>
     text_member (valid_rfc3339 x) ''observed_at'' v \<and> has_member quota_account_is_admissible ''account'' v \<and>
     has_member (bounded_array 16 (quota_window_is_admissible x)) ''windows'' v"

text \<open>The readings of a report and the republished ones, those of a provider an Account holds and that are
  within bounds; the others are counted as dropped, except those the Account is never sent.\<close>

definition snapshot_payload_from_quota_report ::
  "externs \<Rightarrow> json \<Rightarrow> json list \<Rightarrow> (string \<times> json list \<times> nat) option" where
  "snapshot_payload_from_quota_report x report republished =
     Option.bind (str_member ''captured_at'' report) (\<lambda>captured_at.
     Option.bind (Option.bind (json_get ''results'' report) as_array) (\<lambda>results.
       let collected = map (\<lambda>r. Option.bind (json_get ''snapshots'' r) as_array) results in
       if \<not> list_all (\<lambda>c. c \<noteq> None) collected then None
       else let candidates = concat (map the collected) @ republished;
                provider = (\<lambda>s. Option.bind (str_member ''provider'' s) provider_parse);
                sent = filter (\<lambda>s. case provider s of Some p \<Rightarrow> syncs_to_account p \<and> snapshot_is_admissible x s | None \<Rightarrow> False) candidates;
                dropped = filter (\<lambda>s. case provider s of Some p \<Rightarrow> syncs_to_account p \<and> \<not> snapshot_is_admissible x s | None \<Rightarrow> True) candidates
            in Some (captured_at, sent, length dropped)))"

definition snapshot_envelope :: "nat \<Rightarrow> json list \<Rightarrow> json" where
  "snapshot_envelope generation snapshots =
     JObj [(''protocol_version'', JInt managed_data_protocol), (''generation'', JInt (int generation)),
       (''snapshots'', JArr snapshots)]"

text \<open>The encoded size of a value is a parameter.\<close>

datatype relay_error = AuthenticationRequired | Rejected string nat | RelayUnavailable | InvalidResponse | ResponseTooLarge
  | RelayTimeout | RelayCancelled | RedirectRefused

definition validate_bounded_json :: "(json \<Rightarrow> nat) \<Rightarrow> json \<Rightarrow> relay_error + unit" where
  "validate_bounded_json size_of v = ensure (size_of v \<le> maximum_request_bytes) ResponseTooLarge"

definition validate_snapshot_envelope :: "(json \<Rightarrow> nat) \<Rightarrow> json \<Rightarrow> relay_error + unit" where
  "validate_snapshot_envelope size_of v =
     rbind (validate_bounded_json size_of v) (\<lambda>_.
       ensure (is_object v \<and> protocol_is managed_data_protocol v \<and>
         has_member (\<lambda>w. safe_positive_u64 w \<noteq> None) ''generation'' v \<and>
         has_member (bounded_array 32 (\<lambda>_. True)) ''snapshots'' v) InvalidResponse)"

text \<open>Relay answers an upload with every name it was given, in exactly one of two lists.\<close>

definition answered_names :: "json \<Rightarrow> string list option" where
  "answered_names v =
     (case (Option.bind (json_get ''accepted'' v) as_array, Option.bind (json_get ''ignored'' v) as_array) of
        (Some a, Some i) \<Rightarrow> if list_all (\<lambda>w. as_str w \<noteq> None) (a @ i) then Some (map (\<lambda>w. the (as_str w)) (a @ i)) else None
      | _ \<Rightarrow> None)"

definition validate_upload_response :: "json \<Rightarrow> string list \<Rightarrow> bool" where
  "validate_upload_response v named \<longleftrightarrow>
     require_response_fields [''protocol_version'', ''device_id'', ''device_generation'', ''accepted'', ''ignored''] v \<and>
     protocol_is managed_data_protocol v \<and> text_member is_opaque ''device_id'' v \<and>
     has_member (\<lambda>w. safe_positive_u64 w \<noteq> None) ''device_generation'' v \<and>
     (case answered_names v of
        None \<Rightarrow> False
      | Some answered \<Rightarrow> distinct answered \<and> length answered = length named \<and> set named \<subseteq> set answered)"

subsection \<open>Usage of an Account\<close>

definition valid_usage_date :: "externs \<Rightarrow> (int \<Rightarrow> string) \<Rightarrow> string \<Rightarrow> bool" where
  "valid_usage_date x date_text s \<longleftrightarrow> length s = 10 \<and>
     (case naive_date x s of Some d \<Rightarrow> date_text d = s | None \<Rightarrow> False)"

definition ends_with :: "string \<Rightarrow> string \<Rightarrow> bool" where
  "ends_with suffix s \<longleftrightarrow> length suffix \<le> length s \<and> drop (length s - length suffix) s = suffix"

definition valid_utc_hour :: "externs \<Rightarrow> string \<Rightarrow> bool" where
  "valid_utc_hour x s \<longleftrightarrow> length s = 20 \<and> s ! 13 = CHR '':'' \<and> ends_with '':00:00Z'' s \<and> is_rfc3339 x s"

definition count_member :: "string \<Rightarrow> json \<Rightarrow> nat option" where
  "count_member key v = Option.bind (json_get key v) safe_u64"

definition totals_keys :: "string list" where
  "totals_keys = [''total_tokens'', ''input_tokens'', ''output_tokens'', ''cache_read_input_tokens'',
     ''cache_write_input_tokens'', ''reasoning_tokens'', ''messages'']"

definition validate_usage_summary_totals :: "json \<Rightarrow> bool" where
  "validate_usage_summary_totals v \<longleftrightarrow>
     require_response_fields totals_keys v \<and>
     (case (count_member ''input_tokens'' v, count_member ''output_tokens'' v,
            count_member ''cache_read_input_tokens'' v, count_member ''cache_write_input_tokens'' v) of
        (Some input, Some output, Some cache_read, Some cache_write) \<Rightarrow>
          count_member ''total_tokens'' v = checked_add input output \<and>
          (case checked_add cache_read cache_write of Some cached \<Rightarrow> cached \<le> input | None \<Rightarrow> False) \<and>
          (case count_member ''reasoning_tokens'' v of Some reasoning \<Rightarrow> reasoning \<le> output | None \<Rightarrow> False) \<and>
          count_member ''messages'' v \<noteq> None
      | _ \<Rightarrow> False)"

definition cost_keys :: "string list" where
  "cost_keys = [''mode'', ''basis'', ''status'', ''amount_microusd'', ''catalog_revision'', ''calculated_rows'',
     ''reported_rows'', ''unpriced_rows'', ''assumptions'', ''unpriced'']"

definition text_array :: "nat \<Rightarrow> json \<Rightarrow> bool" where
  "text_array mx v \<longleftrightarrow> bounded_array mx (is_text valid_read_enum) v \<and>
     (case as_array v of Some vs \<Rightarrow> distinct (map as_str vs) | None \<Rightarrow> False)"

definition unpriced_item_ok :: "json \<Rightarrow> bool" where
  "unpriced_item_ok v \<longleftrightarrow>
     require_response_fields [''billing_channel'', ''model'', ''reason'', ''rows''] v \<and>
     text_member valid_read_enum ''billing_channel'' v \<and> text_member valid_model_text ''model'' v \<and>
     text_member valid_read_enum ''reason'' v \<and> has_member (\<lambda>w. safe_positive_u64 w \<noteq> None) ''rows'' v"

text \<open>The basis and the status that the row counts call for.\<close>

definition expected_basis :: "nat \<Rightarrow> nat \<Rightarrow> string" where
  "expected_basis calculated reported =
     (if 0 < calculated \<and> 0 < reported then ''mixed''
      else if 0 < calculated then ''calculated'' else if 0 < reported then ''reported'' else ''none'')"

definition expected_status :: "nat \<Rightarrow> nat \<Rightarrow> string" where
  "expected_status priced unpriced =
     (if unpriced = 0 then ''complete'' else if 0 < priced then ''partial'' else ''unavailable'')"

definition listed_rows :: "json list \<Rightarrow> nat option" where
  "listed_rows items = fold (\<lambda>item total. Option.bind total (\<lambda>n.
     Option.bind (Option.bind (json_get ''rows'' item) as_u64) (\<lambda>rows. checked_add n rows))) items (Some 0)"

definition validate_usage_cost :: "json \<Rightarrow> bool" where
  "validate_usage_cost v \<longleftrightarrow>
     require_response_fields cost_keys v \<and>
     text_member (\<lambda>s. s \<in> {''calculate'', ''auto'', ''reported''}) ''mode'' v \<and>
     text_member (\<lambda>s. s \<in> {''calculated'', ''reported'', ''mixed'', ''none''}) ''basis'' v \<and>
     text_member (\<lambda>s. s \<in> {''complete'', ''partial'', ''unavailable''}) ''status'' v \<and>
     optional_member (null_or_text valid_decimal_integer) ''amount_microusd'' v \<and>
     optional_member (null_or_text is_opaque) ''catalog_revision'' v \<and>
     optional_member (\<lambda>w. w = JBool True) ''unpriced_truncated'' v \<and>
     has_member (text_array 16) ''assumptions'' v \<and>
     has_member (bounded_array 100 unpriced_item_ok) ''unpriced'' v \<and>
     (case (count_member ''calculated_rows'' v, count_member ''reported_rows'' v, count_member ''unpriced_rows'' v,
            listed_rows (members_of ''unpriced'' v)) of
        (Some calculated, Some reported, Some unpriced, Some listed) \<Rightarrow>
          calculated + reported \<le> maximum_safe_integer \<and>
          str_member ''basis'' v = Some (expected_basis calculated reported) \<and>
          str_member ''status'' v = Some (expected_status (calculated + reported) unpriced) \<and>
          (0 < calculated + reported \<longleftrightarrow> has_member (\<lambda>w. w \<noteq> JNull) ''amount_microusd'' v) \<and>
          listed \<le> unpriced \<and> (json_get ''unpriced_truncated'' v = Some (JBool True) \<or> listed = unpriced)
      | _ \<Rightarrow> False)"

definition validate_usage_model :: "json \<Rightarrow> bool" where
  "validate_usage_model v \<longleftrightarrow>
     require_response_fields [''model'', ''totals'', ''cost''] v \<and> text_member valid_model_text ''model'' v \<and>
     has_member validate_usage_summary_totals ''totals'' v \<and> has_member validate_usage_cost ''cost'' v"

definition validate_usage_provider :: "json \<Rightarrow> bool" where
  "validate_usage_provider v \<longleftrightarrow>
     require_response_fields [''provider'', ''models''] v \<and> text_member valid_read_enum ''provider'' v \<and>
     has_member (bounded_array 1000 validate_usage_model) ''models'' v"

text \<open>Ten agents are in the vocabulary of this build.\<close>

definition validate_usage_agents :: "json \<Rightarrow> bool" where
  "validate_usage_agents v \<longleftrightarrow> bounded_array 10 (\<lambda>agent.
     require_response_fields [''agent'', ''providers''] agent \<and> text_member valid_read_enum ''agent'' agent \<and>
     has_member (bounded_array 200 validate_usage_provider) ''providers'' agent) v"

definition validate_usage_period :: "json \<Rightarrow> bool" where
  "validate_usage_period v \<longleftrightarrow>
     require_response_fields [''totals'', ''cost'', ''partial'', ''agents''] v \<and> has_member is_boolean ''partial'' v \<and>
     has_member validate_usage_summary_totals ''totals'' v \<and> has_member validate_usage_cost ''cost'' v \<and>
     has_member validate_usage_agents ''agents'' v"

definition validate_account_usage :: "json \<Rightarrow> bool" where
  "validate_account_usage v \<longleftrightarrow>
     require_response_fields [''today'', ''last_7_days'', ''last_30_days'', ''all''] v \<and>
     list_all (\<lambda>key. has_member validate_usage_period key v) [''today'', ''last_7_days'', ''last_30_days'', ''all'']"

definition validate_usage_cache_saved :: "json \<Rightarrow> bool" where
  "validate_usage_cache_saved v \<longleftrightarrow>
     require_response_fields [''amount_microusd'', ''status'', ''unpriced_rows''] v \<and>
     text_member (\<lambda>s. s \<in> {''complete'', ''partial'', ''unavailable''}) ''status'' v \<and>
     has_member (null_or_text valid_decimal_integer) ''amount_microusd'' v \<and>
     (case count_member ''unpriced_rows'' v of
        None \<Rightarrow> False
      | Some unpriced \<Rightarrow>
          (str_member ''status'' v = Some ''unavailable'' \<longleftrightarrow> json_get ''amount_microusd'' v = Some JNull) \<and>
          (str_member ''status'' v = Some ''complete'' \<longleftrightarrow> unpriced = 0))"

definition validate_usage_period_coverage :: "externs \<Rightarrow> (int \<Rightarrow> string) \<Rightarrow> json \<Rightarrow> bool" where
  "validate_usage_period_coverage x date_text v \<longleftrightarrow>
     require_response_fields [''partial'', ''daily_retained_from'', ''hourly_retained_from'', ''truncated_by_retention''] v \<and>
     has_member is_boolean ''partial'' v \<and> has_member is_boolean ''truncated_by_retention'' v \<and>
     has_member (null_or_text (valid_usage_date x date_text)) ''daily_retained_from'' v \<and>
     has_member (null_or_text (valid_utc_hour x)) ''hourly_retained_from'' v"

definition validate_usage_period_revision :: "externs \<Rightarrow> json \<Rightarrow> bool" where
  "validate_usage_period_revision x v \<longleftrightarrow>
     require_response_fields [''usage_revision'', ''device_generation'', ''account_updated_at'', ''pricing_revision'',
       ''model_catalog_revision'', ''fold_version''] v \<and>
     count_member ''usage_revision'' v \<noteq> None \<and> count_member ''device_generation'' v \<noteq> None \<and>
     count_member ''fold_version'' v \<noteq> None \<and> has_member (date_or_null x) ''account_updated_at'' v \<and>
     text_member is_opaque ''pricing_revision'' v \<and> text_member is_opaque ''model_catalog_revision'' v"

definition usage_hour_grid_rule :: string where
  "usage_hour_grid_rule = ''first_whole_hour_of_local_date; fractional_midnight_to_previous_day; no_proration''"

definition maximum_usage_period_days :: nat where "maximum_usage_period_days = 366"

definition validate_usage_day :: "externs \<Rightarrow> (int \<Rightarrow> string) \<Rightarrow> json \<Rightarrow> bool" where
  "validate_usage_day x date_text day \<longleftrightarrow>
     require_response_fields [''date'', ''totals'', ''cost'', ''partial''] day \<and>
     text_member (valid_usage_date x date_text) ''date'' day \<and> has_member is_boolean ''partial'' day \<and>
     has_member validate_usage_summary_totals ''totals'' day \<and> has_member validate_usage_cost ''cost'' day"

definition validate_account_usage_period ::
  "externs \<Rightarrow> (int \<Rightarrow> string) \<Rightarrow> json \<Rightarrow> string \<Rightarrow> string \<Rightarrow> string \<Rightarrow> bool" where
  "validate_account_usage_period x date_text v from_date to_date timezone \<longleftrightarrow>
     require_response_fields [''protocol_version'', ''request'', ''bounds'', ''totals'', ''cost'', ''cache_saved'', ''days'',
       ''coverage'', ''revision''] v \<and>
     protocol_is managed_data_protocol v \<and>
     has_member (\<lambda>request. is_object request \<and> str_member ''from'' request = Some from_date \<and>
       str_member ''to'' request = Some to_date \<and> str_member ''timezone'' request = Some timezone) ''request'' v \<and>
     has_member (\<lambda>bounds. is_object bounds \<and>
       (case (str_member ''start'' bounds, str_member ''end'' bounds) of
          (Some start, Some stop) \<Rightarrow> valid_utc_hour x start \<and> valid_utc_hour x stop \<and> start < stop
        | _ \<Rightarrow> False) \<and>
       str_member ''grid'' bounds = Some usage_hour_grid_rule) ''bounds'' v \<and>
     has_member validate_usage_summary_totals ''totals'' v \<and> has_member validate_usage_cost ''cost'' v \<and>
     has_member validate_usage_cache_saved ''cache_saved'' v \<and>
     has_member (\<lambda>days. bounded_array maximum_usage_period_days (validate_usage_day x date_text) days \<and>
       (case as_array days of
          Some ds \<Rightarrow> sorted_wrt (<) (map (\<lambda>d. the (str_member ''date'' d)) ds) | None \<Rightarrow> False)) ''days'' v \<and>
     optional_member validate_usage_agents ''agents'' v \<and>
     has_member (validate_usage_period_coverage x date_text) ''coverage'' v \<and>
     has_member (validate_usage_period_revision x) ''revision'' v"

subsection \<open>The Account\<close>

definition validate_account_record :: "externs \<Rightarrow> json \<Rightarrow> bool" where
  "validate_account_record x v \<longleftrightarrow>
     require_response_fields [''account_id'', ''display_label'', ''created_at''] v \<and>
     text_member is_opaque ''account_id'' v \<and> text_member (valid_rfc3339 x) ''created_at'' v \<and>
     has_member (null_or_text (\<lambda>s. valid_display s 128)) ''display_label'' v"

definition validate_account_device :: "externs \<Rightarrow> json \<Rightarrow> bool" where
  "validate_account_device x v \<longleftrightarrow>
     require_response_fields [''id'', ''display_name'', ''platform'', ''last_seen_at'', ''last_observed_at''] v \<and>
     text_member is_opaque ''id'' v \<and> text_member (\<lambda>s. valid_display s 128) ''display_name'' v \<and>
     text_member valid_read_enum ''platform'' v \<and>
     has_member (date_or_null x) ''last_seen_at'' v \<and> has_member (date_or_null x) ''last_observed_at'' v"

definition validate_account_summary :: "externs \<Rightarrow> json \<Rightarrow> bool" where
  "validate_account_summary x v \<longleftrightarrow>
     require_response_fields [''protocol_version'', ''account'', ''devices'', ''subscriptions'', ''usage'',
       ''pricing_revision'', ''model_catalog_revision''] v \<and>
     protocol_is managed_data_protocol v \<and>
     text_member is_opaque ''pricing_revision'' v \<and> text_member is_opaque ''model_catalog_revision'' v \<and>
     has_member (validate_account_record x) ''account'' v \<and>
     has_member (bounded_array 256 (validate_account_device x)) ''devices'' v \<and>
     has_member (bounded_array 1024 (validate_quota_subscription x)) ''subscriptions'' v \<and>
     has_member validate_account_usage ''usage'' v \<and>
     optional_member (date_or_null x) ''collection_requested_at'' v"

subsection \<open>Usage sent\<close>

text \<open>An hour is at the latest second of no minute: \<open>to_rfc3339_opts\<close> prints it as it was written. The row
  a JSON value decodes to is serde's, a parameter.\<close>

definition nanoseconds_per_second :: int where "nanoseconds_per_second = 1000000000"

definition parse_utc_hour_value :: "externs \<Rightarrow> string \<Rightarrow> int option" where
  "parse_utc_hour_value x s =
     (if length s \<noteq> 20 \<or> \<not> ends_with ''Z'' s then None
      else Option.bind (instant_of x s) (\<lambda>t.
        if t mod (3600 * nanoseconds_per_second) \<noteq> 0 \<or> secs_text x (t div nanoseconds_per_second) \<noteq> s
        then None else Some t))"

definition earliest_usage_instant :: string where "earliest_usage_instant = ''2020-01-01T00:00:00Z''"

definition validate_usage_hour :: "externs \<Rightarrow> (json \<Rightarrow> usage_row option) \<Rightarrow> json \<Rightarrow> string \<Rightarrow> string option" where
  "validate_usage_hour x decode v agent =
     (if count_member ''scan_version'' v = None \<or> \<not> has_member is_boolean ''partial'' v then None
      else Option.bind (str_member ''bucket_start_utc'' v) (\<lambda>s. Option.bind (parse_utc_hour_value x s) (\<lambda>bucket.
        case (instant_of x earliest_usage_instant, Option.bind (json_get ''rows'' v) as_array) of
          (Some earliest, Some rows) \<Rightarrow>
            if bucket < earliest \<or> 512 < length rows then None
            else if list_all (\<lambda>r. is_object r \<and> optional_member (\<lambda>w. as_str w \<noteq> None) ''source_cost_microusd'' r \<and>
                     (case decode r of Some row \<Rightarrow> validate_row row = Inr () \<and> agent_str (row_agent row) = agent | None \<Rightarrow> False)) rows \<and>
                   distinct (map (\<lambda>r. row_key (the (decode r))) rows)
            then Some (secs_text x (bucket div nanoseconds_per_second)) else None
        | _ \<Rightarrow> None)))"

definition validate_usage_submission ::
  "externs \<Rightarrow> (json \<Rightarrow> usage_row option) \<Rightarrow> (json \<Rightarrow> nat) \<Rightarrow> json \<Rightarrow> relay_error + unit" where
  "validate_usage_submission x decode size_of v =
     rbind (validate_bounded_json size_of v) (\<lambda>_.
       ensure (is_object v \<and> protocol_is managed_data_protocol v \<and>
         has_member (\<lambda>w. safe_positive_u64 w \<noteq> None) ''generation'' v \<and>
         (case (str_member ''agent'' v, Option.bind (json_get ''hours'' v) as_array) of
            (Some agent, Some hours) \<Rightarrow>
              let buckets = map (\<lambda>h. validate_usage_hour x decode h agent) hours in
              length hours \<le> 256 \<and> list_all (\<lambda>b. b \<noteq> None) buckets \<and> distinct buckets
          | _ \<Rightarrow> False)) InvalidResponse)"

end
