(* ===== verification/Session_Store.thy ===== *)
theory Session_Store
  imports Relay_Validation
begin

text \<open>
  The stored session (\<open>packages/service/src/state/mod.rs\<close>) and what signs in, signs out and rotates its
  tokens (\<open>service/mod.rs\<close>, \<open>relay/mod.rs\<close>, \<open>service/backend.rs\<close>). The store is the one row
  of the table \<open>session\<close> with its epoch, an \<open>i64\<close> column; the preferences of the same file; the cached
  Account reads and the revision of the other file. An operation answers with the store it leaves and
  its result; a lock or a file that fails is not modelled. Relay's answers and the clock are parameters.
\<close>

subsection \<open>The row and its epoch\<close>

record session_row =
  payload :: json
  epoch :: int

record session_store =
  session :: "session_row option"
  preferences :: "string \<rightharpoonup> string"
  account_reads :: "(string \<times> string) \<rightharpoonup> json"
  revision :: nat

datatype store_error = InvalidState

definition store_of_new_device :: session_store where
  "store_of_new_device = \<lparr>session = None, preferences = (\<lambda>_. None), account_reads = (\<lambda>_. None), revision = 0\<rparr>"

definition identity_reset_key :: string where "identity_reset_key = ''identity_reset_at''"

definition bump_revision :: "session_store \<Rightarrow> session_store \<times> (store_error + nat)" where
  "bump_revision st =
     (case checked_add (revision st) 1 of
        None \<Rightarrow> (st, Inl InvalidState)
      | Some r \<Rightarrow> (st\<lparr>revision := r\<rparr>, Inr r))"

text \<open>\<open>key GLOB 'prefix*'\<close>.\<close>

definition has_prefix :: "string \<Rightarrow> string \<Rightarrow> bool" where
  "has_prefix prefix key \<longleftrightarrow> take (length prefix) key = prefix"

definition clear_account_settings_cache :: "session_store \<Rightarrow> session_store" where
  "clear_account_settings_cache st = st\<lparr>preferences := (\<lambda>key.
     if has_prefix ''account_settings:'' key \<or> has_prefix ''quota_history_sync:'' key \<or>
        has_prefix ''quota_history_read:'' key
     then None else preferences st key)\<rparr>"

definition session_snapshot :: "session_store \<Rightarrow> store_error + (json \<times> nat) option" where
  "session_snapshot st =
     (case session st of
        None \<Rightarrow> Inr None
      | Some row \<Rightarrow> if epoch row < 0 then Inl InvalidState else Inr (Some (payload row, nat (epoch row))))"

definition is_active_session :: "json \<Rightarrow> bool" where
  "is_active_session v \<longleftrightarrow> str_member ''status'' v = Some ''active''"

definition active_session_at_epoch :: "nat \<Rightarrow> session_store \<Rightarrow> bool" where
  "active_session_at_epoch expected st =
     (case session st of
        None \<Rightarrow> False
      | Some row \<Rightarrow> epoch row = int expected \<and> expected < 2 ^ 64 \<and> is_active_session (payload row))"

definition write_session_json :: "json \<Rightarrow> session_store \<Rightarrow> session_store \<times> (store_error + nat)" where
  "write_session_json v st =
     (let current = (case session st of None \<Rightarrow> Some 0 | Some row \<Rightarrow> if epoch row < 0 then None else Some (nat (epoch row))) in
      case Option.bind current (\<lambda>e. checked_add e 1) of
        None \<Rightarrow> (st, Inl InvalidState)
      | Some next_epoch \<Rightarrow>
          if 2 ^ 63 \<le> next_epoch then (st, Inl InvalidState)
          else bump_revision (st\<lparr>session := Some \<lparr>payload = v, epoch = int next_epoch\<rparr>,
            preferences := (preferences st)(identity_reset_key := None)\<rparr>))"

definition touch_session_last_refreshed_at :: "string \<Rightarrow> session_store \<Rightarrow> session_store \<times> bool" where
  "touch_session_last_refreshed_at at_text st =
     (case session st of
        Some row \<Rightarrow>
          if is_active_session (payload row)
          then (st\<lparr>session := Some (row\<lparr>payload := json_insert ''last_refreshed_at'' (JStr at_text) (payload row)\<rparr>)\<rparr>, True)
          else (st, False)
      | None \<Rightarrow> (st, False))"

definition write_session_json_if_epoch :: "json \<Rightarrow> nat \<Rightarrow> session_store \<Rightarrow> session_store \<times> (store_error + nat option)" where
  "write_session_json_if_epoch v expected st =
     (case checked_add expected 1 of
        None \<Rightarrow> (st, Inl InvalidState)
      | Some next_epoch \<Rightarrow>
          if 2 ^ 63 \<le> next_epoch then (st, Inl InvalidState)
          else case session st of
            Some row \<Rightarrow>
              if epoch row = int expected
              then (fst (bump_revision (st\<lparr>session := Some \<lparr>payload = v, epoch = int next_epoch\<rparr>\<rparr>)), Inr (Some next_epoch))
              else (st, Inr None)
          | None \<Rightarrow> (st, Inr None))"

definition clear_session_if_epoch :: "nat \<Rightarrow> session_store \<Rightarrow> session_store \<times> (store_error + bool)" where
  "clear_session_if_epoch expected st =
     (if 2 ^ 63 \<le> expected then (st, Inl InvalidState)
      else case session st of
        Some row \<Rightarrow>
          if epoch row = int expected
          then (fst (bump_revision ((clear_account_settings_cache (st\<lparr>session := None\<rparr>))\<lparr>account_reads := (\<lambda>_. None)\<rparr>)), Inr True)
          else (st, Inr False)
      | None \<Rightarrow> (st, Inr False))"

subsection \<open>Signing in and out\<close>

text \<open>Whether a stored session is one the build can act on.\<close>

definition session_is_usable :: "json \<Rightarrow> bool" where
  "session_is_usable v \<longleftrightarrow>
     (case (str_member ''status'' v, str_member ''account_id'' v, str_member ''device_id'' v,
            Option.bind (json_get ''device_generation'' v) as_u64, object_member ''session'' v) of
        (Some status, Some account_id, Some device_id, Some generation, Some tokens) \<Rightarrow>
          status \<in> {''active'', ''logout_pending''} \<and> account_id \<noteq> [] \<and> device_id \<noteq> [] \<and>
          (case (str_member ''access_token'' tokens, str_member ''refresh_token'' tokens) of
             (Some access, Some refresh) \<Rightarrow> access \<noteq> [] \<and> refresh \<noteq> []
           | _ \<Rightarrow> False)
      | _ \<Rightarrow> False)"

definition logout_pending_json :: "string \<Rightarrow> string \<Rightarrow> string \<Rightarrow> json" where
  "logout_pending_json account_id device_id refresh_token =
     JObj [(''schema_version'', JInt 1), (''status'', JStr ''logout_pending''), (''account_id'', JStr account_id),
       (''device_id'', JStr device_id), (''refresh_token'', JStr refresh_token)]"

definition make_logout_pending :: "json \<Rightarrow> json option" where
  "make_logout_pending v =
     Option.bind (str_member ''account_id'' v) (\<lambda>account_id.
     Option.bind (str_member ''device_id'' v) (\<lambda>device_id.
     Option.bind (case Option.bind (object_member ''session'' v) (str_member ''refresh_token'') of
         Some token \<Rightarrow> Some token | None \<Rightarrow> str_member ''refresh_token'' v) (\<lambda>refresh_token.
       Some (logout_pending_json account_id device_id refresh_token))))"

text \<open>What the start of the service and the start of a sign-in do with the row they find; a sign-in that
  is refused as busy is \<open>False\<close>.\<close>

definition drop_unusable_session :: "session_store \<Rightarrow> session_store \<times> (store_error + unit)" where
  "drop_unusable_session st =
     (case session st of
        None \<Rightarrow> (st, Inr ())
      | Some row \<Rightarrow>
          if session_is_usable (payload row) then (st, Inr ())
          else if epoch row < 0 then (st, Inl InvalidState)
          else case clear_session_if_epoch (nat (epoch row)) st of
            (st', Inl e) \<Rightarrow> (st', Inl e) | (st', Inr _) \<Rightarrow> (st', Inr ()))"

definition login_may_start :: "session_store \<Rightarrow> session_store \<times> (store_error + bool)" where
  "login_may_start st =
     (case session_snapshot st of
        Inl e \<Rightarrow> (st, Inl e)
      | Inr None \<Rightarrow> (st, Inr True)
      | Inr (Some (v, e)) \<Rightarrow> if session_is_usable v then (st, Inr False) else clear_session_if_epoch e st)"

text \<open>\<open>logout\<close> up to the record it leaves; \<open>finish_logout\<close> once Relay has confirmed.\<close>

definition logout_record :: "session_store \<Rightarrow> session_store \<times> (store_error + json option)" where
  "logout_record st =
     (case session st of
        None \<Rightarrow> (st, Inr None)
      | Some row \<Rightarrow>
          let pending = (if str_member ''status'' (payload row) = Some ''logout_pending'' then Some (payload row)
                         else make_logout_pending (payload row)) in
          case pending of
            None \<Rightarrow> (st, Inl InvalidState)
          | Some v \<Rightarrow> (case write_session_json v st of
              (st', Inl e) \<Rightarrow> (st', Inl e) | (st', Inr _) \<Rightarrow> (st', Inr (Some v))))"

definition retry_epoch :: "session_store \<Rightarrow> nat option" where
  "retry_epoch st =
     (case session_snapshot st of
        Inr (Some (v, e)) \<Rightarrow> if str_member ''status'' v = Some ''logout_pending'' then Some e else None
      | _ \<Rightarrow> None)"

definition finish_logout :: "nat option \<Rightarrow> session_store \<Rightarrow> session_store" where
  "finish_logout expected st = (case expected of None \<Rightarrow> st | Some e \<Rightarrow> fst (clear_session_if_epoch e st))"

subsection \<open>Rotating the tokens\<close>

definition access_token_needs_refresh :: "externs \<Rightarrow> int \<Rightarrow> json \<Rightarrow> bool" where
  "access_token_needs_refresh x now v =
     (case Option.bind (Option.bind (object_member ''session'' v) (str_member ''access_expires_at'')) (instant_of x) of
        None \<Rightarrow> True
      | Some expires \<Rightarrow> expires \<le> now + 60 * 1000000000)"

datatype session_error = Ordinary | SessionChanged | RelayRejection nat | PayloadRefused

datatype relay_answer = Answered json | Rejects bool

definition session_access_token_from :: "json \<Rightarrow> session_error + string" where
  "session_access_token_from v =
     ok_or Ordinary (Option.bind (object_member ''session'' v) (str_member ''access_token''))"

text \<open>Relay's answer to a request, a parameter: a response or a failure, which may ask for a new sign-in.\<close>

definition relay_backend_error :: "bool \<Rightarrow> nat \<Rightarrow> session_error" where
  "relay_backend_error login e = (if login then RelayRejection e else Ordinary)"

definition refresh_session_family ::
  "externs \<Rightarrow> (string \<Rightarrow> relay_answer) \<Rightarrow> json \<Rightarrow> nat \<Rightarrow> session_error + json" where
  "refresh_session_family x relay v e =
     (case Option.bind (object_member ''session'' v) (str_member ''refresh_token'') of
        None \<Rightarrow> Inl Ordinary
      | Some token \<Rightarrow> (case relay token of
          Rejects login \<Rightarrow> Inl (relay_backend_error login e)
        | Answered response \<Rightarrow>
            if \<not> validate_session_refresh_response x response v then Inl Ordinary
            else (case json_get ''session'' response of
                    None \<Rightarrow> Inl Ordinary
                  | Some family \<Rightarrow> Inr (json_insert ''session'' family v))))"

definition ensure_fresh_session ::
  "externs \<Rightarrow> int \<Rightarrow> (string \<Rightarrow> relay_answer) \<Rightarrow> json \<times> nat \<Rightarrow> session_store \<Rightarrow>
   session_store \<times> (session_error + string \<times> json \<times> nat)" where
  "ensure_fresh_session x now relay held st =
     (if \<not> access_token_needs_refresh x now (fst held)
      then (st, rbind (session_access_token_from (fst held)) (\<lambda>token. Inr (token, held)))
      else case session_snapshot st of
        Inl _ \<Rightarrow> (st, Inl Ordinary)
      | Inr None \<Rightarrow> (st, Inl SessionChanged)
      | Inr (Some (current, e)) \<Rightarrow>
          if \<not> is_active_session current then (st, Inl SessionChanged)
          else if \<not> access_token_needs_refresh x now current
          then (st, rbind (session_access_token_from current) (\<lambda>token. Inr (token, current, e)))
          else case refresh_session_family x relay current e of
            Inl err \<Rightarrow> (st, Inl err)
          | Inr rotated \<Rightarrow> (case write_session_json_if_epoch rotated e st of
              (st', Inl _) \<Rightarrow> (st', Inl Ordinary)
            | (st', Inr None) \<Rightarrow> (st', Inl SessionChanged)
            | (st', Inr (Some e')) \<Rightarrow>
                (st', rbind (session_access_token_from rotated) (\<lambda>token. Inr (token, rotated, e')))))"

text \<open>The end of \<open>sync_control_and_update\<close>: the session the lane has held since it started goes back with
  what Relay's control response says of the device, if it is still the one at its epoch. And what a
  rejection does to the session it was sent under.\<close>

definition with_control :: "json \<Rightarrow> json \<Rightarrow> json" where
  "with_control control v =
     fold (\<lambda>key w. case json_get key control of None \<Rightarrow> w | Some m \<Rightarrow> json_insert key m w)
       [''device_generation'', ''usage_sync_revision'', ''usage_deleted_before''] v"

definition write_control_back :: "json \<Rightarrow> json \<times> nat \<Rightarrow> session_store \<Rightarrow> session_store \<times> (session_error + unit)" where
  "write_control_back control held st =
     (if \<not> active_session_at_epoch (snd held) st then (st, Inl SessionChanged)
      else case write_session_json_if_epoch (with_control control (fst held)) (snd held) st of
        (st', Inl _) \<Rightarrow> (st', Inl Ordinary)
      | (st', Inr None) \<Rightarrow> (st', Inl SessionChanged)
      | (st', Inr (Some _)) \<Rightarrow> (st', Inr ()))"

definition clear_session_if_rejected :: "session_error \<Rightarrow> session_store \<Rightarrow> session_store" where
  "clear_session_if_rejected err st =
     (case err of RelayRejection e \<Rightarrow> fst (clear_session_if_epoch e st) | _ \<Rightarrow> st)"

definition clear_pending_session :: "session_store \<Rightarrow> session_store" where
  "clear_pending_session st = (case retry_epoch st of None \<Rightarrow> st | Some e \<Rightarrow> fst (clear_session_if_epoch e st))"

subsection \<open>Runs of the store\<close>

datatype session_op = Write json | WriteIf json nat | Clear nat | Touch string

fun apply_op :: "session_op \<Rightarrow> session_store \<Rightarrow> session_store" where
  "apply_op (Write v) st = fst (write_session_json v st)"
| "apply_op (WriteIf v e) st = fst (write_session_json_if_epoch v e st)"
| "apply_op (Clear e) st = fst (clear_session_if_epoch e st)"
| "apply_op (Touch a) st = fst (touch_session_last_refreshed_at a st)"

definition is_clear :: "session_op \<Rightarrow> bool" where
  "is_clear op \<longleftrightarrow> (case op of Clear _ \<Rightarrow> True | _ \<Rightarrow> False)"

text \<open>A payload with other values of \<open>last_refreshed_at\<close>.\<close>

definition stamped :: "string list \<Rightarrow> json \<Rightarrow> json" where
  "stamped ats v = fold (\<lambda>a. json_insert ''last_refreshed_at'' (JStr a)) ats v"

lemma session_bump [simp]: "session (fst (bump_revision st)) = session st"
  by (simp add: bump_revision_def split: option.splits)

text \<open>A row that is left with its epoch is the row there was, up to a stamp.\<close>

definition follows :: "session_row \<Rightarrow> session_row \<Rightarrow> bool" where
  "follows row row' \<longleftrightarrow> epoch row \<le> epoch row' \<and>
     (epoch row = epoch row' \<longrightarrow> (\<exists>ats. payload row' = stamped ats (payload row)))"

lemma follows_refl [simp]: "follows row row"
  by (auto simp: follows_def stamped_def intro: exI [of _ "[]"])

lemma stamped_stamped: "stamped bs (stamped as v) = stamped (as @ bs) v"
  by (simp add: stamped_def)

lemma follows_trans:
  assumes "follows a b" "follows b c"
  shows "follows a c"
proof -
  have "\<exists>ats. payload c = stamped ats (payload a)" if "epoch a = epoch c"
  proof -
    from that assms have "epoch a = epoch b" "epoch b = epoch c" by (auto simp: follows_def)
    with assms obtain as bs where "payload b = stamped as (payload a)" "payload c = stamped bs (payload b)"
      by (auto simp: follows_def)
    then show ?thesis by (auto simp: stamped_stamped)
  qed
  with assms show ?thesis by (auto simp: follows_def)
qed

lemma apply_op_follows:
  assumes "session st = Some row" "\<not> is_clear op"
  shows "\<exists>row'. session (apply_op op st) = Some row' \<and> follows row row'"
proof (cases op)
  case (Write v)
  then show ?thesis
    using assms by (auto simp: write_session_json_def checked_add_def follows_def split: if_splits option.splits)
      (auto simp: follows_def stamped_def intro: exI [of _ "[]"])
next
  case (WriteIf v e)
  then show ?thesis
    using assms by (auto simp: write_session_json_if_epoch_def checked_add_def follows_def split: if_splits option.splits)
      (auto simp: follows_def stamped_def intro: exI [of _ "[]"])
next
  case (Touch a)
  then show ?thesis
    using assms by (auto simp: touch_session_last_refreshed_at_def follows_def stamped_def intro: exI [of _ "[a]"] exI [of _ "[]"])
qed (use assms in \<open>simp add: is_clear_def\<close>)

lemma run_follows:
  assumes "session st = Some row" "\<forall>op \<in> set ops. \<not> is_clear op"
  shows "\<exists>row'. session (fold apply_op ops st) = Some row' \<and> follows row row'"
  using assms
proof (induction ops arbitrary: st row)
  case (Cons op ops)
  then obtain mid where "session (apply_op op st) = Some mid" "follows row mid"
    using apply_op_follows [of st row op] by auto
  with Cons.IH [OF this(1)] Cons.prems show ?case by (auto dest: follows_trans)
qed simp

text \<open>C35: As long as nobody signs out, a lane that writes at the epoch it read replaces nothing but the
  session it read, up to the stamp of the last reading, whatever was written in between.\<close>

theorem swap_replaces_what_was_read:
  assumes "session st = Some row" "0 \<le> epoch row"
    and "\<forall>op \<in> set ops. \<not> is_clear op"
    and "write_session_json_if_epoch v (nat (epoch row)) (fold apply_op ops st) = (st', Inr (Some e))"
  shows "(\<exists>ats. session (fold apply_op ops st) = Some (row\<lparr>payload := stamped ats (payload row)\<rparr>)) \<and>
    session st' = Some \<lparr>payload = v, epoch = epoch row + 1\<rparr> \<and> int e = epoch row + 1"
proof -
  obtain row' where row': "session (fold apply_op ops st) = Some row'" "follows row row'"
    using run_follows [OF assms(1,3)] by blast
  from assms(2,4) row'(1) have swapped: "epoch row' = epoch row" "int e = epoch row + 1" "session st' = Some \<lparr>payload = v, epoch = epoch row + 1\<rparr>"
    by (auto simp: write_session_json_if_epoch_def checked_add_def split: if_splits)
  with row' show ?thesis by (cases row; cases row') (auto simp: follows_def)
qed

theorem swap_replaces_what_was_read_witness:
  "\<exists>ats. session (fold apply_op [Touch ''2026-09-21T00:00:00Z''] (store_of_new_device\<lparr>session := Some
      \<lparr>payload = JObj [(''status'', JStr ''active'')], epoch = 1\<rparr>\<rparr>)) =
    Some \<lparr>payload = stamped ats (JObj [(''status'', JStr ''active'')]), epoch = 1\<rparr>"
proof -
  let ?row = "\<lparr>payload = JObj [(''status'', JStr ''active'')], epoch = 1\<rparr>"
  let ?st = "store_of_new_device\<lparr>session := Some ?row\<rparr>" and ?ops = "[Touch ''2026-09-21T00:00:00Z'']"
  obtain st' where swap: "write_session_json_if_epoch JNull (nat (epoch ?row)) (fold apply_op ?ops ?st) = (st', Inr (Some 2))"
    by (simp add: write_session_json_if_epoch_def checked_add_def touch_session_last_refreshed_at_def
        is_active_session_def str_member_def store_of_new_device_def)
  from swap_replaces_what_was_read [of ?st ?row, OF _ _ _ swap] show ?thesis by (simp add: is_clear_def)
qed

subsection \<open>Where the epoch and the revoke record fall short\<close>

lemma write_session_row:
  assumes "session st = None \<and> e = 0 \<or> (\<exists>row. session st = Some row \<and> epoch row = int e)" "e < 2 ^ 62"
  shows "session (fst (write_session_json v st)) = Some \<lparr>payload = v, epoch = int e + 1\<rparr>"
  using assms by (auto simp: write_session_json_def checked_add_def)

lemma clear_session_row:
  assumes "session st = Some row" "epoch row = int e" "e < 2 ^ 63"
  shows "session (fst (clear_session_if_epoch e st)) = None" "snd (clear_session_if_epoch e st) = Inr True"
  using assms by (simp_all add: clear_session_if_epoch_def clear_account_settings_cache_def)

lemma make_logout_pending_form:
  assumes "make_logout_pending v = Some p"
  obtains a d r where "p = logout_pending_json a d r"
  using assms by (auto simp: make_logout_pending_def bind_eq_Some_conv)

lemma logout_pending_status: "make_logout_pending v = Some p \<Longrightarrow> str_member ''status'' p = Some ''logout_pending''"
  by (erule make_logout_pending_form) (simp add: logout_pending_json_def str_member_def)

lemma logout_pending_unusable:
  assumes "make_logout_pending v = Some p"
  shows "\<not> session_is_usable p"
proof -
  from assms have "json_get ''device_generation'' p = None"
    by (rule make_logout_pending_form) (simp add: logout_pending_json_def)
  then show ?thesis by (simp add: session_is_usable_def split: option.splits)
qed

text \<open>C36: A sign-out that Relay has confirmed deletes the row with its epoch, so the next sign-in starts
  at the epoch of the first: a lane of the first session still finds "its" session active and its write
  replaces the new session by the old one.\<close>

theorem signed_out_session_revived:
  assumes "make_logout_pending first = Some pending" "is_active_session first" "is_active_session second"
  defines "signed_in \<equiv> fst (write_session_json first store_of_new_device)"
  defines "signing_out \<equiv> fst (logout_record signed_in)"
  defines "signed_out \<equiv> finish_logout (retry_epoch signing_out) signing_out"
  defines "signed_in_again \<equiv> fst (write_session_json second signed_out)"
  shows "session_snapshot signed_in = Inr (Some (first, 1)) \<and> session signed_out = None \<and>
    session signed_in_again = Some \<lparr>payload = second, epoch = 1\<rparr> \<and>
    (\<exists>st. write_control_back control (first, 1) signed_in_again = (st, Inr ()) \<and>
      session st = Some \<lparr>payload = with_control control first, epoch = 2\<rparr>)"
proof -
  have a: "session signed_in = Some \<lparr>payload = first, epoch = 1\<rparr>"
    unfolding signed_in_def using write_session_row [of store_of_new_device 0] by (simp add: store_of_new_device_def)
  have b: "session (fst (write_session_json pending signed_in)) = Some \<lparr>payload = pending, epoch = 2\<rparr>"
    using write_session_row [of signed_in 1 pending] a by simp
  have "session signing_out = Some \<lparr>payload = pending, epoch = 2\<rparr>"
    using a b assms(1,2) by (auto simp: signing_out_def logout_record_def is_active_session_def split: prod.split sum.split)
  then have c: "session signed_out = None"
    using logout_pending_status [OF assms(1)] clear_session_row [of signing_out _ 2]
    by (simp add: signed_out_def retry_epoch_def session_snapshot_def finish_logout_def)
  then have d: "session signed_in_again = Some \<lparr>payload = second, epoch = 1\<rparr>"
    unfolding signed_in_again_def using write_session_row [of signed_out 0] by simp
  with a c assms(3) show ?thesis
    by (simp add: session_snapshot_def write_control_back_def active_session_at_epoch_def write_session_json_if_epoch_def
        checked_add_def split: prod.split)
qed

theorem signed_out_session_revived_witness:
  "\<exists>signed_in_again st. session signed_in_again = Some \<lparr>payload = JObj [(''status'', JStr ''active''), (''account_id'', JStr ''b'')], epoch = 1\<rparr> \<and>
     write_control_back (JObj []) (JObj [(''status'', JStr ''active''), (''account_id'', JStr ''a''), (''device_id'', JStr ''d''),
       (''refresh_token'', JStr ''r'')], 1) signed_in_again = (st, Inr ())"
proof -
  let ?first = "JObj [(''status'', JStr ''active''), (''account_id'', JStr ''a''), (''device_id'', JStr ''d''), (''refresh_token'', JStr ''r'')]"
  let ?second = "JObj [(''status'', JStr ''active''), (''account_id'', JStr ''b'')]"
  have "make_logout_pending ?first = Some (logout_pending_json ''a'' ''d'' ''r'')"
    by (simp add: make_logout_pending_def str_member_def object_member_def)
  from signed_out_session_revived [OF this, of ?second "JObj []"] show ?thesis
    by (auto simp: is_active_session_def str_member_def)
qed

text \<open>C37: The record a sign-out leaves to have its tokens revoked later is one the build cannot act on: the
  next start of the service drops it, and so does the next sign-in, which does not wait for it.\<close>

theorem revoke_record_is_dropped:
  assumes "make_logout_pending v = Some pending" "session st = Some \<lparr>payload = pending, epoch = int e\<rparr>" "e < 2 ^ 63"
  shows "session (fst (drop_unusable_session st)) = None \<and>
    session (fst (login_may_start st)) = None \<and> snd (login_may_start st) = Inr True"
  using logout_pending_unusable [OF assms(1)] clear_session_row [OF assms(2) _ assms(3)] assms(2)
  by (auto simp: drop_unusable_session_def login_may_start_def session_snapshot_def split: prod.split sum.split)

theorem revoke_record_is_dropped_witness:
  "session (fst (drop_unusable_session (store_of_new_device\<lparr>session := Some
     \<lparr>payload = logout_pending_json ''a'' ''d'' ''r'', epoch = int 2\<rparr>\<rparr>))) = None"
proof -
  have "make_logout_pending (logout_pending_json ''a'' ''d'' ''r'') = Some (logout_pending_json ''a'' ''d'' ''r'')"
    by (simp add: make_logout_pending_def logout_pending_json_def str_member_def object_member_def)
  from revoke_record_is_dropped [OF this] show ?thesis by simp
qed

end
