(* ===== verification/Session_Lanes.thy ===== *)
theory Session_Lanes
  imports Session_Store
begin

text \<open>
  Who writes the stored session (\<open>relay/mod.rs\<close>, \<open>service/mod.rs\<close>): a sign-in makes it from Relay's token
  response, and a lane that holds it sends what it says of the device back. The machine \<open>session_step\<close>
  interleaves them: its state is the store and the sessions lanes hold. What the lemmas show: whatever
  Relay answers and however the lanes interleave, an active session in the store is one the service can
  act on.
\<close>

declare split_paired_All [simp del] split_paired_Ex [simp del]

subsection \<open>Signing in\<close>

definition account_display_label :: "json option \<Rightarrow> string option" where
  "account_display_label v =
     Option.bind v (\<lambda>w. Option.bind (as_str w) (\<lambda>s.
       let label = trim s in if label \<noteq> [] \<and> char_count label \<le> 128 then Some label else None))"

definition member_or_null :: "string \<Rightarrow> json \<Rightarrow> json" where
  "member_or_null key v = (case json_get key v of None \<Rightarrow> JNull | Some w \<Rightarrow> w)"

definition session_from_token_response :: "externs \<Rightarrow> json \<Rightarrow> relay_error + json" where
  "session_from_token_response x response =
     rbind (ensure (require_response_fields [''protocol_version'', ''token_type'', ''account_id'', ''device_id'',
         ''device_generation'', ''usage_deleted_before'', ''usage_sync_revision'', ''session''] response \<and>
       protocol_is control_protocol response \<and> str_member ''token_type'' response = Some ''Bearer'') InvalidResponse) (\<lambda>_.
     case (str_member ''account_id'' response, str_member ''device_id'' response,
           Option.bind (json_get ''device_generation'' response) safe_positive_u64,
           Option.bind (json_get ''usage_sync_revision'' response) safe_u64,
           json_get ''usage_deleted_before'' response, json_get ''session'' response) of
       (Some account_id, Some device_id, Some generation, Some sync_revision, Some deleted_before, Some issued) \<Rightarrow>
         if is_opaque account_id \<and> is_opaque device_id \<and> date_or_null x deleted_before \<and> validate_session_token x issued
         then Inr (JObj [(''schema_version'', JInt 1), (''status'', JStr ''active''), (''account_id'', JStr account_id),
           (''display_label'', (case account_display_label (json_get ''display_label'' response) of
              None \<Rightarrow> JNull | Some label \<Rightarrow> JStr label)),
           (''device_id'', JStr device_id), (''device_generation'', JInt (int generation)),
           (''usage_sync_revision'', JInt (int sync_revision)), (''usage_deleted_before'', deleted_before),
           (''session'', JObj (map (\<lambda>key. (key, member_or_null key issued))
              [''access_token'', ''access_expires_at'', ''refresh_token'', ''refresh_expires_at'']))])
         else Inl InvalidResponse
     | _ \<Rightarrow> Inl InvalidResponse)"

definition pending_session_from_active :: "json \<Rightarrow> json option" where
  "pending_session_from_active v =
     Option.bind (str_member ''account_id'' v) (\<lambda>account_id.
     Option.bind (str_member ''device_id'' v) (\<lambda>device_id.
     Option.bind (Option.bind (object_member ''session'' v) (str_member ''refresh_token'')) (\<lambda>refresh_token.
       Some (logout_pending_json account_id device_id refresh_token))))"

text \<open>The end of the sign-in in the lane that asked Relay, and in the service. A sign-in that was cancelled
  leaves a record to revoke what was issued.\<close>

definition finalize_login_unless_cancelled ::
  "externs \<Rightarrow> bool \<Rightarrow> json \<Rightarrow> session_store \<Rightarrow> session_store \<times> (session_error + json)" where
  "finalize_login_unless_cancelled x cancelled response st =
     (case session_from_token_response x response of
        Inl _ \<Rightarrow> (st, Inl Ordinary)
      | Inr v \<Rightarrow>
          if \<not> cancelled then (st, Inr v)
          else (case pending_session_from_active v of
                  None \<Rightarrow> (st, Inl Ordinary)
                | Some pending \<Rightarrow> (fst (write_session_json pending st), Inl Ordinary)))"

definition write_pending :: "json \<Rightarrow> session_store \<Rightarrow> session_store" where
  "write_pending v st =
     (case make_logout_pending v of None \<Rightarrow> st | Some pending \<Rightarrow> fst (write_session_json pending st))"

definition finish_login :: "bool \<Rightarrow> bool \<Rightarrow> session_error + json \<Rightarrow> session_store \<Rightarrow> session_store" where
  "finish_login cancelled cancelled_meanwhile outcome st =
     (case outcome of
        Inl _ \<Rightarrow> st
      | Inr v \<Rightarrow>
          if cancelled then write_pending v st
          else (case write_session_json v st of
                  (st', Inl _) \<Rightarrow> write_pending v st'
                | (st', Inr _) \<Rightarrow> if cancelled_meanwhile then write_pending v st' else st'))"

subsection \<open>A lane that holds the session\<close>

text \<open>The two halves of \<open>sync_control_and_update\<close>: the session is taken and made fresh; once Relay has
  answered, the answer is checked against it, the device's profile is brought up to date, and the session
  goes back.\<close>

definition take_session ::
  "externs \<Rightarrow> int \<Rightarrow> (string \<Rightarrow> relay_answer) \<Rightarrow> session_store \<Rightarrow> session_store \<times> (session_error + string \<times> json \<times> nat)" where
  "take_session x now relay st =
     (case session_snapshot st of
        Inl _ \<Rightarrow> (st, Inl Ordinary)
      | Inr None \<Rightarrow> (st, Inl Ordinary)
      | Inr (Some held) \<Rightarrow>
          if \<not> is_active_session (fst held) then (st, Inl SessionChanged) else ensure_fresh_session x now relay held st)"

definition profile_is_current :: "string \<Rightarrow> string \<Rightarrow> json \<Rightarrow> bool" where
  "profile_is_current device_name platform v \<longleftrightarrow>
     (case object_member ''device_profile'' v of
        None \<Rightarrow> False
      | Some profile \<Rightarrow> str_member ''display_name'' profile = Some device_name \<and> str_member ''platform'' profile = Some platform)"

definition with_profile :: "string \<Rightarrow> string \<Rightarrow> json \<Rightarrow> json" where
  "with_profile device_name platform v =
     json_insert ''device_profile'' (JObj [(''display_name'', JStr device_name), (''platform'', JStr platform)]) v"

definition update_profile :: "string \<Rightarrow> string \<Rightarrow> relay_answer \<Rightarrow> json \<times> nat \<Rightarrow> session_error + json" where
  "update_profile device_name platform answer held =
     (if profile_is_current device_name platform (fst held) then Inr (fst held)
      else case answer of
        Rejects login \<Rightarrow> Inl (relay_backend_error login (snd held))
      | Answered response \<Rightarrow>
          if validate_device_profile_response response (str_member ''device_id'' (fst held))
          then Inr (with_profile device_name platform (fst held)) else Inl Ordinary)"

definition return_session ::
  "externs \<Rightarrow> string \<Rightarrow> string \<Rightarrow> relay_answer \<Rightarrow> relay_answer \<Rightarrow> json \<times> nat \<Rightarrow> session_store \<Rightarrow>
   session_store \<times> (session_error + unit)" where
  "return_session x device_name platform control_answer profile_answer held st =
     (case control_answer of
        Rejects login \<Rightarrow> (st, Inl (relay_backend_error login (snd held)))
      | Answered control \<Rightarrow>
          if \<not> validate_control_response x control \<or>
             str_member ''account_id'' control \<noteq> str_member ''account_id'' (fst held) \<or>
             str_member ''device_id'' control \<noteq> str_member ''device_id'' (fst held)
          then (st, Inl Ordinary)
          else (case update_profile device_name platform profile_answer held of
                  Inl e \<Rightarrow> (st, Inl e)
                | Inr v \<Rightarrow> write_control_back control (v, snd held) st))"

subsection \<open>The machine\<close>

record lanes =
  store :: session_store
  held :: "(json \<times> nat) list"

definition lanes_of_new_device :: lanes where
  "lanes_of_new_device = \<lparr>store = store_of_new_device, held = []\<rparr>"

inductive session_step :: "externs \<Rightarrow> lanes \<Rightarrow> lanes \<Rightarrow> bool" for x where
  Start: "session_step x s (s\<lparr>store := fst (drop_unusable_session (store s))\<rparr>)"
| Login: "session_step x s (s\<lparr>store := fst (login_may_start (store s))\<rparr>)"
| Exchange: "finalize_login_unless_cancelled x cancelled response (store s) = (st, outcome) \<Longrightarrow>
    session_step x s (s\<lparr>store := finish_login c c' outcome st\<rparr>)"
| Logout: "session_step x s (s\<lparr>store := fst (logout_record (store s))\<rparr>)"
| Revoked: "session_step x s (s\<lparr>store := finish_logout expected (store s)\<rparr>)"
| Rejected: "session_step x s (s\<lparr>store := clear_session_if_rejected err (store s)\<rparr>)"
| Pending: "session_step x s (s\<lparr>store := clear_pending_session (store s)\<rparr>)"
| Stamp: "session_step x s (s\<lparr>store := fst (touch_session_last_refreshed_at a (store s))\<rparr>)"
| Take: "take_session x now relay (store s) = (st, outcome) \<Longrightarrow>
    session_step x s (s\<lparr>store := st, held := (case outcome of Inl _ \<Rightarrow> held s | Inr (token, h) \<Rightarrow> h # held s)\<rparr>)"
| Return: "h \<in> set (held s) \<Longrightarrow>
    session_step x s (s\<lparr>store := fst (return_session x device_name platform control profile h (store s))\<rparr>)"

inductive_cases session_stepE: "session_step x s t"

subsection \<open>An active session is one the service can act on\<close>

definition live_session :: "externs \<Rightarrow> json \<Rightarrow> bool" where
  "live_session x v \<longleftrightarrow> is_active_session v \<and> text_member is_opaque ''account_id'' v \<and> text_member is_opaque ''device_id'' v \<and>
     has_member (\<lambda>w. safe_positive_u64 w \<noteq> None) ''device_generation'' v \<and> has_member (validate_session_token x) ''session'' v"

lemma is_opaque_nonempty: "is_opaque s \<Longrightarrow> s \<noteq> []"
  by (simp add: is_opaque_def)

lemma token_member: "validate_session_token x t \<Longrightarrow> key \<in> {''access_token'', ''refresh_token''} \<Longrightarrow>
   is_object t \<and> (\<exists>s. str_member key t = Some s \<and> s \<noteq> [])"
  by (auto simp: validate_session_token_def require_response_fields_def text_member_def split: option.splits)

lemma safe_positive_u64_Some: "safe_positive_u64 w = Some n \<Longrightarrow> as_u64 w = Some n"
  by (auto simp: safe_positive_u64_def safe_u64_def bind_eq_Some_conv split: if_splits)

lemma live_session_usable:
  assumes "live_session x v"
  shows "session_is_usable v"
proof -
  from assms obtain t where t: "json_get ''session'' v = Some t" "validate_session_token x t"
    by (auto simp: live_session_def has_member_def split: option.splits)
  with token_member [OF t(2), of "''access_token''"] token_member [OF t(2), of "''refresh_token''"] assms show ?thesis
    by (auto simp: live_session_def session_is_usable_def is_active_session_def text_member_def has_member_def
        object_member_def split: option.splits dest: is_opaque_nonempty safe_positive_u64_Some)
qed

lemma str_member_insert [simp]:
  "str_member k (json_insert key v w) = (if k = key \<and> is_object w then as_str v else str_member k w)"
  by (simp add: str_member_def)

lemma live_session_insert:
  assumes "live_session x v" "key \<notin> {''status'', ''account_id'', ''device_id'', ''device_generation'', ''session''}"
  shows "live_session x (json_insert key w v)"
  using assms by (auto simp: live_session_def is_active_session_def text_member_def has_member_def)

lemma live_session_generation:
  assumes "live_session x v" "safe_positive_u64 w \<noteq> None"
  shows "live_session x (json_insert ''device_generation'' w v)"
  using assms by (auto simp: live_session_def is_active_session_def text_member_def has_member_def)

lemma live_session_tokens:
  assumes "live_session x v" "validate_session_token x w"
  shows "live_session x (json_insert ''session'' w v)"
  using assms by (auto simp: live_session_def is_active_session_def text_member_def has_member_def)

lemma live_session_from_response:
  assumes "session_from_token_response x response = Inr v"
  shows "live_session x v"
proof -
  from assms have p: "json_get ''status'' v = Some (JStr ''active'')"
    "\<exists>a. json_get ''account_id'' v = Some (JStr a) \<and> is_opaque a" "\<exists>d. json_get ''device_id'' v = Some (JStr d) \<and> is_opaque d"
    by (auto simp: session_from_token_response_def result_simps split: option.splits if_splits)
  from assms obtain n w where n: "json_get ''device_generation'' v = Some (JInt (int n))" "safe_positive_u64 w = Some n"
    by (auto simp: session_from_token_response_def result_simps bind_eq_Some_conv split: option.splits if_splits)
  then have "safe_positive_u64 (JInt (int n)) = Some n"
    by (auto simp: safe_positive_u64_def safe_u64_def bind_eq_Some_conv maximum_safe_integer_def split: if_splits)
  moreover from assms obtain t where t: "validate_session_token x t"
    "json_get ''session'' v = Some (JObj (map (\<lambda>key. (key, member_or_null key t))
       [''access_token'', ''access_expires_at'', ''refresh_token'', ''refresh_expires_at'']))"
    by (auto simp: session_from_token_response_def result_simps split: option.splits if_splits)
  moreover from t(1) have "validate_session_token x (JObj (map (\<lambda>key. (key, member_or_null key t))
       [''access_token'', ''access_expires_at'', ''refresh_token'', ''refresh_expires_at'']))"
    by (auto simp: validate_session_token_def require_response_fields_def text_member_def str_member_def is_object_def
        member_or_null_def bind_eq_Some_conv split: option.splits)
  ultimately show ?thesis using p n by (auto simp: live_session_def is_active_session_def text_member_def has_member_def str_member_def)
qed


text \<open>What every state of the machine keeps, and that each operation of the store keeps it.\<close>

definition store_live :: "externs \<Rightarrow> session_store \<Rightarrow> bool" where
  "store_live x st \<longleftrightarrow> (case session st of None \<Rightarrow> True | Some row \<Rightarrow> 1 \<le> epoch row \<and> epoch row < 2 ^ 63 \<and>
     (is_active_session (payload row) \<longrightarrow> live_session x (payload row)))"

definition held_live :: "externs \<Rightarrow> lanes \<Rightarrow> bool" where
  "held_live x s \<longleftrightarrow> list_all (\<lambda>h. live_session x (fst h)) (held s)"

lemma session_fst_bump [simp]: "session (fst (bump_revision st)) = session st"
  by (simp add: bump_revision_def split: option.split)

lemma store_live_same: "session st' = session st \<Longrightarrow> store_live x st' = store_live x st"
  by (simp add: store_live_def)

lemma store_live_write:
  assumes "store_live x st" "is_active_session v \<longrightarrow> live_session x v"
  shows "store_live x (fst (write_session_json v st))"
  using assms by (auto simp: store_live_def write_session_json_def checked_add_def Let_def split: option.splits if_splits)

lemma store_live_write_if:
  assumes "store_live x st" "live_session x v"
  shows "store_live x (fst (write_session_json_if_epoch v e st))"
  using assms by (auto simp: store_live_def write_session_json_if_epoch_def checked_add_def split: option.splits if_splits)

lemma store_live_clear: "store_live x st \<Longrightarrow> store_live x (fst (clear_session_if_epoch e st))"
  by (auto simp: store_live_def clear_session_if_epoch_def clear_account_settings_cache_def split: option.splits if_splits)

lemma store_live_touch: "store_live x st \<Longrightarrow> store_live x (fst (touch_session_last_refreshed_at a st))"
  by (auto simp: store_live_def touch_session_last_refreshed_at_def is_active_session_def live_session_insert
      split: option.splits if_splits)

lemma pending_not_active: "\<not> is_active_session (logout_pending_json a d r)"
  by (simp add: is_active_session_def logout_pending_json_def str_member_def)

lemma make_logout_pending_not_active: "make_logout_pending v = Some p \<Longrightarrow> \<not> is_active_session p"
  by (auto simp: pending_not_active elim: make_logout_pending_form)

lemma store_live_pending: "store_live x st \<Longrightarrow> store_live x (write_pending v st)"
  by (auto simp: write_pending_def make_logout_pending_not_active intro: store_live_write split: option.split)

lemma store_live_finish_login:
  assumes "store_live x st" "\<And>v. outcome = Inr v \<Longrightarrow> live_session x v"
  shows "store_live x (finish_login c c' outcome st)"
proof (cases outcome)
  case (Inr v)
  have "store_live x (fst (write_session_json v st))" by (rule store_live_write) (use assms Inr in auto)
  with assms(1) Inr show ?thesis
    by (auto simp: finish_login_def intro: store_live_pending split: prod.split sum.split)
qed (use assms in \<open>simp add: finish_login_def\<close>)

lemma store_live_finalize:
  assumes "store_live x st" "finalize_login_unless_cancelled x c response st = (st', outcome)"
  shows "store_live x st'" "outcome = Inr v \<Longrightarrow> live_session x v"
  using assms live_session_from_response [of x response]
  by (auto simp: finalize_login_unless_cancelled_def pending_session_from_active_def bind_eq_Some_conv pending_not_active
      intro!: store_live_write split: sum.splits option.splits if_splits)

lemma store_live_logout: "store_live x st \<Longrightarrow> store_live x (fst (logout_record st))"
proof (cases "session st")
  case (Some row)
  assume live: "store_live x st"
  have "store_live x (fst (write_session_json p st))"
    if "(if str_member ''status'' (payload row) = Some ''logout_pending'' then Some (payload row)
         else make_logout_pending (payload row)) = Some p" for p
    by (rule store_live_write [OF live])
      (use that in \<open>auto simp: is_active_session_def dest!: logout_pending_status split: if_splits\<close>)
  with Some live show ?thesis
    by (auto simp: logout_record_def Let_def split: option.split prod.split sum.split)
qed (simp add: logout_record_def)

lemma snapshot_live:
  "store_live x st \<Longrightarrow> session_snapshot st = Inr (Some (v, e)) \<Longrightarrow> is_active_session v \<Longrightarrow> live_session x v"
  by (auto simp: store_live_def session_snapshot_def split: option.splits if_splits)

lemma refreshed_live:
  assumes "live_session x v" "refresh_session_family x relay v e = Inr v'"
  shows "live_session x v'"
proof -
  from assms(2) obtain response family where "validate_session_refresh_response x response v"
    "json_get ''session'' response = Some family" "v' = json_insert ''session'' family v"
    by (auto simp: refresh_session_family_def split: option.splits relay_answer.splits if_splits)
  with assms(1) show ?thesis
    by (auto simp: validate_session_refresh_response_def has_member_def intro: live_session_tokens)
qed

lemma ensure_fresh_live:
  assumes "store_live x st" "live_session x (fst h)" "ensure_fresh_session x now relay h st = (st', outcome)"
  shows "store_live x st'" "outcome = Inr (token, h') \<Longrightarrow> live_session x (fst h')"
proof -
  have swap: "store_live x (fst (write_session_json_if_epoch v' e st))"
    if "session_snapshot st = Inr (Some (v, e))" "is_active_session v" "refresh_session_family x relay v e = Inr v'" for v v' e
    using refreshed_live [OF snapshot_live [OF assms(1) that(1,2)] that(3)] by (rule store_live_write_if [OF assms(1)])
  from assms show "store_live x st'"
    by (auto simp: ensure_fresh_session_def split: if_splits sum.splits option.splits prod.splits dest: swap)
  from assms(2,3) show "live_session x (fst h')" if "outcome = Inr (token, h')"
    using that snapshot_live [OF assms(1)] refreshed_live
    by (auto simp: ensure_fresh_session_def result_simps split: if_splits sum.splits option.splits prod.splits)
qed

lemma take_live:
  assumes "store_live x st" "take_session x now relay st = (st', outcome)"
  shows "store_live x st'" "outcome = Inr (token, h) \<Longrightarrow> live_session x (fst h)"
proof -
  have fresh: "store_live x st' \<and> (\<forall>token h. outcome = Inr (token, h) \<longrightarrow> live_session x (fst h))"
    if "session_snapshot st = Inr (Some g)" "is_active_session (fst g)" "ensure_fresh_session x now relay g st = (st', outcome)" for g
  proof -
    have "live_session x (fst g)" using snapshot_live [OF assms(1), of "fst g" "snd g"] that(1,2) by simp
    from ensure_fresh_live [OF assms(1) this that(3)] show ?thesis by blast
  qed
  from assms(2) have "(st' = st \<and> (\<exists>e. outcome = Inl e)) \<or>
      (\<exists>g. session_snapshot st = Inr (Some g) \<and> is_active_session (fst g) \<and> ensure_fresh_session x now relay g st = (st', outcome))"
    by (auto simp: take_session_def split_paired_Ex split: sum.splits option.splits if_splits)
  with fresh assms(1) show "store_live x st'" "outcome = Inr (token, h) \<Longrightarrow> live_session x (fst h)" by auto
qed

lemma with_control_live:
  assumes "live_session x v" "validate_control_response x control"
  shows "live_session x (with_control control v)"
proof -
  have "live_session x (case json_get ''device_generation'' control of None \<Rightarrow> v | Some m \<Rightarrow> json_insert ''device_generation'' m v)"
    using assms by (auto simp: validate_control_response_def has_member_def intro: live_session_generation split: option.splits)
  then show ?thesis by (auto simp: with_control_def intro!: live_session_insert split: option.splits)
qed

lemma update_profile_live:
  "live_session x (fst h) \<Longrightarrow> update_profile device_name platform answer h = Inr v \<Longrightarrow> live_session x v"
  by (auto simp: update_profile_def with_profile_def intro: live_session_insert split: if_splits relay_answer.splits)

lemma write_back_live:
  assumes "store_live x st" "live_session x (with_control control (fst h))"
  shows "store_live x (fst (write_control_back control h st))"
  using assms(1) store_live_write_if [OF assms, of "snd h"]
  by (auto simp: write_control_back_def split: prod.split sum.split option.split)

lemma return_live:
  assumes "store_live x st" "live_session x (fst h)"
  shows "store_live x (fst (return_session x device_name platform control profile h st))"
proof -
  have "store_live x (fst (write_control_back c (v, snd h) st))"
    if "validate_control_response x c" "update_profile device_name platform profile h = Inr v" for c v
    using write_back_live [OF assms(1), of c "(v, snd h)"] with_control_live [OF update_profile_live [OF assms(2) that(2)] that(1)]
    by simp
  with assms(1) show ?thesis by (auto simp: return_session_def split: relay_answer.split sum.split)
qed

lemma store_live_drop: "store_live x st \<Longrightarrow> store_live x (fst (drop_unusable_session st))"
  using store_live_clear [of x st]
  by (auto simp: drop_unusable_session_def split: option.split prod.split sum.split) (metis fst_conv)+

lemma store_live_login: "store_live x st \<Longrightarrow> store_live x (fst (login_may_start st))"
  by (auto simp: login_may_start_def intro: store_live_clear split: option.split sum.split)

lemma session_step_live:
  assumes "session_step x s t" "store_live x (store s)" "held_live x s"
  shows "store_live x (store t) \<and> held_live x t"
  using assms(1)
proof cases
  case (Exchange cancelled response st outcome c c')
  note live = store_live_finalize [OF assms(2) Exchange(2)]
  have "store_live x (finish_login c c' outcome st)" by (rule store_live_finish_login [OF live(1) live(2)]) assumption
  with Exchange assms(3) show ?thesis by (simp add: held_live_def)
next
  case (Take now relay st outcome)
  with take_live [OF assms(2) Take(2)] assms(3) show ?thesis by (auto simp: held_live_def split: sum.splits)
next
  case (Return h device_name platform control profile)
  then have "live_session x (fst h)" using assms(3) by (auto simp: held_live_def list_all_iff)
  from return_live [OF assms(2) this] Return assms(3) show ?thesis by (simp add: held_live_def)
qed (use assms(2,3) in \<open>auto simp: held_live_def finish_logout_def clear_session_if_rejected_def clear_pending_session_def
  intro: store_live_drop store_live_login store_live_logout store_live_clear store_live_touch split: option.split session_error.split\<close>)

text \<open>C39: Whatever Relay answers and however sign-ins, sign-outs and the lanes that hold a session interleave,
  an active session in the store is one the service can act on: its tokens pass the checks of a sign-in, its
  Account and device are named, its epoch counts from one, and the next start keeps it.\<close>

theorem active_session_is_usable:
  assumes "(session_step x)\<^sup>*\<^sup>* lanes_of_new_device s" "session (store s) = Some row" "is_active_session (payload row)"
  shows "live_session x (payload row) \<and> session_is_usable (payload row) \<and> 1 \<le> epoch row \<and>
    drop_unusable_session (store s) = (store s, Inr ())"
proof -
  from assms(1) have "store_live x (store s) \<and> held_live x s"
  proof induction
    case base
    show ?case by (simp add: lanes_of_new_device_def store_of_new_device_def store_live_def held_live_def)
  next
    case (step s t)
    then show ?case using session_step_live by blast
  qed
  with assms(2,3) have "live_session x (payload row)" "1 \<le> epoch row" by (simp_all add: store_live_def)
  with live_session_usable assms(2) show ?thesis by (simp add: drop_unusable_session_def)
qed

definition sample_token_response :: json where
  "sample_token_response = JObj [(''protocol_version'', JInt 2), (''token_type'', JStr ''Bearer''), (''account_id'', JStr ''a''),
     (''device_id'', JStr ''d''), (''device_generation'', JInt 1), (''usage_deleted_before'', JNull),
     (''usage_sync_revision'', JInt 0), (''session'', JObj [(''access_token'', JStr (replicate 16 CHR ''t'')),
       (''access_expires_at'', JStr ''2026-09-21T00:00:00Z''), (''refresh_token'', JStr (replicate 16 CHR ''r'')),
       (''refresh_expires_at'', JStr ''2026-09-21T00:00:00Z'')])]"

theorem active_session_is_usable_witness:
  "\<exists>s row. (session_step sample_externs)\<^sup>*\<^sup>* lanes_of_new_device s \<and> session (store s) = Some row \<and>
     is_active_session (payload row) \<and> session_is_usable (payload row)"
proof -
  have "case session_from_token_response sample_externs sample_token_response of Inl _ \<Rightarrow> False | Inr v \<Rightarrow> is_active_session v"
    by code_simp
  then obtain v where v: "session_from_token_response sample_externs sample_token_response = Inr v" "is_active_session v"
    by (auto split: sum.splits)
  let ?s = "lanes_of_new_device\<lparr>store := finish_login False False (Inr v) store_of_new_device\<rparr>"
  have "finalize_login_unless_cancelled sample_externs False sample_token_response (store lanes_of_new_device) =
      (store_of_new_device, Inr v)"
    by (simp add: finalize_login_unless_cancelled_def v lanes_of_new_device_def)
  from session_step.Exchange [OF this] have step: "(session_step sample_externs)\<^sup>*\<^sup>* lanes_of_new_device ?s" by (rule r_into_rtranclp)
  have row: "session (store ?s) = Some \<lparr>payload = v, epoch = 1\<rparr>"
    by (simp add: finish_login_def write_session_json_def bump_revision_def store_of_new_device_def checked_add_def)
  from active_session_is_usable [OF step row] step row v(2) show ?thesis by (intro exI [of _ ?s] exI [of _ "\<lparr>payload = v, epoch = 1\<rparr>"]) simp
qed

end
