(* ===== verification/Relay_Costs.thy ===== *)
theory Relay_Costs
  imports Relay_Validation Pricing_Tree
begin

text \<open>
  The costs the service computes (\<open>packages/service/src/pricing.rs\<close>) beside the check a cost passes when it
  is read from Relay (\<open>validate_usage_cost\<close> of \<open>packages/service/src/relay/mod.rs\<close>): the JSON an outcome is
  written as, and that every outcome of the fold passes.
\<close>

declare split_paired_All [simp del] split_paired_Ex [simp del]

subsection \<open>The JSON of an outcome\<close>

fun mode_str :: "cost_mode \<Rightarrow> string" where
  "mode_str Calculate = ''calculate''" | "mode_str Auto = ''auto''" | "mode_str cost_mode.Reported = ''reported''"

fun basis_str :: "cost_basis \<Rightarrow> string" where
  "basis_str Calculated = ''calculated''" | "basis_str cost_basis.Reported = ''reported''"
| "basis_str Mixed = ''mixed''" | "basis_str NoBasis = ''none''"

fun status_str :: "cost_status \<Rightarrow> string" where
  "status_str Complete = ''complete''" | "status_str Partial = ''partial''" | "status_str Unavailable = ''unavailable''"

definition optional_text :: "string option \<Rightarrow> json" where
  "optional_text s = (case s of None \<Rightarrow> JNull | Some t \<Rightarrow> JStr t)"

definition unpriced_item_json :: "unpriced_item \<Rightarrow> json" where
  "unpriced_item_json i = JObj [(''billing_channel'', JStr (channel_str (item_billing_channel i))),
     (''model'', JStr (item_model i)), (''reason'', JStr (reason_key (item_reason i))), (''rows'', JInt (int (item_rows i)))]"

definition cost_outcome_json :: "cost_outcome \<Rightarrow> json" where
  "cost_outcome_json c = JObj ([(''mode'', JStr (mode_str (outcome_mode c))), (''basis'', JStr (basis_str (outcome_basis c))),
     (''status'', JStr (status_str (outcome_status c))), (''amount_microusd'', optional_text (outcome_amount_microusd c)),
     (''catalog_revision'', optional_text (outcome_catalog_revision c)),
     (''calculated_rows'', JInt (int (calculated_rows c))), (''reported_rows'', JInt (int (reported_rows c))),
     (''unpriced_rows'', JInt (int (unpriced_rows c))),
     (''assumptions'', JArr (map (\<lambda>a. JStr (assumption_key a)) (outcome_assumptions c))),
     (''unpriced'', JArr (map unpriced_item_json (outcome_unpriced c)))] @
     (if unpriced_truncated c then [(''unpriced_truncated'', JBool True)] else []))"

subsection \<open>How many rows the listed items name\<close>

fun is_unpriced :: "prepared_row \<Rightarrow> nat" where
  "is_unpriced (PreparedPriced c m a b as) = 0"
| "is_unpriced (PreparedUnpriced c m r) = 1"

lemma rows_total_parts:
  "list_all row_basis_ok rs \<Longrightarrow>
   rows_total row_calculated rs + rows_total row_reported rs + rows_total is_unpriced rs = length rs"
proof (induction rs)
  case (Cons r rs)
  then have "row_calculated r + row_reported r + is_unpriced r = 1" by (cases r) auto
  with Cons show ?case by simp
qed simp

lemma unpriced_by_key:
  assumes "finite K" "\<And>k. 0 < rows_total (row_unpriced k) rs \<Longrightarrow> k \<in> K"
  shows "(\<Sum>k\<in>K. rows_total (row_unpriced k) rs) = rows_total is_unpriced rs"
  using assms(2)
proof (induction rs)
  case (Cons r rs)
  have "(\<Sum>k\<in>K. row_unpriced k r) = is_unpriced r"
  proof (cases r)
    case (PreparedUnpriced c m why)
    with Cons.prems [of "(c, m, why)"] have "(c, m, why) \<in> K" by simp
    with PreparedUnpriced assms(1) show ?thesis by (simp add: sum.delta)
  qed simp
  moreover have "(\<Sum>k\<in>K. rows_total (row_unpriced k) rs) = rows_total is_unpriced rs"
    by (rule Cons.IH) (use Cons.prems in simp)
  ultimately show ?case by (simp add: sum.distrib)
qed simp

lemma listed_total:
  assumes "counts_rows m rs"
  shows "sum_list (map item_rows (sorted_items m)) = rows_total is_unpriced rs"
proof -
  from assms have m: "counted m" "\<And>k. count_at m k = rows_total (row_unpriced k) rs" "bt_ordered m"
    by (auto simp: counts_rows_def counted_def)
  have "sum_list (map item_rows (sorted_items m)) = (\<Sum>e \<leftarrow> m. snd e)"
    unfolding sorted_items_def sum_sort_key by (simp add: comp_def)
  also have "\<dots> = (\<Sum>e \<in> set m. snd e)"
    using bt_ordered_distinct [OF m(3)] by (simp add: sum_list_distinct_conv_sum_set distinct_map)
  also have "\<dots> = (\<Sum>e \<in> set m. count_at m (fst e))"
  proof (rule sum.cong [OF refl])
    fix e assume "e \<in> set m"
    then have "bt_get m (fst e) = Some (snd e)" using m(3) by (simp add: bt_get_iff)
    then show "snd e = count_at m (fst e)" by (simp add: count_at_def)
  qed
  also have "\<dots> = (\<Sum>k \<in> fst ` set m. count_at m k)"
    using bt_ordered_distinct [OF m(3)] by (simp add: sum.reindex distinct_map)
  also have "\<dots> = rows_total is_unpriced rs"
    unfolding m(2) counted_keys [OF m(1)] by (rule unpriced_by_key) (use counted_keys [OF m(1), symmetric] m(2) in auto)
  finally show ?thesis .
qed

lemma listed_rows_items:
  "n + sum_list (map item_rows is) < 2 ^ 64 \<Longrightarrow>
   fold (\<lambda>item total. Option.bind total (\<lambda>n. Option.bind (Option.bind (json_get ''rows'' item) as_u64) (checked_add n)))
     (map unpriced_item_json is) (Some n) = Some (n + sum_list (map item_rows is))"
  by (induction "is" arbitrary: n) (auto simp: unpriced_item_json_def checked_add_def)

subsection \<open>Every outcome passes\<close>

lemma channel_enum: "valid_read_enum (channel_str c)"
  by (induction c; code_simp)

lemma reason_enum: "valid_read_enum (reason_key r)"
  by (induction r; code_simp)

lemma assumption_enum: "valid_read_enum (assumption_key a)"
  by (induction a; code_simp)

lemma mode_enum: "mode_str m \<in> {''calculate'', ''auto'', ''reported''}"
  by (cases m) simp_all

lemma basis_enum: "expected_basis c r \<in> {''calculated'', ''reported'', ''mixed'', ''none''}"
  by (simp add: expected_basis_def)

lemma status_enum: "expected_status p u \<in> {''complete'', ''partial'', ''unavailable''}"
  by (simp add: expected_status_def)

lemma assumption_key_inject: "assumption_key a = assumption_key b \<longleftrightarrow> a = b"
  by (cases a; cases b; simp)

lemma assumptions_few: "length (sorted_assumptions as) \<le> 9" "distinct (sorted_assumptions as)"
proof -
  have "as \<subseteq> {AgentDefaultChannel, ModelAlias, WildcardServiceTier, WildcardSpeed, WildcardInferenceGeo,
    WildcardContextBucket, CacheWriteInferredRate, SourceReported, VendorOfficialPrice}" (is "_ \<subseteq> ?all")
    using cost_assumption.exhaust by blast
  from card_mono [OF _ this] have "card as \<le> card ?all" by simp
  also have "card ?all \<le> 9" by (simp add: card_insert_if)
  finally show "length (sorted_assumptions as) \<le> 9" by (simp add: sorted_assumptions_def)
  show "distinct (sorted_assumptions as)" by (simp add: sorted_assumptions_def)
qed

lemma expected_names:
  "basis_str (basis_of c r) = expected_basis c r" "status_str (status_of p u) = expected_status p u"
  by (simp_all add: basis_of_def expected_basis_def status_of_def expected_status_def)

lemma decimal_amount_valid: "n < 10 ^ 32 \<Longrightarrow> valid_decimal_integer (decimal_string n)"
proof (cases "n = 0")
  case True
  then show ?thesis by (simp add: valid_decimal_integer_def decimal_string_0)
next
  case False
  assume n: "n < 10 ^ 32"
  have "list_all is_digit (decimal_string n)" by (simp add: list_all_iff decimal_string_digits)
  moreover from this have "is_digit (hd (decimal_string n))" by (simp add: list_all_iff)
  moreover have "hd (decimal_string n) \<noteq> CHR ''0''" using hd_decimal_string [of n] False byte_0 by auto
  moreover have "length (decimal_string n) \<le> 32" using n by (intro length_decimal_string) simp_all
  ultimately show ?thesis by (simp add: valid_decimal_integer_def)
qed

lemma item_passes: "valid_model_text (item_model i) \<Longrightarrow> 0 < item_rows i \<Longrightarrow> item_rows i \<le> maximum_safe_integer \<Longrightarrow>
   unpriced_item_ok (unpriced_item_json i)"
  using channel_enum reason_enum
  by (simp add: unpriced_item_ok_def unpriced_item_json_def require_response_fields_def is_object_def text_member_def
      has_member_def str_member_def safe_positive_u64_def safe_u64_def maximum_safe_integer_def)

lemma item_rows_le: "i \<in> set is \<Longrightarrow> item_rows i \<le> sum_list (map item_rows is)"
  by (induction "is") auto

definition models_valid :: "prepared_row list \<Rightarrow> bool" where
  "models_valid rs \<longleftrightarrow> list_all (\<lambda>r. case r of PreparedUnpriced c m why \<Rightarrow> valid_model_text m | _ \<Rightarrow> True) rs"

lemma row_unpriced_pos: "0 < row_unpriced k r \<Longrightarrow> r = PreparedUnpriced (fst k) (fst (snd k)) (snd (snd k))"
  by (cases r) (auto split: if_splits)

lemma listed_models:
  assumes "counts_rows m rs" "models_valid rs" "i \<in> set (sorted_items m)"
  shows "valid_model_text (item_model i)"
proof -
  from assms(3) obtain e where e: "e \<in> set m" "i = item_of e" by (auto simp: sorted_items_def)
  then have "fst e \<in> {k. 0 < count_at m k}" using assms(1) counted_keys [of m] by (auto simp: counts_rows_def)
  then have "0 < rows_total (row_unpriced (fst e)) rs" using assms(1) by (simp add: counts_rows_def)
  then obtain r where "r \<in> set rs" "0 < row_unpriced (fst e) r" by (induction rs) (auto split: if_splits)
  moreover have "item_model i = fst (snd (fst e))" unfolding e(2) by (simp add: item_of_def split_def)
  ultimately show ?thesis using assms(2) by (auto simp: models_valid_def list_all_iff dest!: row_unpriced_pos)
qed

lemma outcome_passes:
  assumes basis: "list_all row_basis_ok rs" and amount: "rows_total row_amount rs < 10 ^ 32"
    and m: "counts_rows m rs" and models: "models_valid rs" and size: "length rs \<le> maximum_safe_integer"
    and revision: "prepared_revision p = None \<or> (\<exists>r. prepared_revision p = Some r \<and> is_opaque r)"
  shows "validate_usage_cost (cost_outcome_json (rows_outcome p rs m))"
proof -
  let ?o = "rows_outcome p rs m"
  let ?items = "take max_unpriced_items (sorted_items m)"
  let ?priced = "rows_total row_calculated rs + rows_total row_reported rs"
  let ?unpriced = "rows_total is_unpriced rs"
  have parts: "?priced + ?unpriced = length rs" using rows_total_parts [OF basis] by simp
  have listed: "sum_list (map item_rows ?items) + sum_list (map item_rows (drop max_unpriced_items (sorted_items m))) = ?unpriced"
    unfolding listed_total [OF m, symmetric] sum_list_append [symmetric] map_append [symmetric] append_take_drop_id ..
  have bound: "?unpriced \<le> maximum_safe_integer" using parts size by simp
  have items: "unpriced_item_ok (unpriced_item_json i)" if "i \<in> set ?items" for i
  proof (rule item_passes)
    show "valid_model_text (item_model i)" by (rule listed_models [OF m models in_set_takeD [OF that]])
    show "0 < item_rows i" using m in_set_takeD [OF that] by (auto simp: counts_rows_def intro: sorted_items_positive)
    show "item_rows i \<le> maximum_safe_integer" using item_rows_le [OF that] listed bound by simp
  qed
  from parts have rest: "length rs - ?priced = ?unpriced" by simp
  have members: "json_get k (cost_outcome_json ?o) \<noteq> None" if "k \<in> set cost_keys" for k
    using that by (auto simp: cost_keys_def cost_outcome_json_def)
  have get: "json_get ''mode'' (cost_outcome_json ?o) = Some (JStr (mode_str (prepared_mode p)))"
    "json_get ''basis'' (cost_outcome_json ?o) =
      Some (JStr (expected_basis (rows_total row_calculated rs) (rows_total row_reported rs)))"
    "json_get ''status'' (cost_outcome_json ?o) = Some (JStr (expected_status ?priced ?unpriced))"
    "json_get ''amount_microusd'' (cost_outcome_json ?o) =
      Some (if 0 < ?priced then JStr (decimal_string (rows_total row_amount rs)) else JNull)"
    "json_get ''catalog_revision'' (cost_outcome_json ?o) = Some (optional_text (prepared_revision p))"
    "json_get ''calculated_rows'' (cost_outcome_json ?o) = Some (JInt (int (rows_total row_calculated rs)))"
    "json_get ''reported_rows'' (cost_outcome_json ?o) = Some (JInt (int (rows_total row_reported rs)))"
    "json_get ''unpriced_rows'' (cost_outcome_json ?o) = Some (JInt (int ?unpriced))"
    "json_get ''assumptions'' (cost_outcome_json ?o) =
      Some (JArr (map (\<lambda>a. JStr (assumption_key a)) (sorted_assumptions (\<Union> (row_assumptions ` set rs)))))"
    "json_get ''unpriced'' (cost_outcome_json ?o) = Some (JArr (map unpriced_item_json ?items))"
    "json_get ''unpriced_truncated'' (cost_outcome_json ?o) = (if max_unpriced_items < length m then Some (JBool True) else None)"
    using rest by (auto simp: cost_outcome_json_def rows_outcome_def Let_def expected_names optional_text_def)
  have u64: "count_member k v = Some n" if "json_get k v = Some (JInt (int n))" "n \<le> maximum_safe_integer" for k v n
    using that by (simp add: count_member_def safe_u64_def maximum_safe_integer_def)
  have counts: "count_member ''calculated_rows'' (cost_outcome_json ?o) = Some (rows_total row_calculated rs)"
    "count_member ''reported_rows'' (cost_outcome_json ?o) = Some (rows_total row_reported rs)"
    "count_member ''unpriced_rows'' (cost_outcome_json ?o) = Some ?unpriced"
    by (rule u64; use get parts size in simp)+
  have rows: "listed_rows (members_of ''unpriced'' (cost_outcome_json ?o)) = Some (sum_list (map item_rows ?items))"
    using listed_rows_items [of 0 ?items] listed bound
    by (simp add: listed_rows_def members_of_def get maximum_safe_integer_def)
  have all_listed: "sum_list (map item_rows ?items) = ?unpriced" if "\<not> max_unpriced_items < length m"
    using listed that by (simp add: sorted_items_def)
  have amount_valid: "0 < ?priced \<Longrightarrow> valid_decimal_integer (decimal_string (rows_total row_amount rs))"
    using amount by (intro decimal_amount_valid)
  have assumptions: "has_member (text_array 16) ''assumptions'' (cost_outcome_json ?o)"
    using assumptions_few [of "\<Union> (row_assumptions ` set rs)"] assumption_enum
    by (simp add: has_member_def get text_array_def bounded_array_def is_text_def list_all_iff distinct_map comp_def
        inj_on_def assumption_key_inject)
  have unpriced: "has_member (bounded_array 100 unpriced_item_ok) ''unpriced'' (cost_outcome_json ?o)"
    using items by (simp add: has_member_def get bounded_array_def list_all_iff max_unpriced_items_def)
  have fields: "require_response_fields cost_keys (cost_outcome_json ?o)"
    using members by (simp add: require_response_fields_def list_all_iff cost_outcome_json_def is_object_def)
  have texts: "text_member (\<lambda>s. s \<in> {''calculate'', ''auto'', ''reported''}) ''mode'' (cost_outcome_json ?o)"
    "text_member (\<lambda>s. s \<in> {''calculated'', ''reported'', ''mixed'', ''none''}) ''basis'' (cost_outcome_json ?o)"
    "text_member (\<lambda>s. s \<in> {''complete'', ''partial'', ''unavailable''}) ''status'' (cost_outcome_json ?o)"
    unfolding text_member_def str_member_def get by (simp_all only: bind.bind_lunit as_str.simps option.case mode_enum basis_enum status_enum)
  have options: "optional_member (null_or_text valid_decimal_integer) ''amount_microusd'' (cost_outcome_json ?o)"
    "optional_member (null_or_text is_opaque) ''catalog_revision'' (cost_outcome_json ?o)"
    "optional_member (\<lambda>w. w = JBool True) ''unpriced_truncated'' (cost_outcome_json ?o)"
    using amount_valid revision
    by (auto simp: optional_member_def get null_or_text_def is_text_def optional_text_def)
  show ?thesis
    unfolding validate_usage_cost_def counts rows
    using fields texts options assumptions unpriced parts size listed all_listed
    by (auto simp: str_member_def get has_member_def)
qed

text \<open>C38: Every cost the fold computes is well typed: written as JSON, it passes the check a cost read from
  Relay has to pass, basis, status, amount and unpriced rows included.\<close>

theorem cost_outcome_is_well_typed:
  assumes "fold_prepared_usage_costs p (Some is) = Inr out" "\<forall>i \<in> set is. i < length (prepared_rows p)"
    and "length is \<le> maximum_safe_integer" "models_valid (selected_rows p is)"
    and "prepared_revision p = None \<or> (\<exists>r. prepared_revision p = Some r \<and> is_opaque r)"
  shows "validate_usage_cost (cost_outcome_json out)"
proof -
  obtain m where m: "list_all row_basis_ok (selected_rows p is)" "rows_total row_amount (selected_rows p is) < 10 ^ 32"
    "counts_rows m (selected_rows p is)" "out = rows_outcome p (selected_rows p is) m"
    using fold_prepared_sound [OF assms(1,2)] by blast
  show ?thesis
    unfolding m(4) by (rule outcome_passes [OF m(1-3) assms(4) _ assms(5)]) (use assms(3) in \<open>simp add: selected_rows_def\<close>)
qed

theorem cost_outcome_is_well_typed_witness:
  "\<exists>out. fold_prepared_usage_costs sample_prepared (Some [0, 1, 2]) = Inr out \<and> outcome_status out = Partial \<and>
     validate_usage_cost (cost_outcome_json out)"
proof -
  obtain out where out: "fold_prepared_usage_costs sample_prepared (Some [0, 1, 2]) = Inr out" "outcome_status out = Partial"
    by (rule that) code_simp+
  have "models_valid (selected_rows sample_prepared [0, 1, 2])" "is_opaque ''r1''" by code_simp+
  with cost_outcome_is_well_typed [OF out(1)] out show ?thesis
    by (auto simp: sample_prepared_def maximum_safe_integer_def)
qed

end
