(* ===== verification/Overview.thy ===== *)
theory Overview
  imports Quota_History Providers
begin

text \<open>
  The Overview (\<open>packages/service/src/service/backend.rs\<close>): what this Mac collected, what the devices of
  the Account read and what was shown before, merged into one row per subscription, with a choice of the
  source it shows. The digest behind a subscription's selector (SHA-256) is a parameter.
\<close>

declare split_paired_All [simp del] split_paired_Ex [simp del]

subsection \<open>The data\<close>

record overview_identity =
  ident_provider :: string
  ident_fingerprint :: string
  ident_scope :: string
  ident_source_id :: "string option"

text \<open>The derived order compares the fields in turn.\<close>

definition identity_order :: "overview_identity \<Rightarrow> string \<times> string \<times> string \<times> string option" where
  "identity_order i = (ident_provider i, ident_fingerprint i, ident_scope i, ident_source_id i)"

record overview_source =
  source_id :: string
  source_kind :: string
  source_device_id :: "string option"
  source_display_name :: string
  source_observed_at :: string
  source_is_stale :: bool
  source_snapshot :: "json option"

record overview_row =
  row_identity :: overview_identity
  row_snapshot :: json
  row_sources :: "overview_source list"
  selected_source_id :: string
  selected_source_display_name :: string
  automatic_source_id :: string
  automatic_source_display_name :: string
  row_is_stale :: bool
  source_pin :: "string option"

definition overview_identity_key :: "overview_identity \<Rightarrow> string" where
  "overview_identity_key i = ident_provider i @ ''|'' @ ident_fingerprint i @ ''|'' @ ident_scope i @ ''|'' @
     (case ident_source_id i of None \<Rightarrow> [] | Some s \<Rightarrow> s)"

text \<open>The first twelve hexadecimal digits of the digest of that text.\<close>

definition hex_digit :: "nat \<Rightarrow> char" where
  "hex_digit n = ''0123456789abcdef'' ! (n mod 16)"

definition selector :: "(string \<Rightarrow> nat list) \<Rightarrow> overview_identity \<Rightarrow> string" where
  "selector digest i = concat (map (\<lambda>b. [hex_digit (b div 16), hex_digit b]) (take 6 (digest (overview_identity_key i))))"

record local_quota_history =
  history_samples :: "string \<Rightarrow> (string \<Rightarrow> quota_sample list option) option"
  utc_offset_seconds :: int

definition restate :: "externs \<Rightarrow> local_quota_history \<Rightarrow> json \<Rightarrow> string \<Rightarrow> int \<Rightarrow> json" where
  "restate x history snapshot key now =
     (case history_samples history key of
        None \<Rightarrow> snapshot
      | Some samples \<Rightarrow> snapshot_with_history x snapshot samples now (utc_offset_seconds history))"

subsection \<open>One reading as a row\<close>

definition local_source_display_name :: string where "local_source_display_name = ''This Mac''"

definition overview_item ::
  "externs \<Rightarrow> (string \<Rightarrow> nat list) \<Rightarrow> json \<Rightarrow> string \<Rightarrow> string \<Rightarrow> string option \<Rightarrow> local_quota_history option \<Rightarrow> int \<Rightarrow>
   overview_row option" where
  "overview_item x digest snapshot sid display_name device_id history now =
     Option.bind (str_member ''provider'' snapshot) (\<lambda>provider.
     Option.bind (object_member ''account'' snapshot) (\<lambda>account.
     Option.bind (str_member ''fingerprint'' account) (\<lambda>fingerprint.
     Option.bind (str_member ''fingerprint_scope'' account) (\<lambda>scope.
     Option.bind (str_member ''observed_at'' snapshot) (\<lambda>observed_at.
       let stale = \<not> snapshot_is_current x snapshot now;
           identity = \<lparr>ident_provider = provider, ident_fingerprint = fingerprint, ident_scope = scope,
             ident_source_id = (if scope = ''source'' then Some sid else None)\<rparr>;
           paced = (case history of
               Some h \<Rightarrow> restate x h (snapshot_with_pace x snapshot now) (selector digest identity) now
             | None \<Rightarrow> snapshot_with_pace x snapshot now)
       in Some \<lparr>row_identity = identity, row_snapshot = paced,
            row_sources = [\<lparr>source_id = sid, source_kind = (if device_id \<noteq> None then ''device'' else ''local''),
              source_device_id = device_id, source_display_name = display_name, source_observed_at = observed_at,
              source_is_stale = stale, source_snapshot = Some paced\<rparr>],
            selected_source_id = sid, selected_source_display_name = display_name,
            automatic_source_id = sid, automatic_source_display_name = display_name,
            row_is_stale = stale, source_pin = None\<rparr>)))))"

subsection \<open>Merging\<close>

text \<open>\<open>DateTime::<Utc>::MIN_UTC\<close>, the first of January of the year -262143.\<close>

definition min_utc :: int where "min_utc = -8334601228800 * 1000000000"

definition snapshot_observed_at :: "externs \<Rightarrow> json \<Rightarrow> int" where
  "snapshot_observed_at x snapshot =
     (case instant x (json_get ''observed_at'' snapshot) of None \<Rightarrow> min_utc | Some t \<Rightarrow> t)"

definition selected_is_local :: "overview_row \<Rightarrow> bool" where
  "selected_is_local row \<longleftrightarrow>
     (case find (\<lambda>s. source_id s = selected_source_id row) (row_sources row) of
        None \<Rightarrow> False | Some s \<Rightarrow> source_kind s = ''local'')"

definition overview_choice_is_better :: "externs \<Rightarrow> overview_row \<Rightarrow> overview_row \<Rightarrow> bool" where
  "overview_choice_is_better x incoming existing \<longleftrightarrow>
     (if row_is_stale incoming \<noteq> row_is_stale existing then \<not> row_is_stale incoming
      else let incoming_observed = snapshot_observed_at x (row_snapshot incoming);
               existing_observed = snapshot_observed_at x (row_snapshot existing) in
        if incoming_observed \<noteq> existing_observed then existing_observed < incoming_observed
        else if selected_is_local incoming \<noteq> selected_is_local existing then selected_is_local incoming
        else selected_source_id incoming < selected_source_id existing)"

definition put_source :: "overview_source \<Rightarrow> overview_source list \<Rightarrow> overview_source list" where
  "put_source s ss = filter (\<lambda>v. source_id v \<noteq> source_id s) ss @ [s]"

definition merge_into :: "externs \<Rightarrow> overview_row \<Rightarrow> overview_row \<Rightarrow> overview_row" where
  "merge_into x incoming existing =
     (let merged = existing\<lparr>row_sources := sort_key source_id (fold put_source (row_sources incoming) (row_sources existing))\<rparr> in
      if overview_choice_is_better x incoming existing
      then merged\<lparr>row_snapshot := row_snapshot incoming, selected_source_id := selected_source_id incoming,
        selected_source_display_name := selected_source_display_name incoming,
        automatic_source_id := automatic_source_id incoming,
        automatic_source_display_name := automatic_source_display_name incoming,
        row_is_stale := row_is_stale incoming\<rparr>
      else merged)"

fun merge_overview_item :: "externs \<Rightarrow> overview_row \<Rightarrow> overview_row list \<Rightarrow> overview_row list" where
  "merge_overview_item x incoming [] = [incoming]"
| "merge_overview_item x incoming (row # rows) =
     (if row_identity row = row_identity incoming then merge_into x incoming row # rows
      else row # merge_overview_item x incoming rows)"

subsection \<open>What this Mac collected\<close>

definition keep_previous_local_overview :: "json \<Rightarrow> bool" where
  "keep_previous_local_overview result \<longleftrightarrow>
     (let outcome = (case str_member ''outcome'' result of None \<Rightarrow> [] | Some s \<Rightarrow> s) in
      outcome \<in> {''auth_required'', ''unavailable'', ''unsupported'', ''error''} \<and>
      (members_of ''sources'' result \<noteq> [] \<or> outcome \<noteq> ''auth_required''))"

definition retain_previous_local_overview ::
  "externs \<Rightarrow> (string \<Rightarrow> nat list) \<Rightarrow> overview_row list \<Rightarrow> string \<Rightarrow> int \<Rightarrow> overview_row list \<Rightarrow> overview_row list" where
  "retain_previous_local_overview x digest previous provider now rows =
     fold (\<lambda>item rows.
       if ident_provider (row_identity item) \<noteq> provider then rows
       else case find (\<lambda>s. source_kind s = ''local'') (row_sources item) of
         None \<Rightarrow> rows
       | Some loc \<Rightarrow>
           if selected_source_id item \<noteq> source_id loc then rows
           else case overview_item x digest (row_snapshot item) ''local'' local_source_display_name None None now of
             None \<Rightarrow> rows
           | Some kept \<Rightarrow> merge_overview_item x kept rows) previous rows"

definition local_overview ::
  "externs \<Rightarrow> (string \<Rightarrow> nat list) \<Rightarrow> json \<Rightarrow> overview_row list \<Rightarrow> local_quota_history \<Rightarrow> int \<Rightarrow> overview_row list" where
  "local_overview x digest quota previous history now =
     fold (\<lambda>result rows.
       if keep_previous_local_overview result
       then (case str_member ''provider'' result of
               Some provider \<Rightarrow> retain_previous_local_overview x digest previous provider now rows
             | None \<Rightarrow> rows)
       else fold (\<lambda>snapshot rows.
              case overview_item x digest snapshot ''local'' local_source_display_name None (Some history) now of
                Some item \<Rightarrow> merge_overview_item x item rows | None \<Rightarrow> rows)
            (members_of ''snapshots'' result) rows)
       (members_of ''results'' quota) []"

subsection \<open>What the Account's devices read\<close>

definition local_already_covers_this_device ::
  "overview_row list \<Rightarrow> overview_row \<Rightarrow> string option \<Rightarrow> string \<Rightarrow> bool" where
  "local_already_covers_this_device rows incoming this_device_id device \<longleftrightarrow>
     this_device_id = Some device \<and>
     list_ex (\<lambda>row. ident_provider (row_identity row) = ident_provider (row_identity incoming) \<and>
       ident_fingerprint (row_identity row) = ident_fingerprint (row_identity incoming) \<and>
       list_ex (\<lambda>s. source_kind s = ''local'') (row_sources row)) rows"

definition device_names :: "json \<Rightarrow> string \<Rightarrow> string option" where
  "device_names summary = map_of (rev (List.map_filter (\<lambda>device.
     case (str_member ''id'' device, str_member ''display_name'' device) of
       (Some key, Some name) \<Rightarrow> Some (key, name) | _ \<Rightarrow> None) (members_of ''devices'' summary)))"

definition display_name_of :: "(string \<Rightarrow> string option) \<Rightarrow> string \<Rightarrow> string" where
  "display_name_of names device_id = (case names device_id of Some name \<Rightarrow> name | None \<Rightarrow> ''Other device'')"

definition device_source_id :: "string \<Rightarrow> string" where
  "device_source_id device_id = ''device:'' @ device_id"

text \<open>The reading a source stands for, and whether it is one: Relay names it, or the source is the one the
  subscription's reading came from, or only the instant of it is known.\<close>

definition source_reading :: "json \<Rightarrow> json \<Rightarrow> (json \<times> bool) option" where
  "source_reading snapshot source =
     (let observed = str_member ''observed_at'' source in
      case json_get ''snapshot'' source of
        Some reading \<Rightarrow> Some (reading, True)
      | None \<Rightarrow>
          if observed = str_member ''observed_at'' snapshot then Some (snapshot, True)
          else case observed of
            None \<Rightarrow> None
          | Some at_text \<Rightarrow> Some (json_insert ''observed_at'' (JStr at_text) snapshot, False))"

definition without_readings :: "overview_row \<Rightarrow> overview_row" where
  "without_readings row = row\<lparr>row_sources := map (\<lambda>s. s\<lparr>source_snapshot := None\<rparr>) (row_sources row)\<rparr>"

definition add_device_row ::
  "externs \<Rightarrow> string option \<Rightarrow> string \<Rightarrow> overview_row \<Rightarrow> overview_row list \<Rightarrow> overview_row list" where
  "add_device_row x this_device_id device_id item rows =
     (if local_already_covers_this_device rows item this_device_id device_id then rows
      else merge_overview_item x item rows)"

text \<open>One source of a subscription; the flag is \<open>handled\<close>.\<close>

definition add_source ::
  "externs \<Rightarrow> (string \<Rightarrow> nat list) \<Rightarrow> string option \<Rightarrow> (string \<Rightarrow> string option) \<Rightarrow> int \<Rightarrow> json \<Rightarrow> json \<Rightarrow>
   bool \<times> overview_row list \<Rightarrow> bool \<times> overview_row list" where
  "add_source x digest this_device_id names now snapshot source state =
     (case str_member ''device_id'' source of
        None \<Rightarrow> state
      | Some device_id \<Rightarrow> (case source_reading snapshot source of
          None \<Rightarrow> state
        | Some (reading, has_reading) \<Rightarrow>
            (case overview_item x digest reading (device_source_id device_id) (display_name_of names device_id)
                    (Some device_id) None now of
               None \<Rightarrow> state
             | Some item \<Rightarrow>
                 (True, add_device_row x this_device_id device_id (if has_reading then item else without_readings item)
                    (snd state)))))"

text \<open>The least of the devices named with the reading's instant.\<close>

definition reading_device :: "json \<Rightarrow> json \<Rightarrow> string option" where
  "reading_device snapshot subscription =
     list_min (List.map_filter (\<lambda>source.
       case (str_member ''device_id'' source, str_member ''observed_at'' source) of
         (Some device_id, Some observed_at) \<Rightarrow>
           if Some observed_at = str_member ''observed_at'' snapshot then Some device_id else None
       | _ \<Rightarrow> None) (members_of ''sources'' subscription))"

definition add_subscription ::
  "externs \<Rightarrow> (string \<Rightarrow> nat list) \<Rightarrow> string option \<Rightarrow> (string \<Rightarrow> string option) \<Rightarrow> int \<Rightarrow> json \<Rightarrow>
   overview_row list \<Rightarrow> overview_row list" where
  "add_subscription x digest this_device_id names now subscription rows =
     (case json_get ''snapshot'' subscription of
        None \<Rightarrow> rows
      | Some snapshot \<Rightarrow>
          (case Option.bind (str_member ''provider'' snapshot) provider_parse of
             None \<Rightarrow> rows
           | Some provider \<Rightarrow>
               if \<not> syncs_to_account provider then rows
               else
                 (case fold (add_source x digest this_device_id names now snapshot) (members_of ''sources'' subscription)
                         (False, rows) of
                    (True, rows') \<Rightarrow> rows'
                  | (False, rows') \<Rightarrow>
                      (case reading_device snapshot subscription of
                         None \<Rightarrow> rows'
                       | Some device_id \<Rightarrow>
                           (case overview_item x digest snapshot (device_source_id device_id)
                                   (display_name_of names device_id) (Some device_id) None now of
                              None \<Rightarrow> rows'
                            | Some item \<Rightarrow> add_device_row x this_device_id device_id item rows')))))"

definition account_overview ::
  "externs \<Rightarrow> (string \<Rightarrow> nat list) \<Rightarrow> json option \<Rightarrow> int \<Rightarrow> overview_row list \<Rightarrow> overview_row list" where
  "account_overview x digest account now rows =
     (case account of
        None \<Rightarrow> rows
      | Some a \<Rightarrow> (case object_member ''account_summary'' a of
          None \<Rightarrow> rows
        | Some summary \<Rightarrow>
            fold (add_subscription x digest (str_member ''device_id'' a) (device_names summary) now)
              (members_of ''subscriptions'' summary) rows))"

subsection \<open>Pins and order\<close>

definition prune_overview_pins ::
  "overview_row list \<Rightarrow> (string \<Rightarrow> string option) \<Rightarrow> string \<Rightarrow> string option" where
  "prune_overview_pins rows pins key =
     (case pins key of
        None \<Rightarrow> None
      | Some pin \<Rightarrow>
          if list_ex (\<lambda>row. overview_identity_key (row_identity row) = key \<and>
               list_ex (\<lambda>s. source_id s = pin) (row_sources row)) rows
          then Some pin else None)"

definition apply_pin :: "(string \<Rightarrow> string option) \<Rightarrow> overview_row \<Rightarrow> overview_row" where
  "apply_pin pins row =
     (let unpinned = row\<lparr>source_pin := None\<rparr> in
      case pins (overview_identity_key (row_identity row)) of
        None \<Rightarrow> unpinned
      | Some pin \<Rightarrow> (case find (\<lambda>s. source_id s = pin) (row_sources row) of
          None \<Rightarrow> unpinned
        | Some source \<Rightarrow> (case source_snapshot source of
            None \<Rightarrow> unpinned
          | Some snapshot \<Rightarrow> row\<lparr>row_snapshot := snapshot, selected_source_id := source_id source,
              selected_source_display_name := source_display_name source, row_is_stale := source_is_stale source,
              source_pin := Some pin\<rparr>)))"

definition apply_overview_pins :: "(string \<Rightarrow> string option) \<Rightarrow> overview_row list \<Rightarrow> overview_row list" where
  "apply_overview_pins pins rows = map (apply_pin pins) rows"

definition sort_overview_items :: "overview_row list \<Rightarrow> overview_row list" where
  "sort_overview_items rows = sort_key (\<lambda>row. identity_order (row_identity row)) rows"

definition overview_items_and_pins ::
  "externs \<Rightarrow> (string \<Rightarrow> nat list) \<Rightarrow> json \<Rightarrow> json option \<Rightarrow> overview_row list \<Rightarrow> (string \<Rightarrow> string option) \<Rightarrow>
   local_quota_history \<Rightarrow> int \<Rightarrow> overview_row list \<times> (string \<Rightarrow> string option)" where
  "overview_items_and_pins x digest quota account previous pins history now =
     (let rows = account_overview x digest account now (local_overview x digest quota previous history now);
          kept = prune_overview_pins rows pins
      in (sort_overview_items (apply_overview_pins kept rows), kept))"


subsection \<open>What every Overview keeps\<close>

definition row_ok :: "overview_row \<Rightarrow> bool" where
  "row_ok row \<longleftrightarrow> sorted_wrt (<) (map source_id (row_sources row)) \<and>
     selected_source_id row \<in> source_id ` set (row_sources row) \<and> automatic_source_id row \<in> source_id ` set (row_sources row)"

definition rows_ok :: "overview_row list \<Rightarrow> bool" where
  "rows_ok rows \<longleftrightarrow> distinct (map row_identity rows) \<and>
     list_all (\<lambda>row. row_ok row \<and> automatic_source_id row = selected_source_id row) rows"

lemma rows_ok_simps [simp]:
  "rows_ok []"
  "rows_ok (row # rows) \<longleftrightarrow> row_ok row \<and> automatic_source_id row = selected_source_id row \<and>
     row_identity row \<notin> row_identity ` set rows \<and> rows_ok rows"
  by (auto simp: rows_ok_def)

lemma put_source_ids:
  "set (map source_id (put_source s ss)) = insert (source_id s) (set (map source_id ss))"
  "distinct (map source_id ss) \<Longrightarrow> distinct (map source_id (put_source s ss))"
  by (auto simp: put_source_def distinct_map_filter)

lemma put_sources_ids:
  "set (map source_id (fold put_source new ss)) = set (map source_id new) \<union> set (map source_id ss)"
  "distinct (map source_id ss) \<Longrightarrow> distinct (map source_id (fold put_source new ss))"
proof (induction new arbitrary: ss)
  case (Cons s new)
  case 1
  show ?case using Cons.IH(1) [of "put_source s ss"] put_source_ids(1) [of s ss] by simp
next
  case (Cons s new)
  case 2
  show ?case using Cons.IH(2) put_source_ids(2) 2 by simp
qed simp_all

lemma sort_key_strict: "distinct (map f xs) \<Longrightarrow> sorted_wrt (<) (map f (sort_key f xs))"
  for f :: "'a \<Rightarrow> 'b::linorder"
  by (simp add: strict_sorted_iff distinct_map)

lemma merge_into_simps [simp]: "row_identity (merge_into x incoming existing) = row_identity existing"
  "row_sources (merge_into x incoming existing) =
     sort_key source_id (fold put_source (row_sources incoming) (row_sources existing))"
  by (simp_all add: merge_into_def Let_def)

lemma merge_into_ok:
  assumes "row_ok incoming" "row_ok existing"
    "automatic_source_id incoming = selected_source_id incoming" "automatic_source_id existing = selected_source_id existing"
  shows "row_ok (merge_into x incoming existing)"
    "automatic_source_id (merge_into x incoming existing) = selected_source_id (merge_into x incoming existing)"
proof -
  have ids: "source_id ` set (fold put_source (row_sources incoming) (row_sources existing)) =
      source_id ` set (row_sources incoming) \<union> source_id ` set (row_sources existing)"
    using put_sources_ids(1) [of "row_sources incoming" "row_sources existing"] by simp
  have "distinct (map source_id (fold put_source (row_sources incoming) (row_sources existing)))"
    using assms(2) by (intro put_sources_ids(2)) (auto simp: row_ok_def strict_sorted_iff)
  from sort_key_strict [OF this] show "row_ok (merge_into x incoming existing)"
    using assms unfolding row_ok_def merge_into_simps set_sort ids by (auto simp: merge_into_def Let_def)
  show "automatic_source_id (merge_into x incoming existing) = selected_source_id (merge_into x incoming existing)"
    using assms(3,4) by (simp add: merge_into_def Let_def)
qed

lemma merge_identities:
  "row_identity ` set (merge_overview_item x incoming rows) = insert (row_identity incoming) (row_identity ` set rows)"
  by (induction rows) auto

lemma merge_overview_item_ok:
  "rows_ok rows \<Longrightarrow> row_ok incoming \<Longrightarrow> automatic_source_id incoming = selected_source_id incoming \<Longrightarrow>
   rows_ok (merge_overview_item x incoming rows)"
  by (induction rows) (auto simp: merge_into_ok merge_identities)

lemma overview_item_ok:
  "overview_item x digest snapshot sid name device history now = Some row \<Longrightarrow>
   row_ok row \<and> automatic_source_id row = selected_source_id row"
  by (auto simp: overview_item_def row_ok_def bind_eq_Some_conv Let_def)

lemma without_readings_ok: "row_ok (without_readings row) = row_ok row"
  "automatic_source_id (without_readings row) = automatic_source_id row"
  "selected_source_id (without_readings row) = selected_source_id row"
  by (simp_all add: without_readings_def row_ok_def image_image comp_def)

lemma fold_rows_ok: "(\<And>a rows. rows_ok rows \<Longrightarrow> rows_ok (f a rows)) \<Longrightarrow> rows_ok rows \<Longrightarrow> rows_ok (fold f as rows)"
  by (induction as arbitrary: rows) auto

lemma retain_previous_ok: "rows_ok rows \<Longrightarrow> rows_ok (retain_previous_local_overview x digest previous provider now rows)"
  unfolding retain_previous_local_overview_def
  by (erule fold_rows_ok [rotated]) (auto intro: merge_overview_item_ok dest: overview_item_ok split: option.split)

lemma local_overview_ok: "rows_ok (local_overview x digest quota previous history now)"
proof -
  have one: "rows_ok (case overview_item x digest snapshot ''local'' local_source_display_name None (Some history) now of
      Some item \<Rightarrow> merge_overview_item x item rows | None \<Rightarrow> rows)" if "rows_ok rows" for snapshot rows
    using that by (auto intro: merge_overview_item_ok dest: overview_item_ok split: option.split)
  show ?thesis unfolding local_overview_def
    by (rule fold_rows_ok) (auto intro: retain_previous_ok fold_rows_ok one split: option.split)
qed

lemma add_device_row_ok: "rows_ok rows \<Longrightarrow> row_ok item \<Longrightarrow> automatic_source_id item = selected_source_id item \<Longrightarrow>
   rows_ok (add_device_row x this dev item rows)"
  by (simp add: add_device_row_def merge_overview_item_ok)

lemma add_source_ok: "rows_ok (snd state) \<Longrightarrow> rows_ok (snd (add_source x digest this names now snapshot source state))"
  by (auto simp: add_source_def without_readings_ok intro!: add_device_row_ok dest: overview_item_ok
      split: option.split prod.split)

lemma add_sources_ok: "rows_ok (snd state) \<Longrightarrow> rows_ok (snd (fold (add_source x digest this names now snapshot) sources state))"
  by (induction sources arbitrary: state) (auto simp: add_source_ok)

lemma add_subscription_ok: "rows_ok rows \<Longrightarrow> rows_ok (add_subscription x digest this names now subscription rows)"
proof -
  assume "rows_ok rows"
  then have after: "rows_ok rows'" if "fold (add_source x digest this names now snapshot) sources (False, rows) = (h, rows')"
    for snapshot sources h rows' using add_sources_ok [of "(False, rows)"] that by (metis snd_conv)
  with \<open>rows_ok rows\<close> show ?thesis
    unfolding add_subscription_def
    by (auto intro!: add_device_row_ok dest: overview_item_ok split: option.split prod.split bool.split)
qed

lemma account_overview_ok: "rows_ok rows \<Longrightarrow> rows_ok (account_overview x digest account now rows)"
  by (auto simp: account_overview_def intro: fold_rows_ok add_subscription_ok split: option.split)

text \<open>What a shown row holds: its sources in order, the selected one and the automatic one among them, and
  a pin only where the pinned source has a reading, which is then the one shown.\<close>

definition shown_ok :: "(string \<Rightarrow> string option) \<Rightarrow> overview_row \<Rightarrow> bool" where
  "shown_ok pins row \<longleftrightarrow> row_ok row \<and>
     (case source_pin row of
        None \<Rightarrow> selected_source_id row = automatic_source_id row
      | Some pin \<Rightarrow> selected_source_id row = pin \<and> pins (overview_identity_key (row_identity row)) = Some pin \<and>
          list_ex (\<lambda>s. source_id s = pin \<and> source_snapshot s = Some (row_snapshot row) \<and>
            source_is_stale s = row_is_stale row) (row_sources row))"

lemma apply_pin_shown: "row_ok row \<Longrightarrow> automatic_source_id row = selected_source_id row \<Longrightarrow> shown_ok pins (apply_pin pins row)"
  by (auto simp: apply_pin_def shown_ok_def row_ok_def Let_def list_ex_iff find_Some_iff split: option.splits intro: nth_mem)

lemma apply_pin_identity [simp]: "row_identity (apply_pin pins row) = row_identity row"
  by (auto simp: apply_pin_def Let_def split: option.split)

lemma identity_order_inject: "identity_order a = identity_order b \<longleftrightarrow> a = b"
  by (cases a; cases b) (simp add: identity_order_def)


text \<open>C31: Whatever the reports hold, the Overview lists each subscription once and in order, with each source
  once and in order, the source it shows among them; a pin is shown only where its source has a reading, and
  the row is then that reading; without a pin the row is the automatic choice.\<close>

theorem overview_is_well_formed:
  "case overview_items_and_pins x digest quota account previous pins history now of (rows, kept) \<Rightarrow>
     sorted_wrt (<) (map (\<lambda>row. identity_order (row_identity row)) rows) \<and> list_all (shown_ok kept) rows"
proof -
  let ?rows = "account_overview x digest account now (local_overview x digest quota previous history now)"
  let ?kept = "prune_overview_pins ?rows pins"
  have ok: "rows_ok ?rows" by (intro account_overview_ok local_overview_ok)
  then have "list_all (shown_ok ?kept) (apply_overview_pins ?kept ?rows)"
    by (auto simp: rows_ok_def apply_overview_pins_def list_all_iff apply_pin_shown)
  moreover have "distinct (map (\<lambda>row. identity_order (row_identity row)) (apply_overview_pins ?kept ?rows))"
    using ok by (auto simp: rows_ok_def apply_overview_pins_def distinct_map inj_on_def identity_order_inject)
  ultimately show ?thesis
    by (simp add: overview_items_and_pins_def Let_def sort_overview_items_def list_all_iff sort_key_strict)
qed

subsection \<open>The best reading\<close>

text \<open>A row as it comes from one reading, and what its choice rests on: a current reading first, then the
  latest, then this Mac's, then the least source.\<close>

definition one_reading :: "overview_row \<Rightarrow> bool" where
  "one_reading row \<longleftrightarrow> map source_id (row_sources row) = [selected_source_id row] \<and>
     automatic_source_id row = selected_source_id row \<and>
     automatic_source_display_name row = selected_source_display_name row \<and> source_pin row = None"

definition choice_key :: "externs \<Rightarrow> overview_row \<Rightarrow> bool \<times> int \<times> bool \<times> string" where
  "choice_key x row = (row_is_stale row, - snapshot_observed_at x (row_snapshot row), \<not> selected_is_local row,
     selected_source_id row)"

text \<open>The Overview of some readings, without merging: each subscription with all its sources in order and the
  reading of the least key.\<close>

definition overview_of :: "externs \<Rightarrow> overview_row list \<Rightarrow> overview_identity \<Rightarrow> overview_row" where
  "overview_of x rs i =
     (let readings = filter (\<lambda>r. row_identity r = i) rs in
      (hd (sort_key (choice_key x) readings))\<lparr>row_sources := sort_key source_id (concat (map row_sources readings))\<rparr>)"

lemma better_iff: "overview_choice_is_better x a b \<longleftrightarrow> choice_key x a < choice_key x b"
  by (auto simp: overview_choice_is_better_def choice_key_def Let_def less_bool_def)

lemma overview_item_one_reading:
  "overview_item x digest snapshot sid name device history now = Some row \<Longrightarrow> one_reading row"
  by (auto simp: overview_item_def one_reading_def bind_eq_Some_conv Let_def)

lemma find_unique: "distinct (map f xs) \<Longrightarrow> a \<in> set xs \<Longrightarrow> find (\<lambda>b. f b = f a) xs = Some a"
  by (induction xs) auto

lemma selected_is_local_sources:
  assumes "one_reading row" "row_sources row = [s]" "s \<in> set ss" "distinct (map source_id ss)"
  shows "selected_is_local (row\<lparr>row_sources := ss\<rparr>) = selected_is_local row"
  using find_unique [OF assms(4,3)] assms(1,2) by (simp add: selected_is_local_def one_reading_def)

text \<open>The source ids of one subscription's readings are the ids they select.\<close>

lemma one_reading_sources:
  "list_all one_reading rs \<Longrightarrow> map source_id (concat (map row_sources rs)) = map selected_source_id rs"
  by (induction rs) (auto simp: one_reading_def)

lemma fold_put_fresh:
  "distinct (map source_id (ss @ new)) \<Longrightarrow> fold put_source new ss = ss @ new"
proof (induction new arbitrary: ss)
  case (Cons s new)
  have "source_id v \<noteq> source_id s" if "v \<in> set ss" for v using Cons.prems imageI [OF that, of source_id] by auto
  then have "put_source s ss = ss @ [s]" by (simp add: put_source_def filter_id_conv)
  with Cons.IH [of "ss @ [s]"] Cons.prems show ?case by simp
qed simp

lemma sort_key_fresh:
  fixes f :: "'a \<Rightarrow> 'b::linorder"
  assumes "distinct (map f ys)" "mset xs = mset ys"
  shows "sort_key f xs = sort_key f ys"
proof (rule sort_key_inj_key_eq)
  show "mset xs = mset (sort_key f ys)" using assms(2) by simp
  show "inj_on f (set xs)" using assms by (metis distinct_map mset_eq_setD)
qed simp

lemma hd_sort_key:
  assumes "xs \<noteq> []"
  shows "hd (sort_key f xs) \<in> set xs" "\<forall>a \<in> set xs. f (hd (sort_key f xs)) \<le> f a"
proof -
  from assms obtain h t where h: "sort_key f xs = h # t" by (metis neq_Nil_conv length_0_conv length_sort)
  then have "set xs = insert h (set t)" by (metis list.simps(15) set_sort)
  moreover have "sorted (map f (h # t))" using sorted_sort_key [of f xs] h by simp
  ultimately show "hd (sort_key f xs) \<in> set xs" "\<forall>a \<in> set xs. f (hd (sort_key f xs)) \<le> f a" using h by auto
qed

lemma hd_sort_key_append:
  fixes f :: "'a \<Rightarrow> 'b::linorder"
  assumes "xs \<noteq> []" "distinct (map f (xs @ [a]))"
  shows "hd (sort_key f (xs @ [a])) = (if f a < f (hd (sort_key f xs)) then a else hd (sort_key f xs))" (is "?h = ?r")
proof -
  have r: "?r \<in> set (xs @ [a])" "\<forall>b \<in> set (xs @ [a]). f ?r \<le> f b"
    using hd_sort_key [OF assms(1), of f] by (auto intro: less_imp_le order.trans)
  have h: "?h \<in> set (xs @ [a])" "\<forall>b \<in> set (xs @ [a]). f ?h \<le> f b" using hd_sort_key [of "xs @ [a]" f] by simp_all
  have eq: "f ?h = f ?r" using r h by (blast intro: order_antisym)
  have inj: "inj_on f (set (xs @ [a]))" using assms(2) by (simp only: distinct_map)
  from inj eq h(1) r(1) show ?thesis by (rule inj_onD)
qed

lemma overview_of_one: "one_reading r \<Longrightarrow> overview_of x [r] (row_identity r) = r"
  by (cases r) (auto simp: overview_of_def one_reading_def Let_def)

lemma overview_of_other: "row_identity r \<noteq> i \<Longrightarrow> overview_of x (rs @ [r]) i = overview_of x rs i"
  by (simp add: overview_of_def)

text \<open>The readings of a subscription, each source's once.\<close>

definition readings :: "overview_row list \<Rightarrow> bool" where
  "readings rs \<longleftrightarrow> list_all one_reading rs \<and> distinct (map (\<lambda>r. (row_identity r, selected_source_id r)) rs)"

lemma readings_of_one:
  assumes "readings rs"
  shows "list_all one_reading (filter (\<lambda>r. row_identity r = i) rs)"
    "distinct (map selected_source_id (filter (\<lambda>r. row_identity r = i) rs))"
    "distinct (map source_id (concat (map row_sources (filter (\<lambda>r. row_identity r = i) rs))))"
    "distinct (map (choice_key x) (filter (\<lambda>r. row_identity r = i) rs))"
proof -
  show one: "list_all one_reading (filter (\<lambda>r. row_identity r = i) rs)"
    using assms by (auto simp: readings_def list_all_iff)
  show ids: "distinct (map selected_source_id (filter (\<lambda>r. row_identity r = i) rs))"
    using assms by (auto simp: readings_def distinct_map inj_on_def)
  then show "distinct (map source_id (concat (map row_sources (filter (\<lambda>r. row_identity r = i) rs))))"
    by (simp add: one_reading_sources [OF one])
  from ids show "distinct (map (choice_key x) (filter (\<lambda>r. row_identity r = i) rs))"
    by (auto simp: distinct_map inj_on_def choice_key_def)
qed

lemma merge_into_best:
  assumes rs: "readings (rs @ [r])" and i: "row_identity r \<in> row_identity ` set rs"
  shows "merge_into x r (overview_of x rs (row_identity r)) = overview_of x (rs @ [r]) (row_identity r)"
proof -
  let ?l = "filter (\<lambda>a. row_identity a = row_identity r) rs"
  let ?best = "hd (sort_key (choice_key x) ?l)"
  let ?old = "sort_key source_id (concat (map row_sources ?l))"
  have l: "?l \<noteq> []" using i by (auto simp: filter_empty_conv)
  note facts = readings_of_one [where i = "row_identity r", OF rs, unfolded filter_append, simplified]
  have best: "?best \<in> set ?l" using hd_sort_key [OF l] by blast
  have r: "one_reading r" using facts(1) by simp
  have best_one: "one_reading ?best" using best facts(1) by (auto simp: list_all_iff)
  then obtain s where s: "row_sources ?best = [s]" by (cases "row_sources ?best") (auto simp: one_reading_def)
  have "s \<in> set ?old" using best s by force
  moreover have old: "distinct (map source_id ?old)" using facts(3) by (simp add: distinct_map)
  ultimately have "choice_key x (?best\<lparr>row_sources := ?old\<rparr>) = choice_key x ?best"
    using selected_is_local_sources [OF best_one s] by (simp add: choice_key_def)
  then have better: "overview_choice_is_better x r (?best\<lparr>row_sources := ?old\<rparr>) \<longleftrightarrow> choice_key x r < choice_key x ?best"
    by (simp add: better_iff)
  have "fold put_source (row_sources r) ?old = ?old @ row_sources r"
    by (rule fold_put_fresh) (use facts(3) in \<open>auto simp: distinct_map inj_on_Un\<close>)
  then have sources: "sort_key source_id (fold put_source (row_sources r) ?old) =
      sort_key source_id (concat (map row_sources ?l) @ row_sources r)"
    using facts(3) by (simp add: sort_key_fresh)
  have chosen: "hd (sort_key (choice_key x) (?l @ [r])) = (if choice_key x r < choice_key x ?best then r else ?best)"
    by (rule hd_sort_key_append [OF l]) (use facts(4) in simp)
  have "row_identity ?best = row_identity r" using best by simp
  with r best_one show ?thesis
    by (auto simp: merge_into_def overview_of_def Let_def better sources chosen one_reading_def)
qed

lemma merge_at:
  assumes "distinct is" "\<And>i. row_identity (g i) = i"
  shows "merge_overview_item x r (map g is) =
    (if row_identity r \<in> set is then map (g(row_identity r := merge_into x r (g (row_identity r)))) is else map g is @ [r])"
  using assms(1) by (induction "is") (auto simp: assms(2))

lemma overview_of_identity: "i \<in> row_identity ` set rs \<Longrightarrow> row_identity (overview_of x rs i) = i"
proof -
  assume "i \<in> row_identity ` set rs"
  then have "filter (\<lambda>r. row_identity r = i) rs \<noteq> []" by (auto simp: filter_empty_conv)
  from hd_sort_key(1) [OF this, of "choice_key x"] show ?thesis by (simp add: overview_of_def Let_def)
qed

lemma merged_rows:
  "readings rs \<Longrightarrow> \<exists>is. distinct is \<and> set is = row_identity ` set rs \<and>
     fold (merge_overview_item x) rs [] = map (overview_of x rs) is"
proof (induction rs rule: rev_induct)
  case (snoc r rs)
  then have "readings rs" by (auto simp: readings_def)
  then obtain "is" where IH: "distinct is" "set is = row_identity ` set rs"
    "fold (merge_overview_item x) rs [] = map (overview_of x rs) is" using snoc.IH by blast
  have named: "row_identity (overview_of x rs i) = i" if "i \<in> set is" for i
    using that IH(2) by (simp add: overview_of_identity)
  define g where "g i = (if i \<in> set is then overview_of x rs i else r\<lparr>row_identity := i\<rparr>)" for i
  have g: "map (overview_of x rs) is = map g is" "row_identity (g i) = i" for i by (simp_all add: g_def named)
  let ?i = "row_identity r"
  show ?case
  proof (cases "?i \<in> set is")
    case True
    then have "merge_into x r (g ?i) = overview_of x (rs @ [r]) ?i"
      using merge_into_best [OF snoc.prems] IH(2) by (simp add: g_def)
    then have "fold (merge_overview_item x) (rs @ [r]) [] = map (overview_of x (rs @ [r])) is"
      using merge_at [of "is" g x r, OF IH(1) g(2)] True
      by (auto simp: IH(3) g(1) overview_of_other) (auto simp: g_def overview_of_other)
    with IH(1,2) True show ?thesis by (intro exI [of _ "is"]) auto
  next
    case False
    then have new: "filter (\<lambda>a. row_identity a = ?i) rs = []"
      using IH(2) by (metis (mono_tags, lifting) filter_empty_conv imageI)
    have "overview_of x (rs @ [r]) ?i = overview_of x [r] ?i" by (simp add: overview_of_def new)
    also have "\<dots> = r" using snoc.prems by (simp add: overview_of_one readings_def)
    finally have "fold (merge_overview_item x) (rs @ [r]) [] = map (overview_of x (rs @ [r])) (is @ [?i])"
      using merge_at [of "is" g x r, OF IH(1) g(2)] False
      by (auto simp: IH(3) g(1)) (metis g_def overview_of_other)
    with IH(1,2) False show ?thesis by (intro exI [of _ "is @ [?i]"]) auto
  qed
qed simp

text \<open>C40: However readings are ordered, merging them gives each subscription its sources in order and the
  best of its readings: a current one before a stale one, then the latest, then this Mac's.\<close>

theorem merge_shows_best_reading:
  assumes "list_all one_reading rs" "distinct (map (\<lambda>r. (row_identity r, selected_source_id r)) rs)"
  shows "sort_overview_items (fold (merge_overview_item x) rs []) =
    map (overview_of x rs) (sort_key identity_order (remdups (map row_identity rs)))"
proof -
  obtain "is" where "is": "distinct is" "set is = row_identity ` set rs"
    "fold (merge_overview_item x) rs [] = map (overview_of x rs) is"
    using merged_rows [of rs x] assms by (auto simp: readings_def)
  have named: "map (\<lambda>i. row_identity (overview_of x rs i)) is = is"
    by (rule map_idI) (use "is"(2) in \<open>simp add: overview_of_identity\<close>)
  have order: "sort_key identity_order is = sort_key identity_order (remdups (map row_identity rs))"
  proof (rule sort_key_fresh)
    show "distinct (map identity_order (remdups (map row_identity rs)))"
      by (simp add: distinct_map inj_on_def identity_order_inject)
    show "mset is = mset (remdups (map row_identity rs))"
      using "is"(1,2) by (simp add: set_eq_iff_mset_eq_distinct [symmetric])
  qed
  have "sort_key (\<lambda>row. identity_order (row_identity row)) (map (overview_of x rs) is) =
      map (overview_of x rs) (sort_key identity_order is)"
  proof (rule sort_key_inj_key_eq)
    show "mset (map (overview_of x rs) is) = mset (map (overview_of x rs) (sort_key identity_order is))" by simp
    show "inj_on (\<lambda>row. identity_order (row_identity row)) (set (map (overview_of x rs) is))"
      using "is"(2) by (auto simp: inj_on_def identity_order_inject overview_of_identity)
    have "map (\<lambda>row. identity_order (row_identity row)) (map (overview_of x rs) (sort_key identity_order is)) =
        map identity_order (sort_key identity_order is)"
      using "is"(2) by (simp add: overview_of_identity)
    then show "sorted (map (\<lambda>row. identity_order (row_identity row)) (map (overview_of x rs) (sort_key identity_order is)))"
      by (simp only: sorted_sort_key)
  qed
  with "is"(3) order show ?thesis by (simp add: sort_overview_items_def)
qed

definition sample_row :: "string \<Rightarrow> string \<Rightarrow> bool \<Rightarrow> overview_row" where
  "sample_row sid kind stale =
     \<lparr>row_identity = \<lparr>ident_provider = ''claude'', ident_fingerprint = ''f'', ident_scope = ''account'', ident_source_id = None\<rparr>,
      row_snapshot = JObj [(''source'', JStr sid)],
      row_sources = [\<lparr>source_id = sid, source_kind = kind, source_device_id = None, source_display_name = sid,
        source_observed_at = [], source_is_stale = stale, source_snapshot = None\<rparr>],
      selected_source_id = sid, selected_source_display_name = sid, automatic_source_id = sid,
      automatic_source_display_name = sid, row_is_stale = stale, source_pin = None\<rparr>"

theorem merge_shows_best_reading_witness:
  "map selected_source_id (sort_overview_items (fold (merge_overview_item sample_externs)
     [sample_row ''local'' ''local'' True, sample_row ''device:b'' ''device'' False, sample_row ''device:a'' ''device'' False] [])) =
   [''device:a'']"
proof -
  let ?rs = "[sample_row ''local'' ''local'' True, sample_row ''device:b'' ''device'' False, sample_row ''device:a'' ''device'' False]"
  have "list_all one_reading ?rs" "distinct (map (\<lambda>r. (row_identity r, selected_source_id r)) ?rs)"
    by (simp_all add: sample_row_def one_reading_def)
  note merged = merge_shows_best_reading [OF this, of sample_externs]
  have "map (\<lambda>i. selected_source_id (overview_of sample_externs ?rs i)) (sort_key identity_order (remdups (map row_identity ?rs))) =
      [''device:a'']"
    by (simp add: sample_row_def overview_of_def Let_def choice_key_def snapshot_observed_at_def instant_def
        selected_is_local_def)
  then show ?thesis unfolding merged by (simp add: comp_def)
qed

subsection \<open>Folding a pass into the report\<close>

text \<open>A provider the pass did not ask keeps its result; one that was told to wait keeps its last reading. The
  clock is a parameter.\<close>

definition rate_limited_marker :: string where "rate_limited_marker = ''rate_limited''"

fun json_remove :: "string \<Rightarrow> json \<Rightarrow> json" where
  "json_remove key (JObj members) = JObj (AList.delete key members)"
| "json_remove key v = v"

definition snapshot_count :: "json \<Rightarrow> nat" where
  "snapshot_count result = length (members_of ''snapshots'' result)"

definition report_result :: "json option \<Rightarrow> provider_id \<Rightarrow> json option" where
  "report_result report provider =
     Option.bind report (\<lambda>r. find (\<lambda>result. str_member ''provider'' result = Some (provider_str provider))
       (members_of ''results'' r))"

definition merged_result :: "json option \<Rightarrow> json option \<Rightarrow> provider_id \<Rightarrow> json option" where
  "merged_result previous fresh provider =
     (case report_result fresh provider of
        Some result \<Rightarrow>
          if json_get rate_limited_marker result \<noteq> None
          then (case Option.bind (report_result previous provider) (\<lambda>p. if 0 < snapshot_count p then Some p else None) of
                  Some p \<Rightarrow> Some p
                | None \<Rightarrow> Some (json_remove rate_limited_marker result))
          else Some result
      | None \<Rightarrow> report_result previous provider)"

definition merge_quota_reports :: "string \<Rightarrow> json option \<Rightarrow> json option \<Rightarrow> json" where
  "merge_quota_reports now_text previous fresh =
     JObj [(''captured_at'',
        (case Option.bind (case fresh of Some f \<Rightarrow> Some f | None \<Rightarrow> previous) (json_get ''captured_at'') of
           Some v \<Rightarrow> v | None \<Rightarrow> JStr now_text)),
       (''results'', JArr (List.map_filter (merged_result previous fresh) all_providers))]"

lemma json_get_remove: "json_get key (json_remove other v) = (if key = other then None else json_get key v)"
  by (cases v) (simp_all add: delete_conv' )

lemma report_result_name: "report_result r p = Some v \<Longrightarrow> str_member ''provider'' v = Some (provider_str p)"
  by (auto simp: report_result_def bind_eq_Some_conv find_Some_iff)

lemma merged_result_name: "merged_result previous fresh p = Some v \<Longrightarrow> str_member ''provider'' v = Some (provider_str p)"
  by (auto simp: merged_result_def str_member_def json_get_remove rate_limited_marker_def bind_eq_Some_conv
      dest!: report_result_name split: option.splits if_splits)

text \<open>The report names each provider once, and the mark of a pass that was told to wait goes no further than
  the pass.\<close>

lemma find_map_filter:
  assumes "distinct ps" "inj_on name (set ps)" "\<And>p v. f p = Some v \<Longrightarrow> key v = Some (name p)" "p \<in> set ps"
  shows "find (\<lambda>v. key v = Some (name p)) (List.map_filter f ps) = f p"
  using assms(1,2,4)
proof (induction ps)
  case (Cons q ps)
  show ?case
  proof (cases "q = p")
    case True
    have "key v \<noteq> Some (name p)" if "v \<in> set (List.map_filter f ps)" for v
    proof -
      from that obtain r where r: "r \<in> set ps" "f r = Some v" by (auto simp: List.map_filter_def)
      with Cons.prems True have "name r \<noteq> name p" by (auto simp: inj_on_def)
      with assms(3) [OF r(2)] show ?thesis by simp
    qed
    then have "find (\<lambda>v. key v = Some (name p)) (List.map_filter f ps) = None" by (simp add: find_None_iff)
    with True assms(3) show ?thesis by (cases "f q") (auto simp: List.map_filter_simps)
  next
    case False
    then have "name q \<noteq> name p" using Cons.prems by (auto simp: inj_on_def)
    with False Cons show ?thesis
      by (cases "f q") (auto simp: List.map_filter_simps dest!: assms(3))
  qed
qed simp

lemma inj_provider_str: "inj_on provider_str A"
  by (rule inj_on_inverseI [of _ "the o provider_parse"]) simp

lemma distinct_all_providers: "distinct all_providers"
  by (simp add: all_providers_def)

lemma merged_report_result:
  "report_result (Some (merge_quota_reports now_text previous fresh)) p = merged_result previous fresh p"
proof -
  have "members_of ''results'' (merge_quota_reports now_text previous fresh) =
      List.map_filter (merged_result previous fresh) all_providers"
    by (simp add: merge_quota_reports_def members_of_def)
  then show ?thesis
    by (simp add: report_result_def find_map_filter [where name = provider_str, OF _ _ merged_result_name]
        inj_provider_str distinct_all_providers all_providers_complete)
qed

lemma mark_stays_in_pass:
  assumes "\<And>p v. report_result previous p = Some v \<Longrightarrow> json_get rate_limited_marker v = None"
    and "report_result (Some (merge_quota_reports now_text previous fresh)) p = Some v"
  shows "json_get rate_limited_marker v = None"
  using assms unfolding merged_report_result
  by (auto simp: merged_result_def json_get_remove bind_eq_Some_conv split: option.splits if_splits)

end
