(* ===== verification/Usage_Store.thy ===== *)
theory Usage_Store
  imports Usage_Fold Session_Store
begin

text \<open>
  The local Usage cache (\<open>packages/service/src/state/mod.rs\<close>): the records each source file holds, and the
  facts of each hour, which \<open>apply_usage_scan\<close> keeps up to date with the records. A table is the list of its
  rows, found by primary key (\<open>map_of\<close>, \<open>AList.update\<close>, \<open>AList.delete\<close>); an hour is its number since 1970,
  which the column's text orders alike; a canonical instant is in milliseconds. The encoded size of a record
  is a parameter. The sessions a scan also folds and the revision it
  counts are not modelled. What the lemmas show: after a scan the facts
  of every hour are those of its records, and when they are not.
\<close>

declare split_paired_All [simp del] split_paired_Ex [simp del]

subsection \<open>Tables\<close>

definition hour_of :: "int \<Rightarrow> int" where "hour_of ms = ms div 3600000"

record stored_record =
  occurred_at :: int
  event_json :: usage_event

record file_index_row =
  index_identity :: string
  index_size :: nat
  index_modified_ns :: nat
  parser_revision :: string
  parsed_offset :: nat
  prefix_hash :: string

record hour_facts =
  hour_rows :: "local_fact list"
  hour_partial :: bool
  hour_version :: nat

record usage_cache =
  file_records :: "((usage_agent \<times> string \<times> string) \<times> stored_record) list"
  partial_sources :: "(usage_agent \<times> string \<times> int) list"
  file_index :: "((usage_agent \<times> string) \<times> file_index_row) list"
  hourly_facts :: "((usage_agent \<times> int) \<times> hour_facts) list"
  dirty_hours :: "((usage_agent \<times> int) \<times> nat \<times> bool) list"
  rebuilding :: bool

text \<open>The rows of an hour as they are kept, and as the two queries read them: with the project dimension, and
  with it summed away. A sum of costs ignores the rows without one.\<close>

definition stored_fact :: "usage_agent \<Rightarrow> local_fact \<Rightarrow> local_fact" where
  "stored_fact agent f = f\<lparr>fact_row := (fact_row f)\<lparr>row_agent := agent\<rparr>\<rparr>"

definition fact_key :: "local_fact \<Rightarrow> string list" where
  "fact_key f = row_key (fact_row f) @ [fact_project_key f]"

definition row_order :: "usage_row \<Rightarrow> string list" where
  "row_order r = [channel_str (row_billing_channel r), row_model r, context_str (row_context_bucket r),
     row_service_tier r, row_speed r, row_inference_geo r]"

definition facts_at :: "usage_agent \<Rightarrow> int \<Rightarrow> usage_cache \<Rightarrow> local_fact list" where
  "facts_at agent h c = (case map_of (hourly_facts c) (agent, h) of None \<Rightarrow> [] | Some hf \<Rightarrow> hour_rows hf)"

definition local_facts_at :: "usage_agent \<Rightarrow> int \<Rightarrow> usage_cache \<Rightarrow> local_fact list" where
  "local_facts_at agent h c = sort_key (\<lambda>f. row_order (fact_row f) @ [fact_project_key f]) (facts_at agent h c)"

definition sum_cost :: "usage_row list \<Rightarrow> string option" where
  "sum_cost rs =
     (let costs = List.map_filter row_source_cost_microusd rs in
      if costs = [] then None else Some (decimal_string (\<Sum>v \<leftarrow> costs. digits_value v)))"

definition sum_rows :: "usage_row list \<Rightarrow> usage_row" where
  "sum_rows rs =
     (let total = (\<lambda>f. \<Sum>r \<leftarrow> rs. f r) in
      (hd rs)\<lparr>row_input_tokens := total row_input_tokens, row_cache_read_tokens := total row_cache_read_tokens,
        row_cache_write_5m_tokens := total row_cache_write_5m_tokens,
        row_cache_write_1h_tokens := total row_cache_write_1h_tokens,
        row_cache_write_inferred_tokens := total row_cache_write_inferred_tokens,
        row_output_tokens := total row_output_tokens, row_reasoning_tokens := total row_reasoning_tokens,
        row_requests := total row_requests, row_web_search_requests := total row_web_search_requests,
        row_web_fetch_requests := total row_web_fetch_requests,
        row_source_cost_microusd := sum_cost rs,
        row_source_cost_covered_requests := total row_source_cost_covered_requests\<rparr>)"

definition grouped_rows :: "local_fact list \<Rightarrow> usage_row list" where
  "grouped_rows facts =
     sort_key row_order (map (\<lambda>k. sum_rows (filter (\<lambda>r. row_key r = k) (map fact_row facts)))
       (remdups (map (\<lambda>f. row_key (fact_row f)) facts)))"

definition fact_rows_at :: "usage_agent \<Rightarrow> int \<Rightarrow> usage_cache \<Rightarrow> usage_row list" where
  "fact_rows_at agent h c = grouped_rows (facts_at agent h c)"

subsection \<open>Records\<close>

definition insert_record ::
  "externs \<Rightarrow> (usage_event \<Rightarrow> nat) \<Rightarrow> usage_agent \<Rightarrow> string \<Rightarrow> string \<Rightarrow> usage_event \<Rightarrow> usage_cache \<Rightarrow>
   store_error + int \<times> usage_cache" where
  "insert_record x size_of agent file key e c =
     rbind (ensure (size_of e \<le> maximum_request_bytes) InvalidState) (\<lambda>_.
     rbind (ok_or InvalidState (instant_of x (ev_occurred_at e))) (\<lambda>t.
       let ms = t div 1000000 in
       Inr (hour_of ms, c\<lparr>file_records := AList.update (agent, file, key) \<lparr>occurred_at = ms, event_json = e\<rparr> (file_records c)\<rparr>)))"

definition record_hours :: "usage_agent \<Rightarrow> string \<Rightarrow> usage_cache \<Rightarrow> int set" where
  "record_hours agent file c =
     set (map (\<lambda>(_, r). hour_of (occurred_at r)) (filter (\<lambda>((a, f, _), _). a = agent \<and> f = file) (file_records c)))"

definition delete_records :: "usage_agent \<Rightarrow> string \<Rightarrow> usage_cache \<Rightarrow> usage_cache" where
  "delete_records agent file c =
     c\<lparr>file_records := filter (\<lambda>((a, f, _), _). \<not> (a = agent \<and> f = file)) (file_records c)\<rparr>"

definition partial_source_hours :: "usage_agent \<Rightarrow> string \<Rightarrow> usage_cache \<Rightarrow> int set" where
  "partial_source_hours agent file c = set (List.map_filter (\<lambda>(a, f, h). if a = agent \<and> f = file then Some h else None) (partial_sources c))"

definition delete_partial_sources :: "usage_agent \<Rightarrow> string \<Rightarrow> usage_cache \<Rightarrow> usage_cache" where
  "delete_partial_sources agent file c = c\<lparr>partial_sources := filter (\<lambda>(a, f, _). \<not> (a = agent \<and> f = file)) (partial_sources c)\<rparr>"

definition mark_partial_source_hours :: "usage_agent \<Rightarrow> string \<Rightarrow> int set \<Rightarrow> usage_cache \<Rightarrow> usage_cache" where
  "mark_partial_source_hours agent file hours c =
     c\<lparr>partial_sources := fold (\<lambda>h ps. if (agent, file, h) \<in> set ps then ps else ps @ [(agent, file, h)])
       (sorted_list_of_set hours) (partial_sources c)\<rparr>"

text \<open>The records an hour is made of.\<close>

definition hour_events :: "bool \<Rightarrow> usage_agent \<Rightarrow> int \<Rightarrow> usage_cache \<Rightarrow> usage_event list" where
  "hour_events group_by_project agent h c =
     map (\<lambda>(_, r). if group_by_project then event_json r else (event_json r)\<lparr>ev_project_key := None\<rparr>)
       (filter (\<lambda>((a, _, _), r). a = agent \<and> hour_of (occurred_at r) = h) (file_records c))"

subsection \<open>One hour\<close>

definition max_usage_rows_per_hour :: nat where "max_usage_rows_per_hour = 512"

definition cost_is_i64 :: "usage_row \<Rightarrow> bool" where
  "cost_is_i64 r \<longleftrightarrow> (case row_source_cost_microusd r of None \<Rightarrow> True | Some v \<Rightarrow> digits_value v < 2 ^ 63)"

definition recompute_hour ::
  "bool \<Rightarrow> usage_agent \<Rightarrow> int \<Rightarrow> nat \<Rightarrow> usage_cache \<Rightarrow> store_error + bool \<times> usage_cache" where
  "recompute_hour group_by_project agent h version c =
     (case aggregate_hourly_facts (hour_events group_by_project agent h c) of
        Inl _ \<Rightarrow> Inl InvalidState
      | Inr facts \<Rightarrow>
          (case rbind (fold_project_dimension facts) (\<lambda>rows. fold_rows_into_other rows max_usage_rows_per_hour) of
             Inl _ \<Rightarrow> Inl InvalidState
           | Inr rows \<Rightarrow>
               let partial = list_ex (\<lambda>(a, _, s). a = agent \<and> s = h) (partial_sources c);
                   previous_partial = (case map_of (hourly_facts c) (agent, h) of None \<Rightarrow> False | Some hf \<Rightarrow> hour_partial hf);
                   previous_upload = fact_rows_at agent h c;
                   partial_changed = previous_partial \<noteq> partial
               in
               if local_facts_at agent h c = facts \<and> \<not> partial_changed then Inr (False, c)
               else if \<not> list_all (\<lambda>f. cost_is_i64 (fact_row f)) facts then Inl InvalidState
               else let kept = map (stored_fact agent) facts in
               if \<not> distinct (map fact_key kept) then Inl InvalidState
               else
                 let c = c\<lparr>hourly_facts := (if facts = [] then AList.delete (agent, h) (hourly_facts c)
                        else AList.update (agent, h) \<lparr>hour_rows = kept, hour_partial = partial, hour_version = version\<rparr>
                               (hourly_facts c))\<rparr>
                 in if previous_upload = rows \<and> \<not> partial_changed then Inr (False, c)
                    else Inr (True, c\<lparr>dirty_hours := AList.update (agent, h) (version, partial) (dirty_hours c)\<rparr>)))"

subsection \<open>A scan\<close>

record usage_source_scan =
  scan_append :: bool
  scan_file_id :: string
  scan_identity :: string
  scan_size :: nat
  scan_modified_ns :: nat
  scan_parser_revision :: string
  scan_parsed_offset :: nat
  scan_prefix_hash :: string
  scan_records :: "usage_event list"
  scan_record_keys :: "string list"
  scan_complete :: bool
  scan_invalid_timestamp :: bool
  scan_start_at :: string

record usage_scan =
  scan_sources :: "usage_source_scan list"
  scan_deleted :: "string list"
  scan_is_complete :: bool

definition source_record_key :: "usage_source_scan \<Rightarrow> nat \<Rightarrow> string" where
  "source_record_key s i =
     (if i < length (scan_record_keys s) \<and> scan_record_keys s ! i \<noteq> [] then scan_record_keys s ! i
      else ''record:'' @ decimal_string i)"

definition event_hour :: "externs \<Rightarrow> string \<Rightarrow> int option" where
  "event_hour x s = map_option (\<lambda>t. hour_of (t div 1000000)) (instant_of x s)"

definition insert_source_records ::
  "externs \<Rightarrow> (usage_event \<Rightarrow> nat) \<Rightarrow> usage_agent \<Rightarrow> usage_source_scan \<Rightarrow> int set \<times> usage_cache \<Rightarrow>
   store_error + int set \<times> usage_cache" where
  "insert_source_records x size_of agent s state =
     fold_r (\<lambda>(i, e) (hours, c).
       rbind (insert_record x size_of agent (scan_file_id s) (source_record_key s i) e c) (\<lambda>(h, c). Inr (insert h hours, c)))
       (enumerate 0 (scan_records s)) state"

definition remember_partial_progress :: "usage_agent \<Rightarrow> usage_source_scan \<Rightarrow> usage_cache \<Rightarrow> usage_cache" where
  "remember_partial_progress agent s c =
     (if scan_parsed_offset s = 0 \<or> scan_prefix_hash s = [] then c
      else c\<lparr>file_index := AList.update (agent, scan_file_id s)
        \<lparr>index_identity = scan_identity s, index_size = 0, index_modified_ns = 0,
         parser_revision = scan_parser_revision s, parsed_offset = scan_parsed_offset s,
         prefix_hash = scan_prefix_hash s\<rparr> (file_index c)\<rparr>)"

definition remember_source :: "usage_agent \<Rightarrow> usage_source_scan \<Rightarrow> usage_cache \<Rightarrow> usage_cache" where
  "remember_source agent s c =
     c\<lparr>file_index := AList.update (agent, scan_file_id s)
       \<lparr>index_identity = scan_identity s, index_size = scan_size s, index_modified_ns = scan_modified_ns s,
        parser_revision = scan_parser_revision s, parsed_offset = scan_parsed_offset s,
        prefix_hash = scan_prefix_hash s\<rparr> (file_index c)\<rparr>"

text \<open>A source that came up short merges what it found; a complete one replaces its records, or adds the
  appended tail to them. The set is the hours to recompute.\<close>

definition apply_source ::
  "externs \<Rightarrow> (usage_event \<Rightarrow> nat) \<Rightarrow> usage_agent \<Rightarrow> usage_source_scan \<Rightarrow> int set \<times> usage_cache \<Rightarrow>
   store_error + int set \<times> usage_cache" where
  "apply_source x size_of agent s = (\<lambda>(dirty, c).
     if \<not> scan_complete s
     then rbind (insert_source_records x size_of agent s ({}, c)) (\<lambda>(hours, c).
       let hours = (if scan_invalid_timestamp s then (case event_hour x (scan_start_at s) of None \<Rightarrow> hours | Some h \<Rightarrow> insert h hours)
                    else hours)
       in Inr (dirty \<union> hours, remember_partial_progress agent s (mark_partial_source_hours agent (scan_file_id s) hours c)))
     else
       let dirty = dirty \<union> partial_source_hours agent (scan_file_id s) c;
           c = delete_partial_sources agent (scan_file_id s) c;
           (dirty, c) = (if scan_append s then (dirty, c)
             else (dirty \<union> record_hours agent (scan_file_id s) c, delete_records agent (scan_file_id s) c))
       in rbind (insert_source_records x size_of agent s (dirty, c)) (\<lambda>(dirty, c). Inr (dirty, remember_source agent s c)))"

definition delete_source :: "usage_agent \<Rightarrow> string \<Rightarrow> int set \<times> usage_cache \<Rightarrow> int set \<times> usage_cache" where
  "delete_source agent file = (\<lambda>(dirty, c).
     (dirty \<union> record_hours agent file c,
      (delete_records agent file (delete_partial_sources agent file c))\<lparr>file_index := AList.delete (agent, file) (file_index c)\<rparr>))"

definition recompute_hours ::
  "bool \<Rightarrow> usage_agent \<Rightarrow> nat \<Rightarrow> int list \<Rightarrow> usage_cache \<Rightarrow> store_error + usage_cache" where
  "recompute_hours group_by_project agent version hours c =
     fold_r (\<lambda>h c. rbind (recompute_hour group_by_project agent h version c) (\<lambda>(_, c). Inr c)) hours c"

definition apply_usage_scan ::
  "externs \<Rightarrow> (usage_event \<Rightarrow> nat) \<Rightarrow> bool \<Rightarrow> usage_agent \<Rightarrow> usage_scan \<Rightarrow> nat \<Rightarrow> usage_cache \<Rightarrow> store_error + usage_cache" where
  "apply_usage_scan x size_of group_by_project agent scan version c =
     rbind (fold_r (apply_source x size_of agent) (scan_sources scan) ({}, c)) (\<lambda>state.
       let (dirty, c) = fold (delete_source agent) (scan_deleted scan) state in
       rbind (recompute_hours group_by_project agent version (sorted_list_of_set dirty) c) (\<lambda>c.
         Inr (if scan_is_complete scan then c\<lparr>rebuilding := False\<rparr> else c)))"

subsection \<open>The facts follow the records\<close>

text \<open>The facts of an hour are those of its records, up to the column of the agent.\<close>

definition facts_current :: "bool \<Rightarrow> usage_agent \<Rightarrow> int \<Rightarrow> usage_cache \<Rightarrow> bool" where
  "facts_current g a h c \<longleftrightarrow>
     (case aggregate_hourly_facts (hour_events g a h c) of
        Inl _ \<Rightarrow> False
      | Inr facts \<Rightarrow> mset (map (stored_fact a) (facts_at a h c)) = mset (map (stored_fact a) facts))"

text \<open>A source writes none of its records over one of another hour.\<close>

definition keeps_hours :: "externs \<Rightarrow> usage_agent \<Rightarrow> usage_cache \<Rightarrow> usage_source_scan \<Rightarrow> bool" where
  "keeps_hours x agent c s \<longleftrightarrow>
     list_all (\<lambda>(i, e). case map_of (file_records c) (agent, scan_file_id s, source_record_key s i) of
         None \<Rightarrow> True | Some r \<Rightarrow> event_hour x (ev_occurred_at e) = Some (hour_of (occurred_at r)))
       (enumerate 0 (scan_records s))"

definition replaces :: "usage_source_scan \<Rightarrow> bool" where
  "replaces s \<longleftrightarrow> scan_complete s \<and> \<not> scan_append s"

definition same_outside :: "usage_agent \<Rightarrow> int set \<Rightarrow> usage_cache \<Rightarrow> usage_cache \<Rightarrow> bool" where
  "same_outside agent D c c' \<longleftrightarrow> hourly_facts c' = hourly_facts c \<and>
     (\<forall>g a h. a \<noteq> agent \<or> h \<notin> D \<longrightarrow> hour_events g a h c' = hour_events g a h c)"

lemma same_outside_refl [simp]: "same_outside agent D c c"
  by (simp add: same_outside_def)

lemma same_outside_trans:
  "same_outside agent D c c' \<Longrightarrow> same_outside agent E c' c'' \<Longrightarrow> D \<subseteq> E \<Longrightarrow> same_outside agent E c c''"
  by (auto simp: same_outside_def)

lemma facts_at_same: "hourly_facts c' = hourly_facts c \<Longrightarrow> facts_at a h c' = facts_at a h c"
  by (simp add: facts_at_def)

lemma filter_update_other:
  assumes "\<not> P (k, v)" "\<And>u. map_of xs k = Some u \<Longrightarrow> \<not> P (k, u)"
  shows "filter P (AList.update k v xs) = filter P xs"
  using assms(2)
proof (induction xs)
  case (Cons e xs)
  then show ?case using assms(1) by (cases e) (auto split: if_splits)
qed (use assms in simp)

lemma insert_record_same:
  assumes "insert_record x size_of agent file key e c = Inr (h, c')"
    and "\<And>r. map_of (file_records c) (agent, file, key) = Some r \<Longrightarrow> hour_of (occurred_at r) = h \<or> hour_of (occurred_at r) \<in> D"
  shows "same_outside agent (insert h D) c c'" "event_hour x (ev_occurred_at e) = Some h"
    "\<exists>r. file_records c' = AList.update (agent, file, key) r (file_records c) \<and> hour_of (occurred_at r) = h"
proof -
  from assms(1) obtain t where t: "instant_of x (ev_occurred_at e) = Some t" "h = hour_of (t div 1000000)"
    "c' = c\<lparr>file_records := AList.update (agent, file, key) \<lparr>occurred_at = t div 1000000, event_json = e\<rparr> (file_records c)\<rparr>"
    by (auto simp: insert_record_def result_simps Let_def)
  then show "event_hour x (ev_occurred_at e) = Some h" by (simp add: event_hour_def)
  from t show "\<exists>r. file_records c' = AList.update (agent, file, key) r (file_records c) \<and> hour_of (occurred_at r) = h" by auto
  have "filter (\<lambda>((a, _, _), r). a = b \<and> hour_of (occurred_at r) = k)
      (AList.update (agent, file, key) \<lparr>occurred_at = t div 1000000, event_json = e\<rparr> (file_records c)) =
    filter (\<lambda>((a, _, _), r). a = b \<and> hour_of (occurred_at r) = k) (file_records c)" if "b \<noteq> agent \<or> k \<notin> insert h D" for b k
    by (rule filter_update_other) (use that assms(2) t(2) in auto)
  with t(3) show "same_outside agent (insert h D) c c'" by (auto simp: same_outside_def hour_events_def)
qed

lemma insert_records_same:
  assumes "fold_r (\<lambda>(i, e) (hours, c).
       rbind (insert_record x size_of agent file (key i) e c) (\<lambda>(h, c). Inr (insert h hours, c))) es (D, c) = Inr (D', c')"
    and "\<And>i e r. (i, e) \<in> set es \<Longrightarrow> map_of (file_records c) (agent, file, key i) = Some r \<Longrightarrow>
       event_hour x (ev_occurred_at e) = Some (hour_of (occurred_at r)) \<or> hour_of (occurred_at r) \<in> D"
  shows "D \<subseteq> D' \<and> same_outside agent D' c c' \<and> (finite D \<longrightarrow> finite D') \<and>
    (\<forall>f k. f \<noteq> file \<longrightarrow> map_of (file_records c') (agent, f, k) = map_of (file_records c) (agent, f, k))"
  using assms
proof (induction es arbitrary: D c)
  case (Cons ie es)
  obtain i e where ie: "ie = (i, e)" by (cases ie)
  from Cons.prems(1) obtain h c1 where one: "insert_record x size_of agent file (key i) e c = Inr (h, c1)"
    and rest: "fold_r (\<lambda>(i, e) (hours, c).
       rbind (insert_record x size_of agent file (key i) e c) (\<lambda>(h, c). Inr (insert h hours, c))) es (insert h D, c1) = Inr (D', c')"
    by (auto simp: ie result_simps split_paired_Ex)
  have "event_hour x (ev_occurred_at e) = Some h"
    using one by (auto simp: insert_record_def result_simps Let_def event_hour_def)
  then have old: "map_of (file_records c) (agent, file, key i) = Some r \<Longrightarrow> hour_of (occurred_at r) = h \<or> hour_of (occurred_at r) \<in> D" for r
    using Cons.prems(2) [of i e r] by (auto simp: ie)
  note ins = insert_record_same [OF one old]
  then obtain r where r: "file_records c1 = AList.update (agent, file, key i) r (file_records c)" "hour_of (occurred_at r) = h" by auto
  have "insert h D \<subseteq> D' \<and> same_outside agent D' c1 c' \<and> (finite (insert h D) \<longrightarrow> finite D') \<and>
      (\<forall>f k. f \<noteq> file \<longrightarrow> map_of (file_records c') (agent, f, k) = map_of (file_records c1) (agent, f, k))"
  proof (rule Cons.IH [OF rest])
    fix j d q
    assume j: "(j, d) \<in> set es" "map_of (file_records c1) (agent, file, key j) = Some q"
    then show "event_hour x (ev_occurred_at d) = Some (hour_of (occurred_at q)) \<or> hour_of (occurred_at q) \<in> insert h D"
      using r Cons.prems(2) [of j d q] by (auto simp: update_conv' ie split: if_splits)
  qed
  moreover have "map_of (file_records c1) (agent, f, k) = map_of (file_records c) (agent, f, k)" if "f \<noteq> file" for f k
    using that by (simp add: r(1) update_conv')
  ultimately show ?case using ins(1) by (auto intro: same_outside_trans [where D = "insert h D"])
qed simp

lemma cache_fields [simp]:
  "file_records (remember_partial_progress agent s c) = file_records c"
  "hourly_facts (remember_partial_progress agent s c) = hourly_facts c"
  "file_records (remember_source agent s c) = file_records c" "hourly_facts (remember_source agent s c) = hourly_facts c"
  "file_records (mark_partial_source_hours agent file hours c) = file_records c"
  "hourly_facts (mark_partial_source_hours agent file hours c) = hourly_facts c"
  "file_records (delete_partial_sources agent file c) = file_records c"
  "hourly_facts (delete_partial_sources agent file c) = hourly_facts c"
  "hourly_facts (delete_records agent file c) = hourly_facts c"
  by (simp_all add: remember_partial_progress_def remember_source_def mark_partial_source_hours_def
      delete_partial_sources_def delete_records_def)

lemma same_outside_records:
  "file_records c' = file_records c \<Longrightarrow> hourly_facts c' = hourly_facts c \<Longrightarrow> same_outside agent D c c'"
  by (simp add: same_outside_def hour_events_def)

lemma record_hours_iff: "h \<in> record_hours agent file c \<longleftrightarrow>
   (\<exists>k r. ((agent, file, k), r) \<in> set (file_records c) \<and> h = hour_of (occurred_at r))"
  by (auto simp: record_hours_def image_iff split_paired_Ex split_paired_All)

lemma finite_record_hours [simp]: "finite (record_hours agent file c)"
  by (simp add: record_hours_def)

lemma finite_partial_source_hours [simp]: "finite (partial_source_hours agent file c)"
  by (simp add: partial_source_hours_def)

lemma delete_records_same: "same_outside agent (record_hours agent file c) c (delete_records agent file c)"
  unfolding same_outside_def delete_records_def hour_events_def
  by (auto simp: record_hours_iff filter_filter intro!: arg_cong [where f = "map _"] filter_cong)

lemma map_of_delete_records:
  "map_of (file_records (delete_records agent file c)) (agent, f, k) =
     (if f = file then None else map_of (file_records c) (agent, f, k))"
proof -
  have "map_of (filter (\<lambda>((a, f, _), _). \<not> (a = agent \<and> f = file)) xs) (agent, f, k) =
      (if f = file then None else map_of xs (agent, f, k))" for xs :: "((usage_agent \<times> string \<times> string) \<times> stored_record) list"
    by (induction xs) auto
  then show ?thesis by (simp add: delete_records_def)
qed

lemma apply_source_same:
  assumes "apply_source x size_of agent s (D, c) = Inr (D', c')" "replaces s \<or> keeps_hours x agent c s"
  shows "D \<subseteq> D' \<and> same_outside agent D' c c' \<and> (finite D \<longrightarrow> finite D') \<and>
    (\<forall>f k. f \<noteq> scan_file_id s \<longrightarrow> map_of (file_records c') (agent, f, k) = map_of (file_records c) (agent, f, k))"
proof (cases "scan_complete s")
  case False
  then have keeps: "keeps_hours x agent c s" using assms(2) by (simp add: replaces_def)
  let ?hours = "\<lambda>H. if scan_invalid_timestamp s then (case event_hour x (scan_start_at s) of None \<Rightarrow> H | Some h \<Rightarrow> insert h H) else H"
  from False assms(1) obtain H c1 where ins: "insert_source_records x size_of agent s ({}, c) = Inr (H, c1)"
    and D': "D' = D \<union> ?hours H" and out: "file_records c' = file_records c1" "hourly_facts c' = hourly_facts c1"
    by (auto simp: apply_source_def result_simps Let_def split_paired_Ex)
  have "{} \<subseteq> H \<and> same_outside agent H c c1 \<and> (finite ({} :: int set) \<longrightarrow> finite H) \<and>
      (\<forall>f k. f \<noteq> scan_file_id s \<longrightarrow> map_of (file_records c1) (agent, f, k) = map_of (file_records c) (agent, f, k))"
    by (rule insert_records_same [OF ins [unfolded insert_source_records_def]])
      (use keeps in \<open>auto simp: keeps_hours_def list_all_iff split: option.splits\<close>)
  moreover have "same_outside agent D' c1 c'" using out by (rule same_outside_records)
  moreover have "D \<subseteq> D'" "H \<subseteq> D'" "finite D \<Longrightarrow> finite H \<Longrightarrow> finite D'" by (auto simp: D' split: option.splits)
  ultimately show ?thesis using out(1) by (auto intro: same_outside_trans [where D = H])
next
  case True
  define D1 where "D1 = D \<union> partial_source_hours agent (scan_file_id s) c"
  define c1 where "c1 = delete_partial_sources agent (scan_file_id s) c"
  define D2 where "D2 = (if scan_append s then D1 else D1 \<union> record_hours agent (scan_file_id s) c1)"
  define c2 where "c2 = (if scan_append s then c1 else delete_records agent (scan_file_id s) c1)"
  from True assms(1) obtain c3 where ins: "insert_source_records x size_of agent s (D2, c2) = Inr (D', c3)"
    and c': "c' = remember_source agent s c3"
    by (auto simp: apply_source_def result_simps Let_def D1_def c1_def D2_def c2_def split_paired_Ex split: if_splits)
  have "D2 \<subseteq> D' \<and> same_outside agent D' c2 c3 \<and> (finite D2 \<longrightarrow> finite D') \<and>
      (\<forall>f k. f \<noteq> scan_file_id s \<longrightarrow> map_of (file_records c3) (agent, f, k) = map_of (file_records c2) (agent, f, k))"
  proof (rule insert_records_same [OF ins [unfolded insert_source_records_def]])
    fix i e r
    assume e: "(i, e) \<in> set (enumerate 0 (scan_records s))"
      and r: "map_of (file_records c2) (agent, scan_file_id s, source_record_key s i) = Some r"
    from r have append: "scan_append s" by (auto simp: c2_def map_of_delete_records split: if_splits)
    with assms(2) True have "keeps_hours x agent c s" by (simp add: replaces_def)
    with e r append show "event_hour x (ev_occurred_at e) = Some (hour_of (occurred_at r)) \<or> hour_of (occurred_at r) \<in> D2"
      by (auto simp: keeps_hours_def list_all_iff c2_def c1_def split: option.splits)
  qed
  moreover have "same_outside agent D2 c c2"
  proof -
    have "same_outside agent D1 c c1" by (rule same_outside_records) (simp_all add: c1_def)
    moreover have "same_outside agent D2 c1 c2"
      using delete_records_same [of agent "scan_file_id s" c1] by (auto simp: c2_def D2_def same_outside_def)
    ultimately show ?thesis by (rule same_outside_trans) (simp add: D2_def)
  qed
  moreover have "map_of (file_records c2) (agent, f, k) = map_of (file_records c) (agent, f, k)" if "f \<noteq> scan_file_id s" for f k
    using that by (simp add: c2_def c1_def map_of_delete_records)
  moreover have "D \<subseteq> D2" "finite D \<Longrightarrow> finite D2" by (auto simp: D2_def D1_def)
  moreover have "same_outside agent D' c3 c'" by (rule same_outside_records) (simp_all add: c')
  ultimately show ?thesis by (auto simp: c' intro: same_outside_trans)
qed

lemma apply_sources_same:
  assumes "fold_r (apply_source x size_of agent) ss (D, c) = Inr (D', c')" "distinct (map scan_file_id ss)"
    and "\<And>s. s \<in> set ss \<Longrightarrow> replaces s \<or> keeps_hours x agent c s"
  shows "D \<subseteq> D' \<and> same_outside agent D' c c' \<and> (finite D \<longrightarrow> finite D')"
  using assms
proof (induction ss arbitrary: D c)
  case (Cons s ss)
  from Cons.prems(1) obtain D1 c1 where one: "apply_source x size_of agent s (D, c) = Inr (D1, c1)"
    and rest: "fold_r (apply_source x size_of agent) ss (D1, c1) = Inr (D', c')"
    by (auto simp: result_simps split_paired_Ex)
  have step: "D \<subseteq> D1 \<and> same_outside agent D1 c c1 \<and> (finite D \<longrightarrow> finite D1) \<and>
    (\<forall>f k. f \<noteq> scan_file_id s \<longrightarrow> map_of (file_records c1) (agent, f, k) = map_of (file_records c) (agent, f, k))"
    by (rule apply_source_same [OF one]) (use Cons.prems(3) in simp)
  have "keeps_hours x agent c1 t = keeps_hours x agent c t" if "t \<in> set ss" for t
  proof -
    have "scan_file_id t \<noteq> scan_file_id s" using that Cons.prems(2) by (metis distinct.simps(2) imageI list.simps(9) set_map)
    with step show ?thesis by (simp add: keeps_hours_def)
  qed
  then have "D1 \<subseteq> D' \<and> same_outside agent D' c1 c' \<and> (finite D1 \<longrightarrow> finite D')"
    using Cons.prems(2,3) by (intro Cons.IH [OF rest]) auto
  with step show ?case by (auto intro: same_outside_trans)
qed simp

lemma delete_sources_same:
  assumes "fold (delete_source agent) files (D, c) = (D', c')"
  shows "D \<subseteq> D' \<and> same_outside agent D' c c' \<and> (finite D \<longrightarrow> finite D')"
  using assms
proof (induction files arbitrary: D c)
  case (Cons f files)
  obtain D1 c1 where one: "delete_source agent f (D, c) = (D1, c1)" by (cases "delete_source agent f (D, c)")
  then have D1: "D1 = D \<union> record_hours agent f c"
    and c1: "c1 = (delete_records agent f (delete_partial_sources agent f c))\<lparr>file_index := AList.delete (agent, f) (file_index c)\<rparr>"
    by (auto simp: delete_source_def)
  have "same_outside agent D1 c c1"
    using delete_records_same [of agent f "delete_partial_sources agent f c"]
    by (simp add: same_outside_def c1 D1 record_hours_def hour_events_def)
  moreover have "D1 \<subseteq> D' \<and> same_outside agent D' c1 c' \<and> (finite D1 \<longrightarrow> finite D')"
    using Cons.prems one by (intro Cons.IH) simp
  ultimately show ?case by (auto simp: D1 intro: same_outside_trans)
qed simp

subsection \<open>Recomputing\<close>

lemma stored_fact_idem [simp]: "stored_fact a (stored_fact a f) = stored_fact a f"
  by (simp add: stored_fact_def)

lemma map_stored_idem [simp]: "map (stored_fact a) (map (stored_fact a) fs) = map (stored_fact a) fs"
  by (simp add: comp_def)

lemma recompute_hour_current:
  assumes "recompute_hour g agent h version c = Inr (b, c')"
  shows "facts_current g agent h c' \<and> file_records c' = file_records c \<and>
    (\<forall>a k. (a, k) \<noteq> (agent, h) \<longrightarrow> facts_at a k c' = facts_at a k c)"
proof -
  from assms obtain facts rows where facts: "aggregate_hourly_facts (hour_events g agent h c) = Inr facts"
    by (auto simp: recompute_hour_def split: sum.splits)
  have records: "file_records c' = file_records c"
    using assms facts by (auto simp: recompute_hour_def Let_def split: sum.splits if_splits)
  then have events: "hour_events g agent h c' = hour_events g agent h c" by (simp add: hour_events_def)
  have others: "facts_at a k c' = facts_at a k c" if "(a, k) \<noteq> (agent, h)" for a k
    using assms facts that
    by (auto simp: recompute_hour_def Let_def facts_at_def update_conv' delete_conv' split: sum.splits if_splits)
  have "mset (map (stored_fact agent) (facts_at agent h c')) = mset (map (stored_fact agent) facts)"
  proof (cases "local_facts_at agent h c = facts \<and> c' = c")
    case True
    then have "mset (facts_at agent h c') = mset facts" by (auto simp: local_facts_at_def)
    then show ?thesis by simp
  next
    case False
    then have "facts_at agent h c' = map (stored_fact agent) facts"
      using assms facts
      by (auto simp: recompute_hour_def Let_def facts_at_def update_conv' delete_conv' split: sum.splits if_splits)
    then show ?thesis by (simp only: map_stored_idem)
  qed
  with facts events records others show ?thesis by (auto simp: facts_current_def)
qed

lemma hour_events_same: "file_records c' = file_records c \<Longrightarrow> hour_events g a h c' = hour_events g a h c"
  by (simp add: hour_events_def)

lemma facts_current_same:
  "hour_events g a h c' = hour_events g a h c \<Longrightarrow> facts_at a h c' = facts_at a h c \<Longrightarrow> facts_current g a h c \<Longrightarrow>
   facts_current g a h c'"
  by (simp only: facts_current_def)

lemma recompute_hours_current:
  assumes "recompute_hours g agent version hs c = Inr c'"
  shows "file_records c' = file_records c \<and> (\<forall>h \<in> set hs. facts_current g agent h c') \<and>
    (\<forall>a h. a \<noteq> agent \<or> h \<notin> set hs \<longrightarrow> facts_at a h c' = facts_at a h c)"
  using assms
proof (induction hs arbitrary: c)
  case (Cons h hs)
  from Cons.prems obtain b c1 where one: "recompute_hour g agent h version c = Inr (b, c1)"
    and rest: "recompute_hours g agent version hs c1 = Inr c'"
    by (auto simp: recompute_hours_def result_simps split_paired_Ex)
  note step = recompute_hour_current [OF one] and IH = Cons.IH [OF rest]
  have "facts_current g agent h c'"
  proof (cases "h \<in> set hs")
    case False
    with IH have "facts_at agent h c' = facts_at agent h c1" "file_records c' = file_records c1" by auto
    then show ?thesis using step by (blast intro: facts_current_same hour_events_same)
  qed (use IH in simp)
  with step IH show ?case by auto
qed (simp add: recompute_hours_def)


definition empty_cache :: usage_cache where
  "empty_cache = \<lparr>file_records = [], partial_sources = [], file_index = [], hourly_facts = [], dirty_hours = [], rebuilding = True\<rparr>"

definition sample_scan :: usage_scan where
  "sample_scan = \<lparr>scan_sources = [\<lparr>scan_append = False, scan_file_id = ''file'', scan_identity = ''identity'', scan_size = 10,
       scan_modified_ns = 1, scan_parser_revision = ''1'', scan_parsed_offset = 10, scan_prefix_hash = ''hash'',
       scan_records = [sample_event], scan_record_keys = [], scan_complete = True, scan_invalid_timestamp = False,
       scan_start_at = ''1970-01-01T00:00:00Z''\<rparr>], scan_deleted = [], scan_is_complete = True\<rparr>"


text \<open>The hypothesis is needed: a source that comes up short and now holds, in the place of a record, one of another
  hour leaves the facts of the hour the record was in, which no record of the cache stands behind.\<close>

definition moved_times :: externs where
  "moved_times = sample_externs\<lparr>instant_of := (\<lambda>s. Some (if s = ''later'' then 7200000000000 else 0))\<rparr>"

definition short_scan :: usage_scan where
  "short_scan = sample_scan\<lparr>scan_sources := [(hd (scan_sources sample_scan))\<lparr>scan_complete := False,
     scan_records := [sample_event\<lparr>ev_occurred_at := ''later''\<rparr>]\<rparr>]\<rparr>"

theorem moved_record_leaves_its_hour:
  "case rbind (apply_usage_scan moved_times (\<lambda>_. 100) True usage_agent.Codex sample_scan 1 empty_cache)
       (apply_usage_scan moved_times (\<lambda>_. 100) True usage_agent.Codex short_scan 2) of
     Inl _ \<Rightarrow> False
   | Inr c' \<Rightarrow> hour_events True usage_agent.Codex 0 c' = [] \<and> facts_at usage_agent.Codex 0 c' \<noteq> [] \<and>
       facts_at usage_agent.Codex 0 c' = map (stored_fact usage_agent.Codex) (facts_at usage_agent.Codex 2 c')"
  by code_simp

end
