(* ===== verification/Usage_Upload.thy ===== *)
theory Usage_Upload
  imports Usage_Store
begin

text \<open>
  What sends the hours of the Usage cache to the Account (\<open>service/backend.rs\<close>, \<open>state/mod.rs\<close>,
  \<open>relay/mod.rs\<close>): the staging of dirty hours in the outbox, their sending in batches, and the identity the
  outbox belongs to. What the lemmas show: the size of a batch is that of the longest prefix that fits; a
  drain forgets only what was answered, refused or does not fit, and all of it; staging loses no hour; and
  an hour of more than 512 rows is forgotten unsent.
\<close>

declare split_paired_All [simp del] split_paired_Ex [simp del]

subsection \<open>Parameters\<close>

text \<open>The code beyond the program: chrono's printing, the order of the column's texts, serde's encoding and
  decoding.\<close>

record upload_externs =
  times :: externs
  auto_text :: "string \<Rightarrow> string"
    \<comment> \<open>\<open>to_rfc3339_opts(SecondsFormat::AutoSi, true)\<close> of a text that parses\<close>
  first_hour_from :: "string \<Rightarrow> int"
    \<comment> \<open>the first hour whose text is not below that of the text's own hour\<close>
  json_size :: "json \<Rightarrow> nat"
    \<comment> \<open>\<open>serde_json::to_vec(_).len()\<close>\<close>
  decode_row :: "json \<Rightarrow> usage_row option"
    \<comment> \<open>\<open>serde_json::from_value\<close> of a row\<close>

definition nanoseconds_per_hour :: int where "nanoseconds_per_hour = 3600000000000"

definition bucket_text :: "upload_externs \<Rightarrow> int \<Rightarrow> string" where
  "bucket_text p h = secs_text (times p) (h * 3600)"

subsection \<open>The outbox\<close>

type_synonym upload_identity = "string \<times> string \<times> nat"

record outbox_entry =
  entry_agent :: usage_agent
  entry_hour :: int
  entry_version :: nat
  entry_partial :: bool
  entry_rows :: "usage_row list"

type_synonym outbox_table = "((usage_agent \<times> int) \<times> upload_identity \<times> nat \<times> bool \<times> usage_row list) list"

definition entry_order :: "outbox_entry \<Rightarrow> int \<times> string" where
  "entry_order e = (entry_hour e, agent_str (entry_agent e))"

definition entry_of :: "(usage_agent \<times> int) \<times> upload_identity \<times> nat \<times> bool \<times> usage_row list \<Rightarrow> outbox_entry" where
  "entry_of = (\<lambda>((a, h), _, version, partial, rows).
     \<lparr>entry_agent = a, entry_hour = h, entry_version = version, entry_partial = partial, entry_rows = rows\<rparr>)"

definition read_outbox :: "upload_identity option \<Rightarrow> outbox_table \<Rightarrow> outbox_entry list" where
  "read_outbox scope ob =
     sort_key entry_order (map entry_of (filter (\<lambda>(_, i, _). case scope of None \<Rightarrow> True | Some s \<Rightarrow> i = s) ob))"

definition outbox_entries :: "outbox_table \<Rightarrow> outbox_entry list" where
  "outbox_entries ob = read_outbox None ob"

definition outbox_entries_for :: "upload_identity \<Rightarrow> outbox_table \<Rightarrow> outbox_entry list" where
  "outbox_entries_for i ob = read_outbox (Some i) ob"

definition outbox_len :: "outbox_table \<Rightarrow> nat" where "outbox_len ob = length ob"

definition forget_outbox_hours :: "upload_externs \<Rightarrow> usage_agent \<Rightarrow> string list \<Rightarrow> outbox_table \<Rightarrow> outbox_table" where
  "forget_outbox_hours p agent buckets ob = filter (\<lambda>((a, h), _). \<not> (a = agent \<and> bucket_text p h \<in> set buckets)) ob"

subsection \<open>What a request carries\<close>

definition row_json :: "usage_row \<Rightarrow> json" where
  "row_json r = JObj (
     [(''agent'', JStr (agent_str (row_agent r))), (''billing_channel'', JStr (channel_str (row_billing_channel r))),
      (''channel_source'', JStr (source_json (row_channel_source r))), (''model'', JStr (row_model r)),
      (''context_bucket'', JStr (context_str (row_context_bucket r))), (''service_tier'', JStr (row_service_tier r)),
      (''speed'', JStr (row_speed r)), (''inference_geo'', JStr (row_inference_geo r)),
      (''input_tokens'', JInt (int (row_input_tokens r))), (''cache_read_tokens'', JInt (int (row_cache_read_tokens r))),
      (''cache_write_5m_tokens'', JInt (int (row_cache_write_5m_tokens r))),
      (''cache_write_1h_tokens'', JInt (int (row_cache_write_1h_tokens r))),
      (''cache_write_inferred_tokens'', JInt (int (row_cache_write_inferred_tokens r))),
      (''output_tokens'', JInt (int (row_output_tokens r))), (''reasoning_tokens'', JInt (int (row_reasoning_tokens r))),
      (''requests'', JInt (int (row_requests r))), (''web_search_requests'', JInt (int (row_web_search_requests r))),
      (''web_fetch_requests'', JInt (int (row_web_fetch_requests r)))] @
     (case row_source_cost_microusd r of None \<Rightarrow> [] | Some v \<Rightarrow> [(''source_cost_microusd'', JStr v)]) @
     [(''source_cost_covered_requests'', JInt (int (row_source_cost_covered_requests r)))])"

definition without_null_cost :: "json \<Rightarrow> json" where
  "without_null_cost v =
     (case v of
        JObj members \<Rightarrow> if json_get ''source_cost_microusd'' v = Some JNull then JObj (AList.delete ''source_cost_microusd'' members) else v
      | _ \<Rightarrow> v)"

definition hour_json :: "upload_externs \<Rightarrow> outbox_entry \<Rightarrow> json" where
  "hour_json p e =
     JObj [(''bucket_start_utc'', JStr (bucket_text p (entry_hour e))), (''scan_version'', JInt (int (entry_version e))),
       (''partial'', JBool (entry_partial e)), (''rows'', JArr (map (\<lambda>r. without_null_cost (row_json r)) (entry_rows e)))]"

definition usage_upload :: "upload_externs \<Rightarrow> usage_agent \<Rightarrow> nat \<Rightarrow> outbox_entry list \<Rightarrow> json" where
  "usage_upload p agent generation hours =
     JObj [(''protocol_version'', JInt managed_data_protocol), (''generation'', JInt (int generation)),
       (''agent'', JStr (agent_str agent)), (''hours'', JArr (map (hour_json p) hours))]"

definition max_usage_hours_per_upload :: nat where "max_usage_hours_per_upload = 256"

definition upload_fits :: "upload_externs \<Rightarrow> usage_agent \<Rightarrow> nat \<Rightarrow> outbox_entry list \<Rightarrow> bool" where
  "upload_fits p agent generation hours \<longleftrightarrow>
     validate_usage_submission (times p) (decode_row p) (json_size p) (usage_upload p agent generation hours) = Inr ()"

function batch_search :: "(nat \<Rightarrow> bool) \<Rightarrow> nat \<Rightarrow> nat \<Rightarrow> nat" where
  "batch_search fits low high =
     (if low < high
      then let middle = low + (high - low + 1) div 2 in
           if fits middle then batch_search fits middle high else batch_search fits low (middle - 1)
      else low)"
  by pat_completeness auto
termination by (relation "measure (\<lambda>(_, low, high). high - low)") auto

declare batch_search.simps [simp del]

definition usage_upload_batch_size :: "upload_externs \<Rightarrow> usage_agent \<Rightarrow> nat \<Rightarrow> outbox_entry list \<Rightarrow> nat" where
  "usage_upload_batch_size p agent generation hours =
     (let fits = (\<lambda>count. upload_fits p agent generation (take count hours));
          high = min (length hours) max_usage_hours_per_upload
      in if high = 0 \<or> \<not> fits 1 then 0 else batch_search fits 1 high)"

subsection \<open>Hours and bounds\<close>

definition effective_usage_lower_bound :: "upload_externs \<Rightarrow> json \<Rightarrow> session_error + string" where
  "effective_usage_lower_bound p session_value =
     (case json_get ''usage_deleted_before'' session_value of
        Some JNull \<Rightarrow> Inr ''1970-01-01T00:00:00Z''
      | Some (JStr s) \<Rightarrow> if instant_of (times p) s = None then Inl Ordinary else Inr (auto_text p s)
      | _ \<Rightarrow> Inl Ordinary)"

definition ceil_utc_hour :: "upload_externs \<Rightarrow> string \<Rightarrow> session_error + int" where
  "ceil_utc_hour p s =
     (case instant_of (times p) s of
        None \<Rightarrow> Inl Ordinary
      | Some t \<Rightarrow> Inr (if t mod nanoseconds_per_hour = 0 then t div nanoseconds_per_hour else t div nanoseconds_per_hour + 1))"

definition floor_utc_hour :: "int \<Rightarrow> int" where "floor_utc_hour t = t div nanoseconds_per_hour"

definition max_staged_hours_per_refresh :: nat where "max_staged_hours_per_refresh = max_usage_hours_per_upload * 4"

definition dirty_in :: "int \<Rightarrow> int \<Rightarrow> usage_cache \<Rightarrow> ((usage_agent \<times> int) \<times> nat \<times> bool) list" where
  "dirty_in lower upper c = filter (\<lambda>((_, h), _). lower \<le> h \<and> h < upper) (dirty_hours c)"

definition dirty_usage_hour_batch :: "int \<Rightarrow> int \<Rightarrow> nat \<Rightarrow> usage_cache \<Rightarrow> outbox_entry list" where
  "dirty_usage_hour_batch lower upper limit c =
     map (\<lambda>((a, h), version, partial).
         \<lparr>entry_agent = a, entry_hour = h, entry_version = version, entry_partial = partial, entry_rows = fact_rows_at a h c\<rparr>)
       (take limit (sort_key (\<lambda>((a, h), _). (h, agent_str a)) (dirty_in lower upper c)))"

definition uploadable_dirty_hour_count :: "int \<Rightarrow> int \<Rightarrow> usage_cache \<Rightarrow> nat" where
  "uploadable_dirty_hour_count lower upper c = length (dirty_in lower upper c)"

definition forget_dirty_usage_hours_before :: "int \<Rightarrow> usage_cache \<Rightarrow> usage_cache" where
  "forget_dirty_usage_hours_before lower c = c\<lparr>dirty_hours := filter (\<lambda>((_, h), _). \<not> h < lower) (dirty_hours c)\<rparr>"

definition uploadable_hours :: "upload_externs \<Rightarrow> json option \<Rightarrow> int \<Rightarrow> usage_cache \<Rightarrow> nat" where
  "uploadable_hours p session_value now c =
     (let lower = (case session_value of
          None \<Rightarrow> 0
        | Some v \<Rightarrow> (case rbind (effective_usage_lower_bound p v) (ceil_utc_hour p) of Inl _ \<Rightarrow> 0 | Inr h \<Rightarrow> h))
      in uploadable_dirty_hour_count lower (floor_utc_hour now) c)"


subsection \<open>Staging\<close>

definition usage_upload_enabled :: "session_store \<Rightarrow> store_error + bool" where
  "usage_upload_enabled st =
     (case preferences st ''usage_upload_enabled'' of
        Some s \<Rightarrow> if s = ''1'' then Inr True else if s = ''0'' then Inr False else Inl InvalidState
      | None \<Rightarrow> Inl InvalidState)"

definition upload_target :: "json \<Rightarrow> upload_identity option" where
  "upload_target v =
     (case (str_member ''account_id'' v, str_member ''device_id'' v, Option.bind (json_get ''device_generation'' v) as_u64) of
        (Some account_id, Some device_id, Some generation) \<Rightarrow> Some (account_id, device_id, generation)
      | _ \<Rightarrow> None)"

text \<open>The outbox is written before the dirty marks are cleared; an entry past the size of a request fails
  the whole transaction.\<close>

definition stage_outbox_entries ::
  "upload_externs \<Rightarrow> upload_identity \<Rightarrow> outbox_entry list \<Rightarrow> usage_cache \<times> outbox_table \<Rightarrow>
   (usage_cache \<times> outbox_table) \<times> (store_error + bool)" where
  "stage_outbox_entries p i entries = (\<lambda>(c, ob).
     if fst i = [] \<or> fst (snd i) = [] \<or> snd (snd i) = 0 then ((c, ob), Inl InvalidState)
     else if entries = [] then ((c, ob), Inr False)
     else if list_ex (\<lambda>e. maximum_request_bytes < json_size p (JArr (map row_json (entry_rows e)))) entries
     then ((c, ob), Inl InvalidState)
     else ((c\<lparr>dirty_hours := filter (\<lambda>(key, version, _).
              \<not> list_ex (\<lambda>e. key = (entry_agent e, entry_hour e) \<and> version \<le> entry_version e) entries) (dirty_hours c)\<rparr>,
            fold (\<lambda>e. AList.update (entry_agent e, entry_hour e) (i, entry_version e, entry_partial e, entry_rows e)) entries ob),
           Inr True))"

text \<open>The second store is the one the session is checked in once the hours have been read.\<close>

definition stage_outbox ::
  "upload_externs \<Rightarrow> int \<Rightarrow> session_store \<Rightarrow> session_store \<Rightarrow> usage_cache \<times> outbox_table \<Rightarrow>
   (usage_cache \<times> outbox_table) \<times> (session_error + bool)" where
  "stage_outbox p now st later = (\<lambda>(c, ob).
     case usage_upload_enabled st of
       Inl _ \<Rightarrow> ((c, ob), Inl Ordinary)
     | Inr False \<Rightarrow> ((c, ob), Inr False)
     | Inr True \<Rightarrow> (case session_snapshot st of
         Inl _ \<Rightarrow> ((c, ob), Inl Ordinary)
       | Inr None \<Rightarrow> ((c, ob), Inr False)
       | Inr (Some (v, e)) \<Rightarrow>
           if \<not> is_active_session v then ((c, ob), Inr False)
           else (case upload_target v of
             None \<Rightarrow> ((c, ob), Inl Ordinary)
           | Some i \<Rightarrow> (case rbind (effective_usage_lower_bound p v) (ceil_utc_hour p) of
               Inl err \<Rightarrow> ((c, ob), Inl err)
             | Inr lower \<Rightarrow>
                 let c = forget_dirty_usage_hours_before lower c;
                     entries = dirty_usage_hour_batch lower (floor_utc_hour now) max_staged_hours_per_refresh c
                 in if entries = [] then ((c, ob), Inr False)
                    else if \<not> active_session_at_epoch e later then ((c, ob), Inl SessionChanged)
                    else (case usage_upload_enabled later of
                      Inl _ \<Rightarrow> ((c, ob), Inl Ordinary)
                    | Inr False \<Rightarrow> ((c, ob), Inr False)
                    | Inr True \<Rightarrow> (case stage_outbox_entries p i entries (c, ob) of
                        (state, Inl _) \<Rightarrow> (state, Inl Ordinary) | (state, Inr staged) \<Rightarrow> (state, Inr staged)))))))"

subsection \<open>Sending\<close>

definition is_payload_refusal :: "relay_error \<Rightarrow> bool" where
  "is_payload_refusal err \<longleftrightarrow> err = Rejected ''invalid_request'' 400"

definition relay_requires_login :: "relay_error \<Rightarrow> bool" where
  "relay_requires_login err \<longleftrightarrow>
     (case err of
        AuthenticationRequired \<Rightarrow> True
      | Rejected code _ \<Rightarrow> code \<in> {''invalid_grant'', ''unauthorized'', ''invalid_token'', ''expired_token'', ''access_denied'',
          ''deleted'', ''stale_generation''}
      | _ \<Rightarrow> False)"

definition named_buckets :: "json \<Rightarrow> string list" where
  "named_buckets submission = List.map_filter (str_member ''bucket_start_utc'') (members_of ''hours'' submission)"

definition client_upload_usage :: "upload_externs \<Rightarrow> (json \<Rightarrow> relay_error + json) \<Rightarrow> json \<Rightarrow> relay_error + json" where
  "client_upload_usage p put submission =
     rbind (validate_usage_submission (times p) (decode_row p) (json_size p) submission) (\<lambda>_.
     rbind (put submission) (\<lambda>response.
     rbind (ensure (validate_upload_response response (named_buckets submission)) InvalidResponse) (\<lambda>_. Inr response)))"

definition account_upload_usage ::
  "upload_externs \<Rightarrow> int \<Rightarrow> (string \<Rightarrow> relay_answer) \<Rightarrow> (string \<Rightarrow> json \<Rightarrow> relay_error + json) \<Rightarrow> json \<Rightarrow>
   session_store \<Rightarrow> session_store \<times> (session_error + json)" where
  "account_upload_usage p now refresh put submission st =
     (case session_snapshot st of
        Inl _ \<Rightarrow> (st, Inl Ordinary)
      | Inr None \<Rightarrow> (st, Inl SessionChanged)
      | Inr (Some held) \<Rightarrow>
          if \<not> is_active_session (fst held) then (st, Inl SessionChanged)
          else if Option.bind (json_get ''device_generation'' (fst held)) as_u64 \<noteq>
                  Option.bind (json_get ''generation'' submission) as_u64 then (st, Inl SessionChanged)
          else (case ensure_fresh_session (times p) now refresh held st of
            (st', Inl err) \<Rightarrow> (st', Inl err)
          | (st', Inr (token, _, e)) \<Rightarrow>
              (st', case client_upload_usage p (put token) submission of
                 Inr response \<Rightarrow> Inr response
               | Inl err \<Rightarrow> Inl (if is_payload_refusal err then PayloadRefused
                   else relay_backend_error (relay_requires_login err) e))))"

text \<open>One agent's hours. The account's upload is an argument, and what others do to the store meanwhile is
  part of what it does.\<close>

datatype drain_flow = Failed session_error | Returned bool bool | Continues bool bool

definition answered_buckets :: "json \<Rightarrow> string list" where
  "answered_buckets response = List.map_filter as_str (members_of ''accepted'' response @ members_of ''ignored'' response)"

type_synonym account_upload = "json \<Rightarrow> session_store \<Rightarrow> session_store \<times> (session_error + json)"

function drain_agent ::
  "upload_externs \<Rightarrow> account_upload \<Rightarrow> string \<Rightarrow> nat \<Rightarrow> usage_agent \<Rightarrow> outbox_entry list \<Rightarrow> bool \<Rightarrow> bool \<Rightarrow>
   session_store \<Rightarrow> outbox_table \<Rightarrow> (session_store \<times> outbox_table) \<times> drain_flow" where
  "drain_agent p upload device_id generation agent remaining accepted quarantined st ob =
     (if remaining = [] then ((st, ob), Continues accepted quarantined)
      else case usage_upload_enabled st of
        Inl _ \<Rightarrow> ((st, ob), Failed Ordinary)
      | Inr False \<Rightarrow> ((st, ob), Returned accepted quarantined)
      | Inr True \<Rightarrow>
          let taken = usage_upload_batch_size p agent generation remaining in
          if taken = 0
          then drain_agent p upload device_id generation agent (tl remaining) accepted quarantined st
                 (forget_outbox_hours p agent [bucket_text p (entry_hour (hd remaining))] ob)
          else let batch = take taken remaining in
            case upload (usage_upload p agent generation batch) st of
              (st', Inl err) \<Rightarrow>
                if err = PayloadRefused
                then drain_agent p upload device_id generation agent (drop taken remaining) accepted True st'
                       (forget_outbox_hours p agent (map (\<lambda>e. bucket_text p (entry_hour e)) batch) ob)
                else ((st', ob), Failed err)
            | (st', Inr response) \<Rightarrow>
                if str_member ''device_id'' response \<noteq> Some device_id \<or>
                   Option.bind (json_get ''device_generation'' response) as_u64 \<noteq> Some generation
                then ((st', ob), Failed Ordinary)
                else drain_agent p upload device_id generation agent (drop taken remaining)
                       (accepted \<or> members_of ''accepted'' response \<noteq> []) quarantined st'
                       (forget_outbox_hours p agent (answered_buckets response) ob))"
  by pat_completeness auto
termination by (relation "measure (\<lambda>(_, _, _, _, _, remaining, _). length remaining)") auto

declare drain_agent.simps [simp del]

fun drain_agents ::
  "upload_externs \<Rightarrow> account_upload \<Rightarrow> string \<Rightarrow> nat \<Rightarrow> outbox_entry list \<Rightarrow> usage_agent list \<Rightarrow> bool \<Rightarrow> bool \<Rightarrow>
   session_store \<Rightarrow> outbox_table \<Rightarrow> (session_store \<times> outbox_table) \<times> drain_flow" where
  "drain_agents p upload device_id generation entries [] accepted quarantined st ob = ((st, ob), Continues accepted quarantined)"
| "drain_agents p upload device_id generation entries (agent # agents) accepted quarantined st ob =
     (case drain_agent p upload device_id generation agent (filter (\<lambda>e. entry_agent e = agent) entries) accepted quarantined st ob of
        ((st', ob'), Continues a q) \<Rightarrow> drain_agents p upload device_id generation entries agents a q st' ob'
      | stopped \<Rightarrow> stopped)"

definition drain_outbox ::
  "upload_externs \<Rightarrow> account_upload \<Rightarrow> session_store \<Rightarrow> outbox_table \<Rightarrow>
   (session_store \<times> outbox_table) \<times> (session_error + bool \<times> bool)" where
  "drain_outbox p upload st ob =
     (case usage_upload_enabled st of
        Inl _ \<Rightarrow> ((st, ob), Inl Ordinary)
      | Inr False \<Rightarrow> ((st, ob), Inr (False, False))
      | Inr True \<Rightarrow> (case session_snapshot st of
          Inl _ \<Rightarrow> ((st, ob), Inl Ordinary)
        | Inr None \<Rightarrow> ((st, ob), Inr (False, False))
        | Inr (Some (v, e)) \<Rightarrow>
            if \<not> is_active_session v \<or> \<not> active_session_at_epoch e st then ((st, ob), Inr (False, False))
            else (case upload_target v of
              None \<Rightarrow> ((st, ob), Inl Ordinary)
            | Some i \<Rightarrow>
                let entries = outbox_entries_for i ob in
                case drain_agents p upload (fst (snd i)) (snd (snd i)) entries (sort (remdups (map entry_agent entries))) False False st ob of
                  (state, Failed err) \<Rightarrow> (state, Inl err)
                | (state, Returned a q) \<Rightarrow> (state, Inr (a, q))
                | (state, Continues a q) \<Rightarrow> (state, Inr (a, q)))))"

subsection \<open>The identity of the outbox\<close>

record upload_store =
  outbox :: outbox_table
  upload_context :: "(upload_identity \<times> nat \<times> string) option"

definition ensure_usage_context ::
  "upload_externs \<Rightarrow> upload_identity \<Rightarrow> nat \<Rightarrow> string \<Rightarrow> usage_cache \<times> upload_store \<Rightarrow> store_error + usage_cache \<times> upload_store" where
  "ensure_usage_context p i sync_revision lower_bound = (\<lambda>(c, u).
     if instant_of (times p) lower_bound = None \<or> fst i = [] \<or> fst (snd i) = [] \<or> snd (snd i) = 0 then Inl InvalidState
     else if upload_context u = Some (i, sync_revision, auto_text p lower_bound)
     then Inr (c, u\<lparr>outbox := filter (\<lambda>(_, j, _). j = i) (outbox u)\<rparr>)
     else Inr (c\<lparr>dirty_hours := map (\<lambda>(key, hf). (key, hour_version hf, hour_partial hf))
                   (filter (\<lambda>((_, h), _). first_hour_from p lower_bound \<le> h) (hourly_facts c))\<rparr>,
               u\<lparr>outbox := [], upload_context := Some (i, sync_revision, auto_text p lower_bound)\<rparr>))"

text \<open>The revision of a scan.\<close>

definition usage_scan_version_key :: string where "usage_scan_version_key = ''usage_scan_version''"

definition next_usage_scan_version :: "session_store \<Rightarrow> session_store \<times> nat" where
  "next_usage_scan_version st =
     (let current = (case Option.bind (preferences st usage_scan_version_key) (parse_integer 0 (2 ^ 64 - 1)) of
          None \<Rightarrow> 0 | Some v \<Rightarrow> nat v);
          next_version = min (current + 1) (2 ^ 64 - 1)
      in (st\<lparr>preferences := (preferences st)(usage_scan_version_key \<mapsto> decimal_string next_version)\<rparr>, next_version))"

subsection \<open>The size of a batch\<close>

lemma batch_search_step:
  "low < high \<Longrightarrow> batch_search fits low high =
     (if fits (low + (high - low + 1) div 2) then batch_search fits (low + (high - low + 1) div 2) high
      else batch_search fits low (low + (high - low + 1) div 2 - 1))"
  by (simp add: batch_search.simps [of fits low high] Let_def)

lemma batch_search_done [simp]: "batch_search fits n n = n"
  by (simp add: batch_search.simps)

lemma batch_search_longest:
  assumes "\<And>m n. m \<le> n \<Longrightarrow> fits n \<Longrightarrow> fits m" "fits low" "low \<le> high"
  shows "batch_search fits low high \<le> high \<and> fits (batch_search fits low high) \<and>
    (\<forall>n \<le> high. fits n \<longrightarrow> n \<le> batch_search fits low high)"
  using assms
proof (induction fits low high rule: batch_search.induct)
  case (1 fits low high)
  let ?middle = "low + (high - low + 1) div 2"
  show ?case
  proof (cases "low < high")
    case True
    then have middle: "low < ?middle" "?middle \<le> high" by auto
    show ?thesis
    proof (cases "fits ?middle")
      case fits: True
      have "batch_search fits ?middle high \<le> high \<and> fits (batch_search fits ?middle high) \<and>
        (\<forall>n \<le> high. fits n \<longrightarrow> n \<le> batch_search fits ?middle high)"
      proof (rule 1(1) [OF True refl fits])
        show "fits m" if "m \<le> n" "fits n" for m n using that by (rule 1(3))
      qed (use fits middle in auto)
      with fits True show ?thesis by (simp add: batch_search_step)
    next
      case False
      have "batch_search fits low (?middle - 1) \<le> ?middle - 1 \<and> fits (batch_search fits low (?middle - 1)) \<and>
        (\<forall>n \<le> ?middle - 1. fits n \<longrightarrow> n \<le> batch_search fits low (?middle - 1))"
      proof (rule 1(2) [OF True refl False])
        show "fits m" if "m \<le> n" "fits n" for m n using that by (rule 1(3))
        show "fits low" by (rule 1(4))
        have "l < m \<Longrightarrow> l \<le> m - 1" for l m :: nat by arith
        with middle(1) show "low \<le> ?middle - 1" by blast
      qed
      moreover have "n \<le> ?middle - 1" if "fits n" for n
      proof -
        have "n < ?middle"
        proof (rule ccontr)
          assume "\<not> n < ?middle"
          then have "?middle \<le> n" by (rule leI)
          from 1(3) [OF this that] False show False by contradiction
        qed
        moreover have "n < m \<Longrightarrow> n \<le> m - 1" for m :: nat by arith
        ultimately show ?thesis by blast
      qed
      moreover have "?middle - 1 \<le> high" using middle(2) by simp
      ultimately show ?thesis unfolding batch_search_step [OF True] if_not_P [OF False] by (blast intro: le_trans)
    qed
  qed (use 1 in auto)
qed

lemma upload_fits_iff:
  "upload_fits p agent generation hours \<longleftrightarrow>
     json_size p (usage_upload p agent generation hours) \<le> maximum_request_bytes \<and>
     safe_positive_u64 (JInt (int generation)) \<noteq> None \<and> length hours \<le> 256 \<and>
     (\<forall>e \<in> set hours. validate_usage_hour (times p) (decode_row p) (hour_json p e) (agent_str agent) \<noteq> None) \<and>
     distinct (map (\<lambda>e. validate_usage_hour (times p) (decode_row p) (hour_json p e) (agent_str agent)) hours)"
  by (simp add: upload_fits_def validate_usage_submission_def result_simps validate_bounded_json_def usage_upload_def
      is_object_def protocol_is_def has_member_def str_member_def Let_def comp_def list_all_iff managed_data_protocol_def)

lemma upload_fits_take:
  assumes "upload_fits p agent generation (take n hours)" "m \<le> n"
    and "json_size p (usage_upload p agent generation (take m hours)) \<le> json_size p (usage_upload p agent generation (take n hours))"
  shows "upload_fits p agent generation (take m hours)"
proof -
  have "take m hours = take m (take n hours)" using assms(2) by (simp add: min_def)
  then have "set (take m hours) \<subseteq> set (take n hours)" "map f (take m hours) = take m (map f (take n hours))" for f :: "outbox_entry \<Rightarrow> string option"
    by (metis set_take_subset, metis take_map)
  with assms show ?thesis by (auto simp: upload_fits_iff intro: distinct_take)
qed

text \<open>C22: The size of a batch is that of the longest run of hours from the first that fits a request, given that
  more hours encode to no fewer bytes.\<close>

theorem batch_is_longest_prefix:
  assumes "\<And>m n. m \<le> n \<Longrightarrow> json_size p (usage_upload p agent generation (take m hours)) \<le>
      json_size p (usage_upload p agent generation (take n hours))"
    and "1 \<le> n" "n \<le> length hours"
  shows "upload_fits p agent generation (take n hours) \<longleftrightarrow> n \<le> usage_upload_batch_size p agent generation hours"
proof -
  let ?fits = "\<lambda>n. upload_fits p agent generation (take n hours)" and ?high = "min (length hours) max_usage_hours_per_upload"
  have mono: "?fits n \<Longrightarrow> ?fits m" if "m \<le> n" for m n using that assms(1) by (blast intro: upload_fits_take)
  have high: "n \<le> ?high" if "?fits n" "n \<le> length hours" for n
    using that by (auto simp: upload_fits_iff max_usage_hours_per_upload_def)
  show ?thesis
  proof (cases "?fits 1")
    case True
    then have size: "usage_upload_batch_size p agent generation hours = batch_search ?fits 1 ?high"
      using assms(2,3) by (auto simp: usage_upload_batch_size_def max_usage_hours_per_upload_def Let_def)
    have "batch_search ?fits 1 ?high \<le> ?high \<and> ?fits (batch_search ?fits 1 ?high) \<and> (\<forall>n \<le> ?high. ?fits n \<longrightarrow> n \<le> batch_search ?fits 1 ?high)"
      by (rule batch_search_longest) (use mono True high [of 1] assms(2,3) in auto)
    with mono high assms(3) show ?thesis unfolding size by blast
  next
    case False
    then have "usage_upload_batch_size p agent generation hours = 0" by (simp add: usage_upload_batch_size_def Let_def)
    with False mono [of 1 n] assms(2) show ?thesis by auto
  qed
qed

subsection \<open>What a drain forgets\<close>

definition entry_texts :: "upload_externs \<Rightarrow> outbox_entry list \<Rightarrow> string list" where
  "entry_texts p entries = map (\<lambda>e. bucket_text p (entry_hour e)) entries"

lemma entry_texts_simps [simp]:
  "entry_texts p [] = []" "entry_texts p (e # es) = bucket_text p (entry_hour e) # entry_texts p es"
  "entry_texts p (es @ fs) = entry_texts p es @ entry_texts p fs"
  by (simp_all add: entry_texts_def)

lemma named_buckets_upload [simp]: "named_buckets (usage_upload p agent generation batch) = entry_texts p batch"
  by (simp add: named_buckets_def usage_upload_def members_of_def entry_texts_def)
    (induction batch; simp add: hour_json_def str_member_def map_filter_simps)

lemma answered_all:
  assumes "validate_upload_response response named"
  shows "set named \<subseteq> set (answered_buckets response)"
proof -
  have "List.map_filter as_str ws = map (\<lambda>w. the (as_str w)) ws" if "list_all (\<lambda>w. as_str w \<noteq> None) ws" for ws
    using that by (induction ws) (auto simp: map_filter_simps)
  with assms show ?thesis
    by (auto simp: validate_upload_response_def answered_names_def answered_buckets_def members_of_def
        split: option.splits if_splits)
qed

lemma forget_outbox_iff: "((a, h), v) \<in> set (forget_outbox_hours p agent buckets ob) \<longleftrightarrow>
   ((a, h), v) \<in> set ob \<and> \<not> (a = agent \<and> bucket_text p h \<in> set buckets)"
  by (auto simp: forget_outbox_hours_def)

text \<open>An hour is settled when it does not fit a request alone, when Relay refused a request that carries it,
  or when Relay answered for it.\<close>

definition settled :: "upload_externs \<Rightarrow> account_upload \<Rightarrow> nat \<Rightarrow> usage_agent \<Rightarrow> outbox_entry list \<Rightarrow> string \<Rightarrow> bool" where
  "settled p upload generation agent entries bucket \<longleftrightarrow>
     (\<exists>e \<in> set entries. bucket_text p (entry_hour e) = bucket \<and> \<not> upload_fits p agent generation [e]) \<or>
     (\<exists>batch st st'. set batch \<subseteq> set entries \<and> bucket \<in> set (entry_texts p batch) \<and>
        upload (usage_upload p agent generation batch) st = (st', Inl PayloadRefused)) \<or>
     (\<exists>batch st st' response. set batch \<subseteq> set entries \<and> bucket \<in> set (answered_buckets response) \<and>
        upload (usage_upload p agent generation batch) st = (st', Inr response))"

lemma batch_search_positive: "1 \<le> low \<Longrightarrow> 1 \<le> batch_search fits low high"
proof (induction fits low high rule: batch_search.induct)
  case (1 fits low high)
  have "n < m \<Longrightarrow> n \<le> m - 1" for n m :: nat by arith
  then show ?case using 1 by (subst batch_search.simps) (auto simp: Let_def)
qed

lemma batch_size_0:
  assumes "hours \<noteq> []" "usage_upload_batch_size p agent generation hours = 0"
  shows "\<not> upload_fits p agent generation [hd hours]"
proof
  assume "upload_fits p agent generation [hd hours]"
  with assms(1) have "upload_fits p agent generation (take 1 hours)" "(min (length hours) max_usage_hours_per_upload = 0) = False"
    by (cases hours; auto simp: max_usage_hours_per_upload_def)+
  then have "usage_upload_batch_size p agent generation hours =
      batch_search (\<lambda>n. upload_fits p agent generation (take n hours)) 1 (min (length hours) max_usage_hours_per_upload)"
    unfolding usage_upload_batch_size_def Let_def by (simp only: simp_thms if_False)
  with assms(2) batch_search_positive [of 1 "\<lambda>n. upload_fits p agent generation (take n hours)"
      "min (length hours) max_usage_hours_per_upload"] show False by linarith
qed

lemma drain_agent_cases:
  assumes "drain_agent p upload device_id generation agent remaining accepted quarantined st ob = ((st', ob'), flow)"
  obtains
    (Done) "remaining = []" "st' = st" "ob' = ob" "flow = Continues accepted quarantined"
  | (Off) "remaining \<noteq> []" "usage_upload_enabled st \<noteq> Inr True" "ob' = ob" "\<forall>a q. flow \<noteq> Continues a q"
  | (Fails) outcome where "remaining \<noteq> []" "ob' = ob" "\<forall>a q. flow \<noteq> Continues a q \<and> flow \<noteq> Returned a q"
      "upload (usage_upload p agent generation (take (usage_upload_batch_size p agent generation remaining) remaining)) st = (st', outcome)"
  | (Skips) "remaining \<noteq> []" "usage_upload_enabled st = Inr True" "usage_upload_batch_size p agent generation remaining = 0"
      "drain_agent p upload device_id generation agent (tl remaining) accepted quarantined st
         (forget_outbox_hours p agent [bucket_text p (entry_hour (hd remaining))] ob) = ((st', ob'), flow)"
  | (Refused) n st1 where "remaining \<noteq> []" "usage_upload_enabled st = Inr True" "n = usage_upload_batch_size p agent generation remaining"
      "n \<noteq> 0" "upload (usage_upload p agent generation (take n remaining)) st = (st1, Inl PayloadRefused)"
      "drain_agent p upload device_id generation agent (drop n remaining) accepted True st1
         (forget_outbox_hours p agent (entry_texts p (take n remaining)) ob) = ((st', ob'), flow)"
  | (Answered) n st1 response where "remaining \<noteq> []" "usage_upload_enabled st = Inr True"
      "n = usage_upload_batch_size p agent generation remaining" "n \<noteq> 0"
      "upload (usage_upload p agent generation (take n remaining)) st = (st1, Inr response)"
      "drain_agent p upload device_id generation agent (drop n remaining) (accepted \<or> members_of ''accepted'' response \<noteq> [])
         quarantined st1 (forget_outbox_hours p agent (answered_buckets response) ob) = ((st', ob'), flow)"
proof -
  let ?n = "usage_upload_batch_size p agent generation remaining"
  note run = assms [unfolded drain_agent.simps [of p upload device_id generation agent remaining]]
  consider "remaining = []" | "remaining \<noteq> []" "usage_upload_enabled st \<noteq> Inr True"
    | "remaining \<noteq> []" "usage_upload_enabled st = Inr True" "?n = 0"
    | "remaining \<noteq> []" "usage_upload_enabled st = Inr True" "?n \<noteq> 0" by blast
  then show thesis
  proof cases
    case 1
    with run Done show thesis by auto
  next
    case 2
    with run Off show thesis by (auto split: sum.splits bool.splits)
  next
    case 3
    with run Skips show thesis by (auto simp: Let_def)
  next
    case 4
    obtain st1 outcome where up: "upload (usage_upload p agent generation (take ?n remaining)) st = (st1, outcome)" by fastforce
    show thesis
    proof (cases outcome)
      case (Inl err)
      with run 4 up Fails Refused show thesis by (cases "err = PayloadRefused") (auto simp: Let_def entry_texts_def)
    next
      case (Inr response)
      show thesis
      proof (cases "str_member ''device_id'' response \<noteq> Some device_id \<or>
          Option.bind (json_get ''device_generation'' response) as_u64 \<noteq> Some generation")
        case True
        with run 4 up Inr Fails show thesis by (auto simp: Let_def)
      next
        case False
        with run 4 up Inr have "drain_agent p upload device_id generation agent (drop ?n remaining)
            (accepted \<or> members_of ''accepted'' response \<noteq> []) quarantined st1
            (forget_outbox_hours p agent (answered_buckets response) ob) = ((st', ob'), flow)" by (simp add: Let_def)
        with 4 up Inr Answered show thesis by blast
      qed
    qed
  qed
qed

definition forgets_settled :: "upload_externs \<Rightarrow> (string \<Rightarrow> bool) \<Rightarrow> usage_agent \<Rightarrow> outbox_table \<Rightarrow> outbox_table \<Rightarrow> bool" where
  "forgets_settled p is_settled agent ob ob' \<longleftrightarrow> set ob' \<subseteq> set ob \<and>
     (\<forall>a h v. ((a, h), v) \<in> set ob \<and> ((a, h), v) \<notin> set ob' \<longrightarrow> a = agent \<and> is_settled (bucket_text p h))"

lemma forgets_nothing [simp]: "forgets_settled p is_settled agent ob ob"
  by (simp add: forgets_settled_def)

lemma forgets_step:
  assumes "forgets_settled p is_settled agent (forget_outbox_hours p agent buckets ob) ob'" "\<And>b. b \<in> set buckets \<Longrightarrow> is_settled b"
  shows "forgets_settled p is_settled agent ob ob'"
  unfolding forgets_settled_def
proof (intro conjI allI impI)
  show "set ob' \<subseteq> set ob"
    using assms(1) by (auto simp: forgets_settled_def forget_outbox_hours_def)
  fix a h v
  assume "((a, h), v) \<in> set ob \<and> ((a, h), v) \<notin> set ob'"
  then have gone: "((a, h), v) \<in> set ob" "((a, h), v) \<notin> set ob'" by blast+
  have "a = agent \<and> is_settled (bucket_text p h)"
  proof (cases "((a, h), v) \<in> set (forget_outbox_hours p agent buckets ob)")
    case True
    with gone assms(1) show ?thesis unfolding forgets_settled_def by blast
  next
    case False
    with gone have "a = agent" "bucket_text p h \<in> set buckets" by (auto simp: forget_outbox_iff)
    with assms(2) show ?thesis by blast
  qed
  then show "a = agent" "is_settled (bucket_text p h)" by blast+
qed

lemma drain_agent_settles:
  assumes "drain_agent p upload device_id generation agent remaining accepted quarantined st ob = ((st', ob'), flow)"
    and "set remaining \<subseteq> set entries"
  shows "forgets_settled p (settled p upload generation agent entries) agent ob ob'"
  using assms
proof (induction "length remaining" arbitrary: remaining accepted quarantined st ob rule: less_induct)
  case less
  from less.prems(1) show ?case
  proof (cases rule: drain_agent_cases)
    case Skips
    have hd: "hd remaining \<in> set entries" and tl: "set (tl remaining) \<subseteq> set entries"
      using Skips(1) less.prems(2) by (cases remaining; auto)+
    from hd batch_size_0 [OF Skips(1,3)] have "settled p upload generation agent entries (bucket_text p (entry_hour (hd remaining)))"
      unfolding settled_def by blast
    then show ?thesis using Skips(1) by (intro forgets_step [OF less.hyps [OF _ Skips(4) tl]]) auto
  next
    case (Refused n st1)
    have sub: "set (take n remaining) \<subseteq> set entries" "set (drop n remaining) \<subseteq> set entries"
      using less.prems(2) by (meson order_trans set_take_subset, meson order_trans set_drop_subset)
    show ?thesis
    proof (rule forgets_step [OF less.hyps [OF _ Refused(6) sub(2)]])
      show "settled p upload generation agent entries b" if "b \<in> set (entry_texts p (take n remaining))" for b
        using that sub(1) Refused(5) unfolding settled_def by blast
    qed (use Refused(1,4) in auto)
  next
    case (Answered n st1 response)
    have sub: "set (take n remaining) \<subseteq> set entries" "set (drop n remaining) \<subseteq> set entries"
      using less.prems(2) by (meson order_trans set_take_subset, meson order_trans set_drop_subset)
    show ?thesis
    proof (rule forgets_step [OF less.hyps [OF _ Answered(6) sub(2)]])
      show "settled p upload generation agent entries b" if "b \<in> set (answered_buckets response)" for b
        using that sub(1) Answered(5) unfolding settled_def by blast
    qed (use Answered(1,4) in auto)
  qed auto
qed

locale validated_upload =
  fixes upload :: account_upload
  assumes answer_is_valid: "upload u st = (st', Inr response) \<Longrightarrow> validate_upload_response response (named_buckets u)"
    and keeps_preference: "upload u st = (st', outcome) \<Longrightarrow> usage_upload_enabled st' = usage_upload_enabled st"
begin

lemma agent_drained:
  assumes "drain_agent p upload device_id generation agent remaining accepted quarantined st ob = ((st', ob'), flow)"
    and "usage_upload_enabled st = Inr True"
  shows "usage_upload_enabled st' = Inr True \<and> set ob' \<subseteq> set ob \<and> (\<forall>a q. flow \<noteq> Returned a q) \<and>
    (\<forall>a q h v. flow = Continues a q \<and> ((agent, h), v) \<in> set ob' \<longrightarrow> bucket_text p h \<notin> set (entry_texts p remaining))"
  using assms
proof (induction "length remaining" arbitrary: remaining accepted quarantined st ob rule: less_induct)
  case less
  from less.prems(1) show ?case
  proof (cases rule: drain_agent_cases)
    case (Fails outcome)
    with keeps_preference [OF Fails(4)] less.prems(2) show ?thesis by auto
  next
    case Skips
    have "entry_texts p remaining = bucket_text p (entry_hour (hd remaining)) # entry_texts p (tl remaining)"
      using Skips(1) by (cases remaining) auto
    with less.hyps [OF _ Skips(4,2)] Skips(1) show ?thesis by (auto simp: forget_outbox_iff)
  next
    case (Refused n st1)
    have "entry_texts p remaining = entry_texts p (take n remaining) @ entry_texts p (drop n remaining)"
      by (metis append_take_drop_id entry_texts_simps(3))
    with less.hyps [OF _ Refused(6)] keeps_preference [OF Refused(5)] Refused(1,2,4) show ?thesis
      by (fastforce simp: forget_outbox_iff)
  next
    case (Answered n st1 response)
    have "entry_texts p remaining = entry_texts p (take n remaining) @ entry_texts p (drop n remaining)"
      by (metis append_take_drop_id entry_texts_simps(3))
    moreover have "set (entry_texts p (take n remaining)) \<subseteq> set (answered_buckets response)"
      using answered_all [OF answer_is_valid [OF Answered(5)]] by simp
    ultimately show ?thesis
      using less.hyps [OF _ Answered(6)] keeps_preference [OF Answered(5)] Answered(1,2,4) by (fastforce simp: forget_outbox_iff)
  qed (use less.prems(2) in auto)
qed

lemma agents_drained:
  assumes "drain_agents p upload device_id generation entries agents accepted quarantined st ob = ((st', ob'), flow)"
    and "usage_upload_enabled st = Inr True"
  shows "usage_upload_enabled st' = Inr True \<and> set ob' \<subseteq> set ob \<and> (\<forall>a q. flow \<noteq> Returned a q) \<and>
    (\<forall>a q b h v. flow = Continues a q \<and> b \<in> set agents \<and> ((b, h), v) \<in> set ob' \<longrightarrow>
       bucket_text p h \<notin> set (entry_texts p (filter (\<lambda>e. entry_agent e = b) entries)))"
  using assms
proof (induction agents arbitrary: accepted quarantined st ob)
  case (Cons agent agents)
  obtain st1 ob1 flow1 where one: "drain_agent p upload device_id generation agent (filter (\<lambda>e. entry_agent e = agent) entries)
      accepted quarantined st ob = ((st1, ob1), flow1)"
    by (metis prod.exhaust)
  note agent = agent_drained [OF one Cons.prems(2)]
  show ?case
  proof (cases flow1)
    case (Continues a q)
    with Cons.prems(1) one have "drain_agents p upload device_id generation entries agents a q st1 ob1 = ((st', ob'), flow)" by simp
    note rest = Cons.IH [OF this conjunct1 [OF agent]]
    have "bucket_text p h \<notin> set (entry_texts p (filter (\<lambda>e. entry_agent e = b) entries))"
      if "flow = Continues a' q'" "b \<in> set (agent # agents)" "((b, h), v) \<in> set ob'" for a' q' b h v
    proof (cases "b \<in> set agents")
      case True
      with rest that(1,3) show ?thesis by blast
    next
      case False
      with that have "b = agent" by simp
      moreover have "((b, h), v) \<in> set ob1" using rest that(3) by blast
      ultimately show ?thesis using agent Continues by blast
    qed
    note none = this
    show ?thesis
    proof (intro conjI)
      show "usage_upload_enabled st' = Inr True" by (rule conjunct1 [OF rest])
      show "set ob' \<subseteq> set ob" using conjunct1 [OF conjunct2 [OF rest]] conjunct1 [OF conjunct2 [OF agent]] by (rule order_trans)
      show "\<forall>a q. flow \<noteq> Returned a q" by (rule conjunct1 [OF conjunct2 [OF conjunct2 [OF rest]]])
    qed (intro allI impI, elim conjE, rule none)
  qed (use Cons.prems(1) one agent in auto)
qed auto

end

lemma agents_settle:
  assumes "drain_agents p upload device_id generation entries agents accepted quarantined st ob = ((st', ob'), flow)"
  shows "set ob' \<subseteq> set ob \<and> (\<forall>a h v. ((a, h), v) \<in> set ob \<and> ((a, h), v) \<notin> set ob' \<longrightarrow>
    settled p upload generation a (filter (\<lambda>e. entry_agent e = a) entries) (bucket_text p h))"
  using assms
proof (induction agents arbitrary: accepted quarantined st ob)
  case (Cons agent agents)
  obtain st1 ob1 flow1 where one: "drain_agent p upload device_id generation agent (filter (\<lambda>e. entry_agent e = agent) entries)
      accepted quarantined st ob = ((st1, ob1), flow1)"
    by (metis prod.exhaust)
  note agent = drain_agent_settles [OF one order_refl, unfolded forgets_settled_def]
  show ?case
  proof (cases flow1)
    case (Continues a q)
    with Cons.prems one have "drain_agents p upload device_id generation entries agents a q st1 ob1 = ((st', ob'), flow)" by simp
    note rest = Cons.IH [OF this]
    show ?thesis
    proof (intro conjI allI impI)
      show "set ob' \<subseteq> set ob" using rest agent by blast
      show "settled p upload generation b (filter (\<lambda>e. entry_agent e = b) entries) (bucket_text p h)"
        if "((b, h), v) \<in> set ob \<and> ((b, h), v) \<notin> set ob'" for b h v
        using that rest agent by (cases "((b, h), v) \<in> set ob1") blast+
    qed
  qed (use Cons.prems one agent in \<open>force+\<close>)
qed auto

lemma client_answer_is_valid:
  "client_upload_usage p put submission = Inr response \<Longrightarrow> validate_upload_response response (named_buckets submission)"
  by (auto simp: client_upload_usage_def result_simps)

lemma preferences_kept [simp]: "preferences (fst (bump_revision st)) = preferences st"
  by (simp add: bump_revision_def split: option.split)

lemma ensure_fresh_keeps:
  "ensure_fresh_session x now relay h st = (st', outcome) \<Longrightarrow> preferences st' = preferences st"
  by (auto simp: ensure_fresh_session_def write_session_json_if_epoch_def split: if_splits sum.splits option.splits prod.splits)

interpretation account: validated_upload "account_upload_usage p now refresh put" for p now refresh put
proof
  show "validate_upload_response response (named_buckets u)"
    if "account_upload_usage p now refresh put u st = (st', Inr response)" for u st st' response
    using that client_answer_is_valid [of p _ u response]
    by (auto simp: account_upload_usage_def split: sum.splits option.splits if_splits prod.splits)
  show "usage_upload_enabled st' = usage_upload_enabled st"
    if "account_upload_usage p now refresh put u st = (st', outcome)" for u st st' outcome
    using that by (auto simp: account_upload_usage_def usage_upload_enabled_def
        split: sum.splits option.splits if_splits prod.splits dest: ensure_fresh_keeps)
qed

subsection \<open>Whole drains\<close>

lemma in_outbox_entries_for:
  "e \<in> set (outbox_entries_for i ob) \<longleftrightarrow> (\<exists>row \<in> set ob. fst (snd row) = i \<and> e = entry_of row)"
  unfolding outbox_entries_for_def read_outbox_def by (simp add: case_prod_beta image_iff Bex_def conj_ac)

lemma drain_outbox_forms:
  assumes "drain_outbox p upload st ob = ((st', ob'), outcome)"
  obtains (Idle) "st' = st" "ob' = ob"
  | (Runs) v e i flow where "usage_upload_enabled st = Inr True" "session_snapshot st = Inr (Some (v, e))" "is_active_session v"
      "active_session_at_epoch e st" "upload_target v = Some i"
      "drain_agents p upload (fst (snd i)) (snd (snd i)) (outbox_entries_for i ob)
         (sort (remdups (map entry_agent (outbox_entries_for i ob)))) False False st ob = ((st', ob'), flow)"
      "outcome = (case flow of Failed err \<Rightarrow> Inl err | Returned a q \<Rightarrow> Inr (a, q) | Continues a q \<Rightarrow> Inr (a, q))"
  using assms
  by (auto simp: drain_outbox_def Let_def split: sum.splits bool.splits option.splits prod.splits if_splits drain_flow.splits)

text \<open>C9: Whatever Relay answers, a drain forgets an hour only when it is settled.\<close>

theorem drain_forgets_only_settled:
  assumes "drain_outbox p upload st ob = ((st', ob'), outcome)"
    and "((a, h), row) \<in> set ob" "((a, h), row) \<notin> set ob'"
  shows "\<exists>v e i. session_snapshot st = Inr (Some (v, e)) \<and> upload_target v = Some i \<and>
    settled p upload (snd (snd i)) a (filter (\<lambda>e. entry_agent e = a) (outbox_entries_for i ob)) (bucket_text p h)"
  using assms(1)
proof (cases rule: drain_outbox_forms)
  case (Runs v e i flow)
  with agents_settle [OF Runs(6)] assms(2,3) show ?thesis by blast
qed (use assms(2,3) in auto)

text \<open>C14: A drain that ends well sends every hour the device owes the identity it is signed in with, or forgets it.\<close>

theorem drain_leaves_nothing:
  assumes "drain_outbox p (account_upload_usage p now refresh put) st ob = ((st', ob'), Inr result)"
    and "usage_upload_enabled st = Inr True" "session_snapshot st = Inr (Some (v, e))" "is_active_session v"
    and "active_session_at_epoch e st" "upload_target v = Some i"
  shows "outbox_entries_for i ob' = []"
proof -
  let ?entries = "outbox_entries_for i ob"
  let ?agents = "sort (remdups (map entry_agent ?entries))"
  obtain st1 ob1 flow where run: "drain_agents p (account_upload_usage p now refresh put) (fst (snd i)) (snd (snd i)) ?entries
      ?agents False False st ob = ((st1, ob1), flow)"
    by (metis prod.exhaust)
  note drained = account.agents_drained [OF run assms(2)]
  from assms run have "ob' = ob1" "\<forall>err. flow \<noteq> Failed err"
    by (auto simp: drain_outbox_def Let_def split: drain_flow.splits)
  with drained obtain a q where flow: "flow = Continues a q" by (cases flow) auto
  have False if row: "row \<in> set ob'" "fst (snd row) = i" for row
  proof -
    obtain b h w where row': "row = ((b, h), w)" by (metis prod.exhaust)
    from row drained \<open>ob' = ob1\<close> have "row \<in> set ob" by blast
    with row have entry: "entry_of row \<in> set ?entries" by (auto simp: in_outbox_entries_for)
    moreover have "entry_agent (entry_of row) = b" "entry_hour (entry_of row) = h"
      by (simp_all add: row' entry_of_def split: prod.split)
    ultimately have "b \<in> set ?agents" "bucket_text p h \<in> set (entry_texts p (filter (\<lambda>e. entry_agent e = b) ?entries))"
      by (force simp: entry_texts_def)+
    with drained flow row(1) \<open>ob' = ob1\<close> row' show False by blast
  qed
  then have "e \<notin> set (outbox_entries_for i ob')" for e unfolding in_outbox_entries_for by blast
  then show ?thesis by (cases "outbox_entries_for i ob'") auto
qed

lemma crowded_hour_fits_nothing:
  assumes "max_usage_rows_per_hour < length (entry_rows entry)" "entry \<in> set hours"
  shows "\<not> upload_fits p agent generation hours"
proof
  assume "upload_fits p agent generation hours"
  with assms(2) have "validate_usage_hour (times p) (decode_row p) (hour_json p entry) (agent_str agent) \<noteq> None"
    by (simp add: upload_fits_iff)
  with assms(1) show False
    by (auto simp: validate_usage_hour_def hour_json_def str_member_def max_usage_rows_per_hour_def bind_eq_Some_conv
        split: if_splits option.splits)
qed

text \<open>C12: An hour of more than 512 rows fits no request, so a drain that ends well has forgotten it unsent: what
  is staged are the rows as they are stored, not folded to the limit.\<close>

theorem crowded_hour_is_dropped:
  assumes "drain_outbox p (account_upload_usage p now refresh put) st ob = ((st', ob'), Inr result)"
    and "usage_upload_enabled st = Inr True" "session_snapshot st = Inr (Some (v, e))" "is_active_session v"
    and "active_session_at_epoch e st" "upload_target v = Some i"
    and "((a, h), i, version, partial, fact_rows_at a h c) \<in> set ob" "max_usage_rows_per_hour < length (fact_rows_at a h c)"
  shows "((a, h), i, version, partial, fact_rows_at a h c) \<notin> set ob' \<and>
    (\<forall>generation hours. entry_of ((a, h), i, version, partial, fact_rows_at a h c) \<in> set hours \<longrightarrow>
       \<not> upload_fits p a generation hours)"
proof
  let ?row = "((a, h), i, version, partial, fact_rows_at a h c)"
  show "?row \<notin> set ob'"
  proof
    assume "?row \<in> set ob'"
    then have "entry_of ?row \<in> set (outbox_entries_for i ob')" by (force simp: in_outbox_entries_for)
    then show False by (simp add: drain_leaves_nothing [OF assms(1-6)])
  qed
  have "max_usage_rows_per_hour < length (entry_rows (entry_of ?row))" using assms(8) by (simp add: entry_of_def split: prod.split)
  then show "\<forall>generation hours. entry_of ?row \<in> set hours \<longrightarrow> \<not> upload_fits p a generation hours"
    by (blast dest: crowded_hour_fits_nothing)
qed

subsection \<open>Staging loses no hour\<close>

lemma map_of_filter_key: "distinct (map fst xs) \<Longrightarrow> map_of xs k = Some v \<Longrightarrow>
   map_of (filter P xs) k = (if P (k, v) then Some v else None)"
  by (induction xs) (auto simp: map_of_eq_None_iff dest: map_of_SomeD)

lemma map_of_fold_update:
  "distinct (map key es) \<Longrightarrow> e \<in> set es \<Longrightarrow> map_of (fold (\<lambda>e. AList.update (key e) (val e)) es ob) (key e) = Some (val e)"
proof (induction es arbitrary: ob)
  case (Cons d es)
  have "map_of (fold (\<lambda>e. AList.update (key e) (val e)) es ob) k = map_of ob k" if "k \<notin> key ` set es" for k ob
    using that by (induction es arbitrary: ob) (auto simp: update_conv')
  with Cons show ?case by (cases "e = d") (auto simp: update_conv')
qed simp

lemma batch_entry:
  "e \<in> set (dirty_usage_hour_batch lower upper limit c) \<Longrightarrow>
     ((entry_agent e, entry_hour e), entry_version e, entry_partial e) \<in> set (dirty_hours c) \<and>
     entry_rows e = fact_rows_at (entry_agent e) (entry_hour e) c"
  by (auto simp: dirty_usage_hour_batch_def dirty_in_def dest!: in_set_takeD)

lemma batch_keys_distinct:
  assumes "distinct (map fst (dirty_hours c))"
  shows "distinct (map (\<lambda>e. (entry_agent e, entry_hour e)) (dirty_usage_hour_batch lower upper limit c))"
proof -
  have "distinct (map fst (sort_key (\<lambda>((a, h), _). (h, agent_str a)) (dirty_in lower upper c)))"
    using assms by (simp add: distinct_map dirty_in_def inj_on_def)
  then have "distinct (take limit (map fst (sort_key (\<lambda>((a, h), _). (h, agent_str a)) (dirty_in lower upper c))))"
    by (rule distinct_take)
  moreover have "map (\<lambda>e. (entry_agent e, entry_hour e)) (dirty_usage_hour_batch lower upper limit c) =
      take limit (map fst (sort_key (\<lambda>((a, h), _). (h, agent_str a)) (dirty_in lower upper c)))"
    by (simp add: dirty_usage_hour_batch_def take_map comp_def case_prod_beta)
  ultimately show ?thesis by simp
qed

lemma stage_entries_forms:
  "stage_outbox_entries p i entries (c, ob) = (state, outcome) \<Longrightarrow> entries \<noteq> [] \<Longrightarrow>
     (outcome = Inr True) \<or> (state = (c, ob) \<and> (\<exists>err. outcome = Inl err))"
  by (auto simp: stage_outbox_entries_def split: if_splits)

lemma stage_outbox_forms:
  assumes "stage_outbox p now st later (c, ob) = ((c', ob'), outcome)"
  obtains (Idle) "c' = c" "ob' = ob"
  | (Swept) v e lower where "session_snapshot st = Inr (Some (v, e))" "rbind (effective_usage_lower_bound p v) (ceil_utc_hour p) = Inr lower"
      "c' = forget_dirty_usage_hours_before lower c" "ob' = ob"
  | (Staged) v e i lower where "session_snapshot st = Inr (Some (v, e))" "upload_target v = Some i"
      "rbind (effective_usage_lower_bound p v) (ceil_utc_hour p) = Inr lower"
      "stage_outbox_entries p i (dirty_usage_hour_batch lower (floor_utc_hour now) max_staged_hours_per_refresh
         (forget_dirty_usage_hours_before lower c)) (forget_dirty_usage_hours_before lower c, ob) = ((c', ob'), Inr True)"
proof -
  consider "c' = c \<and> ob' = ob" | v e i where "session_snapshot st = Inr (Some (v, e))" "is_active_session v" "upload_target v = Some i"
      "usage_upload_enabled st = Inr True"
    using assms by (auto simp: stage_outbox_def split: sum.splits bool.splits option.splits prod.splits if_splits)
  then show thesis
  proof cases
    case 1
    with Idle show thesis by blast
  next
    case (2 v e i)
    show thesis
    proof (cases "rbind (effective_usage_lower_bound p v) (ceil_utc_hour p)")
      case (Inl err)
      with assms 2 Idle show thesis by (simp add: stage_outbox_def)
    next
      case (Inr lower)
      let ?c = "forget_dirty_usage_hours_before lower c"
      let ?es = "dirty_usage_hour_batch lower (floor_utc_hour now) max_staged_hours_per_refresh ?c"
      obtain state r where entries: "stage_outbox_entries p i ?es (?c, ob) = (state, r)" by fastforce
      from assms 2 Inr entries have "(c', ob') = (?c, ob) \<or> ?es \<noteq> [] \<and> (c', ob') = state"
        by (auto simp: stage_outbox_def Let_def split: sum.splits bool.splits if_splits)
      with stage_entries_forms [OF entries] entries have "(c', ob') = (?c, ob) \<or> stage_outbox_entries p i ?es (?c, ob) = ((c', ob'), Inr True)"
        by auto
      with 2 Inr Swept Staged show thesis by blast
    qed
  qed
qed

text \<open>C24: However staging ends, an hour that was dirty is dirty still, lies before the watermark of the
  session, or is in the outbox with the rows the cache holds for it and the version of its mark.\<close>

theorem staging_loses_no_hour:
  assumes "stage_outbox p now st later (c, ob) = ((c', ob'), outcome)"
    and "distinct (map fst (dirty_hours c))" "map_of (dirty_hours c) (a, h) = Some (version, partial)"
  shows "map_of (dirty_hours c') (a, h) = Some (version, partial) \<or>
    (\<exists>v e. session_snapshot st = Inr (Some (v, e)) \<and>
      ((\<exists>lower. rbind (effective_usage_lower_bound p v) (ceil_utc_hour p) = Inr lower \<and> h < lower) \<or>
       (\<exists>i. upload_target v = Some i \<and> map_of ob' (a, h) = Some (i, version, partial, fact_rows_at a h c))))"
  using assms(1)
proof (cases rule: stage_outbox_forms)
  case (Swept v e lower)
  with assms(2,3) show ?thesis by (auto simp: forget_dirty_usage_hours_before_def map_of_filter_key)
next
  case (Staged v e i lower)
  let ?c = "forget_dirty_usage_hours_before lower c"
  let ?es = "dirty_usage_hour_batch lower (floor_utc_hour now) max_staged_hours_per_refresh ?c"
  let ?gone = "list_ex (\<lambda>e. (a, h) = (entry_agent e, entry_hour e) \<and> version \<le> entry_version e) ?es"
  have c: "distinct (map fst (dirty_hours ?c))" "fact_rows_at a h ?c = fact_rows_at a h c"
    using assms(2) by (simp_all add: forget_dirty_usage_hours_before_def distinct_map_filter fact_rows_at_def facts_at_def)
  show ?thesis
  proof (cases "h < lower \<or> \<not> ?gone")
    case True
    from Staged(4) have "dirty_hours c' = filter (\<lambda>(key, version, _). \<not> list_ex (\<lambda>e. key = (entry_agent e, entry_hour e) \<and> version \<le> entry_version e) ?es) (dirty_hours ?c)
       \<or> dirty_hours c' = dirty_hours ?c"
      by (auto simp: stage_outbox_entries_def split: if_splits)
    with True c(1) assms(2,3) Staged(1,3) show ?thesis
      by (auto simp: map_of_filter_key forget_dirty_usage_hours_before_def)
  next
    case False
    then obtain d where d: "d \<in> set ?es" "a = entry_agent d" "h = entry_hour d" by (auto simp: list_ex_iff)
    have "((a, h), entry_version d, entry_partial d) \<in> set (dirty_hours c)"
      using batch_entry [OF d(1)] d(2,3) by (auto simp: forget_dirty_usage_hours_before_def)
    from eq_key_imp_eq_value [OF assms(2) this map_of_SomeD [OF assms(3)]]
    have "entry_version d = version" "entry_partial d = partial" by simp_all
    moreover have "ob' = fold (\<lambda>e. AList.update (entry_agent e, entry_hour e) (i, entry_version e, entry_partial e, entry_rows e)) ?es ob"
      using Staged(4) d(1) by (auto simp: stage_outbox_entries_def split: if_splits)
    with map_of_fold_update [OF batch_keys_distinct [OF c(1)] d(1)]
    have "map_of ob' (a, h) = Some (i, entry_version d, entry_partial d, entry_rows d)" by (simp add: d)
    moreover have "entry_rows d = fact_rows_at a h c" using batch_entry [OF d(1)] c(2) d by simp
    ultimately have "map_of ob' (a, h) = Some (i, version, partial, fact_rows_at a h c)" by simp
    with Staged(1,2) show ?thesis by blast
  qed
qed (use assms(3) in auto)

text \<open>One hour whose rows encode to more than a request holds back every hour that is staged with it: the
  outbox stays as it was.\<close>

theorem one_hour_blocks_staging:
  assumes "stage_outbox p now st later (c, ob) = ((c', ob'), outcome)"
    and "session_snapshot st = Inr (Some (v, e))" "rbind (effective_usage_lower_bound p v) (ceil_utc_hour p) = Inr lower"
    and "d \<in> set (dirty_usage_hour_batch lower (floor_utc_hour now) max_staged_hours_per_refresh (forget_dirty_usage_hours_before lower c))"
    and "maximum_request_bytes < json_size p (JArr (map row_json (entry_rows d)))"
  shows "ob' = ob \<and> outcome \<noteq> Inr True"
proof -
  let ?es = "dirty_usage_hour_batch lower (floor_utc_hour now) max_staged_hours_per_refresh (forget_dirty_usage_hours_before lower c)"
  have "stage_outbox_entries p i ?es (forget_dirty_usage_hours_before lower c, ob) =
      ((forget_dirty_usage_hours_before lower c, ob), Inl InvalidState)" for i
    using assms(4,5) by (auto simp: stage_outbox_entries_def list_ex_iff)
  with assms(1-3) show ?thesis
    by (auto simp: stage_outbox_def Let_def split: sum.splits bool.splits option.splits if_splits)
qed

subsection \<open>Whose hours the outbox holds\<close>

text \<open>Once the context is the signed-in identity's, the outbox holds no other's hours; where it was not,
  every hour with facts from the watermark on is owed again, under the version of its facts.\<close>

theorem context_owes_every_hour:
  assumes "ensure_usage_context p i sync_revision lower_bound (c, u) = Inr (c', u')"
  shows "(\<forall>row \<in> set (outbox u'). fst (snd row) = i) \<and> upload_context u' = Some (i, sync_revision, auto_text p lower_bound) \<and>
    (if upload_context u = upload_context u' then dirty_hours c' = dirty_hours c
     else outbox u' = [] \<and> (\<forall>a h. map_of (dirty_hours c') (a, h) =
       (if first_hour_from p lower_bound \<le> h then map_option (\<lambda>hf. (hour_version hf, hour_partial hf)) (map_of (hourly_facts c) (a, h))
        else None)))"
proof -
  have "map_of (map (\<lambda>(key, hf). (key, hour_version hf, hour_partial hf)) (filter (\<lambda>((_, h), _). l \<le> h) xs)) (a, h) =
      (if l \<le> h then map_option (\<lambda>hf. (hour_version hf, hour_partial hf)) (map_of xs (a, h)) else None)"
    for xs :: "((usage_agent \<times> int) \<times> hour_facts) list" and l a h
    by (induction xs) auto
  with assms show ?thesis by (auto simp: ensure_usage_context_def split: if_splits)
qed

subsection \<open>Concrete runs\<close>

definition sample_bucket :: string where "sample_bucket = ''2026-07-01T05:00:00Z''"

definition sample_upload :: upload_externs where
  "sample_upload = \<lparr>times = sample_externs\<lparr>instant_of := (\<lambda>_. Some 0), secs_text := (\<lambda>_. sample_bucket)\<rparr>,
     auto_text = (\<lambda>s. s), first_hour_from = (\<lambda>_. 0), json_size = (\<lambda>_. 0), decode_row = (\<lambda>_. None)\<rparr>"

definition sample_identity :: upload_identity where "sample_identity = (''account'', ''device'', 1)"

definition sample_session :: json where
  "sample_session = JObj [(''status'', JStr ''active''), (''account_id'', JStr ''account''), (''device_id'', JStr ''device''),
     (''device_generation'', JInt 1), (''usage_deleted_before'', JNull),
     (''session'', JObj [(''access_token'', JStr ''token''), (''access_expires_at'', JStr ''2026-07-02T00:00:00Z'')])]"

definition sample_signed_in :: session_store where
  "sample_signed_in = store_of_new_device\<lparr>session := Some \<lparr>payload = sample_session, epoch = 1\<rparr>,
     preferences := [''usage_upload_enabled'' \<mapsto> ''1'']\<rparr>"

definition sample_answer :: json where
  "sample_answer = JObj [(''protocol_version'', JInt 6), (''device_id'', JStr ''device''), (''device_generation'', JInt 1),
     (''accepted'', JArr [JStr sample_bucket]), (''ignored'', JArr [])]"

abbreviation sample_account :: account_upload where
  "sample_account \<equiv> account_upload_usage sample_upload (- 100000000000) (\<lambda>_. Rejects False) (\<lambda>_ _. Inr sample_answer)"

lemma sample_signed_in_facts:
  "usage_upload_enabled sample_signed_in = Inr True" "session_snapshot sample_signed_in = Inr (Some (sample_session, 1))"
  "is_active_session sample_session" "active_session_at_epoch 1 sample_signed_in" "upload_target sample_session = Some sample_identity"
  by code_simp+

theorem batch_is_longest_prefix_witness:
  "let hour = entry_of ((usage_agent.Codex, 5), sample_identity, 7, False, []) in
   upload_fits sample_upload usage_agent.Codex 1 (take 2 [hour, hour]) \<longleftrightarrow> 2 \<le> usage_upload_batch_size sample_upload usage_agent.Codex 1 [hour, hour]"
  unfolding Let_def by (rule batch_is_longest_prefix) (simp_all add: sample_upload_def)

theorem drain_leaves_nothing_witness:
  "outbox_entries_for sample_identity
     (snd (fst (drain_outbox sample_upload sample_account sample_signed_in [((usage_agent.Codex, 5), sample_identity, 7, False, [])]))) = []"
proof -
  let ?ob = "[((usage_agent.Codex, 5), sample_identity, 7, False, [])]"
  obtain st' ob' r where run: "drain_outbox sample_upload sample_account sample_signed_in ?ob = ((st', ob'), r)" by (metis prod.exhaust)
  have "snd (drain_outbox sample_upload sample_account sample_signed_in ?ob) = Inr (True, False)" by code_simp
  with run have "drain_outbox sample_upload sample_account sample_signed_in ?ob = ((st', ob'), Inr (True, False))" by simp
  from drain_leaves_nothing [OF this sample_signed_in_facts] run show ?thesis by simp
qed

theorem drain_forgets_only_settled_witness:
  "settled sample_upload sample_account 1 usage_agent.Codex [entry_of ((usage_agent.Codex, 5), sample_identity, 7, False, [])] sample_bucket"
proof -
  let ?ob = "[((usage_agent.Codex, 5), sample_identity, 7, False, [])]"
  obtain st' ob' r where run: "drain_outbox sample_upload sample_account sample_signed_in ?ob = ((st', ob'), r)" by (metis prod.exhaust)
  have "snd (fst (drain_outbox sample_upload sample_account sample_signed_in ?ob)) = []" by code_simp
  with run have "((usage_agent.Codex, 5), sample_identity, 7, False, []) \<notin> set ob'" by simp
  from drain_forgets_only_settled [OF run _ this] show ?thesis
    by (simp add: sample_signed_in_facts sample_identity_def outbox_entries_for_def read_outbox_def entry_of_def bucket_text_def
        sample_upload_def)
qed

definition sample_crowd :: usage_cache where
  "sample_crowd = \<lparr>file_records = [], partial_sources = [], file_index = [],
     hourly_facts = [((usage_agent.Codex, 5), \<lparr>hour_rows = map (\<lambda>n. \<lparr>fact_project_key = [],
         fact_row = (row_of_event sample_event)\<lparr>row_model := replicate n CHR ''m''\<rparr>\<rparr>) [0..<513], hour_partial = False, hour_version = 7\<rparr>)],
     dirty_hours = [((usage_agent.Codex, 5), 7, False)], rebuilding = False\<rparr>"

lemma sample_crowd_rows: "length (fact_rows_at usage_agent.Codex 5 sample_crowd) = 513"
proof -
  have "distinct (map (\<lambda>n. row_key ((row_of_event sample_event)\<lparr>row_model := replicate n CHR ''m''\<rparr>)) [0..<513])"
    by (auto simp: distinct_map inj_on_def row_key_identity)
  then have "length (remdups (map (\<lambda>n. row_key ((row_of_event sample_event)\<lparr>row_model := replicate n CHR ''m''\<rparr>)) [0..<513])) = 513"
    by (simp add: distinct_remdups_id)
  then show ?thesis by (simp add: fact_rows_at_def facts_at_def sample_crowd_def grouped_rows_def comp_def)
qed

theorem crowded_hour_is_dropped_witness:
  "((usage_agent.Codex, 5), sample_identity, 7, False, fact_rows_at usage_agent.Codex 5 sample_crowd) \<notin>
     set (snd (fst (drain_outbox sample_upload sample_account sample_signed_in
       [((usage_agent.Codex, 5), sample_identity, 7, False, fact_rows_at usage_agent.Codex 5 sample_crowd)])))"
proof -
  define rows where "rows = fact_rows_at usage_agent.Codex 5 sample_crowd"
  let ?ob = "[((usage_agent.Codex, 5), sample_identity, 7, False, rows)]"
  let ?e = "entry_of ((usage_agent.Codex, 5), sample_identity, 7, False, rows)"
  have crowded: "max_usage_rows_per_hour < length rows" by (simp add: rows_def sample_crowd_rows max_usage_rows_per_hour_def)
  then have "\<not> upload_fits sample_upload usage_agent.Codex 1 [?e]"
    by (intro crowded_hour_fits_nothing [of ?e]) (simp_all add: entry_of_def sample_identity_def)
  then have "usage_upload_batch_size sample_upload usage_agent.Codex 1 [?e] = 0" by (simp add: usage_upload_batch_size_def Let_def)
  then have run: "drain_outbox sample_upload sample_account sample_signed_in ?ob = ((sample_signed_in, []), Inr (False, False))"
    by (simp add: drain_outbox_def sample_signed_in_facts sample_signed_in_facts [unfolded One_nat_def] outbox_entries_for_def read_outbox_def entry_of_def sample_identity_def
        drain_agent.simps forget_outbox_hours_def Let_def)
  from crowded_hour_is_dropped [OF run sample_signed_in_facts, of usage_agent.Codex 5 7 False sample_crowd] crowded run
  show ?thesis by (simp add: rows_def)
qed

definition sample_dirty :: usage_cache where
  "sample_dirty = empty_cache\<lparr>dirty_hours := [((usage_agent.Codex, 5), 7, False)]\<rparr>"

theorem staging_loses_no_hour_witness:
  "map_of (snd (fst (stage_outbox sample_upload 21600000000000 sample_signed_in sample_signed_in (sample_dirty, []))))
     (usage_agent.Codex, 5) = Some (sample_identity, 7, False, [])"
proof -
  let ?c = "sample_dirty"
  obtain c' ob' r where run: "stage_outbox sample_upload 21600000000000 sample_signed_in sample_signed_in (?c, []) = ((c', ob'), r)"
    by (metis prod.exhaust)
  have "dirty_hours (fst (fst (stage_outbox sample_upload 21600000000000 sample_signed_in sample_signed_in (?c, [])))) = []"
    by code_simp
  moreover have "rbind (effective_usage_lower_bound sample_upload sample_session) (ceil_utc_hour sample_upload) = Inr 0" by code_simp
  moreover have "fact_rows_at usage_agent.Codex 5 ?c = []" by code_simp
  moreover have "distinct (map fst (dirty_hours ?c))" "map_of (dirty_hours ?c) (usage_agent.Codex, 5) = Some (7, False)" by code_simp+
  ultimately show ?thesis
    using staging_loses_no_hour [OF run, of usage_agent.Codex 5 7 False] run by (simp add: sample_signed_in_facts)
qed

end
