(* ===== verification/Usage_Parsers.thy ===== *)
theory Usage_Parsers
  imports Json
begin

text \<open>
  What the lines of an agent's log say (\<open>packages/service/src/usage/codex.rs\<close>, \<open>claude.rs\<close>, \<open>pi.rs\<close>,
  \<open>grok.rs\<close>, \<open>project.rs\<close>, and the readers of \<open>usage/mod.rs\<close>). A line is the object it decodes to; a parser
  that carries nothing from line to line has the state \<open>()\<close>. Whether a directory holds \<open>.git\<close> and what
  chrono prints are parameters. What the lemmas show: every record of a Codex, Pi or Grok log passes the check
  the hour folds make; a record of a Claude Code log passes it unless one of its dimensions holds a slash.
\<close>

subsection \<open>Parameters and answers\<close>

record path =
  is_absolute :: bool
  parts :: "string list"

record log_externs =
  log_times :: externs
  millis_text :: "int \<Rightarrow> string"
    \<comment> \<open>\<open>to_rfc3339_opts(SecondsFormat::Millis, true)\<close> of an instant in milliseconds\<close>
  has_git :: "path \<Rightarrow> bool"
    \<comment> \<open>whether \<open>.git\<close> below a directory is a directory or a file\<close>

datatype coverage_reason_code =
  PermissionDenied | SourceUnreadable | SourceChanged | DiscoveryLimit | RecordLimit | LineTooLarge | TruncatedTail
| MalformedJson | UnknownRecord | InvalidTimestamp | InvalidModel | InvalidUsage | ScanCancelled

record usage_record =
  rec_event :: usage_event
  rec_source_file_id :: string
  rec_key :: string

record parsed_line =
  line_records :: "usage_record list"
  line_reason :: "coverage_reason_code option"
  line_ignored :: nat

definition line_empty :: parsed_line where
  "line_empty = \<lparr>line_records = [], line_reason = None, line_ignored = 0\<rparr>"

definition line_ignored_empty :: parsed_line where
  "line_ignored_empty = \<lparr>line_records = [], line_reason = None, line_ignored = 1\<rparr>"

definition line_refused :: "coverage_reason_code \<Rightarrow> parsed_line" where
  "line_refused reason = \<lparr>line_records = [], line_reason = Some reason, line_ignored = 0\<rparr>"

subsection \<open>Reading values\<close>

definition safe_count :: "json option \<Rightarrow> nat option" where
  "safe_count v = Option.bind (Option.bind v as_u64) (\<lambda>n. if n \<le> max_safe_count then Some n else None)"

definition optional_count :: "json option \<Rightarrow> nat option" where
  "optional_count v = (case v of None \<Rightarrow> Some 0 | Some JNull \<Rightarrow> Some 0 | Some w \<Rightarrow> safe_count (Some w))"

definition bounded_model :: "json option \<Rightarrow> string option" where
  "bounded_model v = Option.bind (Option.bind v as_str) bounded_model_text"

definition bounded_string :: "json option \<Rightarrow> nat \<Rightarrow> string option" where
  "bounded_string v mx =
     Option.bind (Option.bind v as_str) (\<lambda>s.
       if s = [] \<or> mx < length s \<or> \<not> list_all is_ascii s then None
       else if \<not> is_ascii_alphanumeric (hd s) \<or>
               \<not> list_all (\<lambda>c. is_ascii_alphanumeric c \<or> c \<in> set ''._:+-/'') (tl s) then None
       else Some s)"

definition bounded_dimension :: "json option \<Rightarrow> string option" where
  "bounded_dimension v = bounded_string v 64"

definition has_key :: "string \<Rightarrow> json \<Rightarrow> bool" where
  "has_key key v \<longleftrightarrow> json_get key v \<noteq> None"

definition canonical_instant :: "log_externs \<Rightarrow> string \<Rightarrow> string option" where
  "canonical_instant x s = map_option (\<lambda>t. millis_text x (t div 1000000)) (instant_of (log_times x) s)"

definition instant_text_of_millis :: "log_externs \<Rightarrow> int \<Rightarrow> string option" where
  "instant_text_of_millis x ms = (if instant_ok (log_times x) (ms * 1000000) then Some (millis_text x ms) else None)"

subsection \<open>Projects\<close>

definition path_of :: "string \<Rightarrow> path" where
  "path_of s =
     (let pieces = split_on CHR ''/'' s; absolute = (s \<noteq> [] \<and> hd s = CHR ''/'') in
      \<lparr>is_absolute = absolute,
       parts = (if \<not> absolute \<and> hd pieces = ''.'' then [''.''] else []) @ filter (\<lambda>p. p \<noteq> [] \<and> p \<noteq> ''.'') pieces\<rparr>)"

definition normal_part :: "string \<Rightarrow> bool" where
  "normal_part p \<longleftrightarrow> p \<noteq> ''.'' \<and> p \<noteq> ''..''"

definition file_name :: "path \<Rightarrow> string option" where
  "file_name p = (if parts p = [] \<or> \<not> normal_part (last (parts p)) then None else Some (last (parts p)))"

function git_work_tree :: "(path \<Rightarrow> bool) \<Rightarrow> path \<Rightarrow> path option" where
  "git_work_tree git p =
     (if git p then Some p
      else if parts p = [] then None else git_work_tree git (p\<lparr>parts := butlast (parts p)\<rparr>))"
  by pat_completeness auto
termination by (relation "measure (\<lambda>(_, p). length (parts p))") auto

declare git_work_tree.simps [simp del]

definition basename_key :: "path \<Rightarrow> string option" where
  "basename_key p = Option.bind (file_name p) (\<lambda>name. bounded_project_key (trim name))"

definition project_key_from_cwd :: "log_externs \<Rightarrow> string \<Rightarrow> string option" where
  "project_key_from_cwd x cwd =
     (let cwd = trim cwd; p = path_of cwd in
      if cwd = [] then None
      else basename_key (case git_work_tree (has_git x) p of Some tree \<Rightarrow> tree | None \<Rightarrow> p))"

definition project_key_from_encoded_dir :: "log_externs \<Rightarrow> string \<Rightarrow> string option" where
  "project_key_from_encoded_dir x name =
     (let name = trim name; slashed = map (\<lambda>c. if c = CHR ''-'' then CHR ''/'' else c) name in
      if name = [] then None
      else project_key_from_cwd x
        (if hd name = CHR ''-'' then slashed
         else if CHR ''/'' \<in> set name \<or> CHR 0x5C \<in> set name then name
         else CHR ''/'' # slashed))"

fun key_below_projects :: "log_externs \<Rightarrow> string list \<Rightarrow> string option" where
  "key_below_projects x [] = None"
| "key_below_projects x [p] = None"
| "key_below_projects x (p # q # ps) =
     (if p \<noteq> ''projects'' then key_below_projects x (q # ps)
      else if normal_part q then project_key_from_encoded_dir x q
      else key_below_projects x ps)"

definition project_key_from_source_path :: "log_externs \<Rightarrow> path \<Rightarrow> string option" where
  "project_key_from_source_path x p = key_below_projects x (parts p)"

definition cwd_keys :: "string list" where
  "cwd_keys = [''cwd'', ''directory'', ''path'', ''workspace'', ''workingDirectory'']"

definition cwd_from_value :: "json \<Rightarrow> string option" where
  "cwd_from_value v =
     (case List.map_filter (\<lambda>key. case str_member key v of
          None \<Rightarrow> None | Some s \<Rightarrow> if trim s = [] then None else Some (trim s)) cwd_keys of
        [] \<Rightarrow> None | cwd # _ \<Rightarrow> Some cwd)"

definition or_else :: "'a option \<Rightarrow> 'a option \<Rightarrow> 'a option" where
  "or_else a b = (case a of None \<Rightarrow> b | Some _ \<Rightarrow> a)"

subsection \<open>Claude Code\<close>

record claude_tokens =
  ct_input :: nat
  ct_cache_read :: nat
  ct_cache_write_5m :: nat
  ct_cache_write_1h :: nat
  ct_cache_write_inferred :: nat
  ct_output :: nat
  ct_reasoning :: nat

definition claude_breakdown :: "json option \<Rightarrow> (nat \<times> nat) option" where
  "claude_breakdown v =
     (case v of
        None \<Rightarrow> Some (0, 0)
      | Some JNull \<Rightarrow> Some (0, 0)
      | Some w \<Rightarrow>
          if \<not> is_object w then None
          else Option.bind (optional_count (json_get ''ephemeral_5m_input_tokens'' w)) (\<lambda>a.
               Option.bind (optional_count (json_get ''ephemeral_1h_input_tokens'' w)) (\<lambda>b. Some (a, b))))"

definition claude_reasoning :: "json option \<Rightarrow> nat \<Rightarrow> nat option" where
  "claude_reasoning v outp =
     (case v of
        None \<Rightarrow> Some 0
      | Some JNull \<Rightarrow> Some 0
      | Some w \<Rightarrow>
          if \<not> is_object w then None
          else Option.bind (safe_count (json_get ''thinking_tokens'' w)) (\<lambda>n. if outp < n then None else Some n))"

definition claude_parse_tokens :: "json \<Rightarrow> claude_tokens option" where
  "claude_parse_tokens usage =
     Option.bind (safe_count (json_get ''input_tokens'' usage)) (\<lambda>uncached.
     Option.bind (safe_count (json_get ''output_tokens'' usage)) (\<lambda>outp.
     Option.bind (optional_count (json_get ''cache_read_input_tokens'' usage)) (\<lambda>cache_read.
     Option.bind (optional_count (json_get ''cache_creation_input_tokens'' usage)) (\<lambda>cache_write.
     Option.bind (claude_breakdown (json_get ''cache_creation'' usage)) (\<lambda>(write_5m, write_1h).
     Option.bind (safe_sum [write_5m, write_1h]) (\<lambda>classified.
       if cache_write < classified then None
       else
     Option.bind (safe_sum [uncached, cache_read, cache_write]) (\<lambda>input.
     Option.bind (claude_reasoning (json_get ''output_tokens_details'' usage) outp) (\<lambda>reasoning.
     Option.bind (safe_sum [input, outp]) (\<lambda>_.
       Some \<lparr>ct_input = input, ct_cache_read = cache_read, ct_cache_write_5m = write_5m, ct_cache_write_1h = write_1h,
             ct_cache_write_inferred = cache_write - classified, ct_output = outp, ct_reasoning = reasoning\<rparr>)))))))))"

definition optional_dimension :: "json option \<Rightarrow> string option" where
  "optional_dimension v =
     (case v of
        None \<Rightarrow> Some ''unknown''
      | Some JNull \<Rightarrow> Some ''unknown''
      | Some w \<Rightarrow> if w = JStr [] then Some ''unknown'' else bounded_dimension (Some w))"

definition claude_parse_dimensions :: "json \<Rightarrow> (string \<times> string \<times> string) option" where
  "claude_parse_dimensions usage =
     Option.bind (optional_dimension (json_get ''service_tier'' usage)) (\<lambda>tier.
     Option.bind (optional_dimension (json_get ''speed'' usage)) (\<lambda>speed.
     Option.bind (optional_dimension (json_get ''inference_geo'' usage)) (\<lambda>geo. Some (tier, speed, geo))))"

definition no_tools :: billable_tools where "no_tools = \<lparr>web_search = 0, web_fetch = 0\<rparr>"

definition claude_parse_tools :: "json option \<Rightarrow> billable_tools option" where
  "claude_parse_tools v =
     (case v of
        None \<Rightarrow> Some no_tools
      | Some JNull \<Rightarrow> Some no_tools
      | Some w \<Rightarrow>
          if \<not> is_object w then None
          else Option.bind (optional_count (json_get ''web_search_requests'' w)) (\<lambda>s.
               Option.bind (optional_count (json_get ''web_fetch_requests'' w)) (\<lambda>f.
                 Some \<lparr>web_search = s, web_fetch = f\<rparr>)))"

text \<open>An amount in dollars to micro-dollars; \<open>None\<close> is the error.\<close>

definition rounded_microusd :: "json \<Rightarrow> nat option" where
  "rounded_microusd v =
     (case as_f64 v of
        None \<Rightarrow> None
      | Some q \<Rightarrow>
          if q < 0 then None
          else let rounded = round_half_away (round_f64 (q * 1000000)) in
            if int max_safe_count < rounded then None else Some (nat rounded))"

definition claude_source_cost :: "json option \<Rightarrow> string option option" where
  "claude_source_cost v =
     (case v of
        None \<Rightarrow> Some None
      | Some JNull \<Rightarrow> Some None
      | Some w \<Rightarrow> map_option (\<lambda>n. Some (decimal_string n)) (rounded_microusd w))"

definition is_present :: "json option \<Rightarrow> bool" where
  "is_present v \<longleftrightarrow> v \<noteq> None \<and> v \<noteq> Some JNull"

definition no_cost :: "string option \<Rightarrow> bool" where
  "no_cost c \<longleftrightarrow> (case c of None \<Rightarrow> True | Some v \<Rightarrow> v = ''0'')"

definition claude_record ::
  "log_externs \<Rightarrow> path \<Rightarrow> json \<Rightarrow> string \<Rightarrow> string \<Rightarrow> string \<Rightarrow> claude_tokens \<Rightarrow> string \<times> string \<times> string \<Rightarrow> billable_tools \<Rightarrow>
   string option \<Rightarrow> usage_record" where
  "claude_record x source value file_id occurred_at model tokens dimensions tools cost =
     (let direct = (take 7 model = ''claude-'') in
      \<lparr>rec_event = \<lparr>ev_occurred_at = occurred_at, ev_agent = ClaudeCode, ev_model = model,
         ev_billing_channel = (if direct then AnthropicDirect else billing_channel.Unknown),
         ev_channel_source = (if direct then AgentDefault else channel_source.Unknown),
         ev_input_tokens = ct_input tokens, ev_cache_read_tokens = ct_cache_read tokens,
         ev_cache_write_5m_tokens = ct_cache_write_5m tokens, ev_cache_write_1h_tokens = ct_cache_write_1h tokens,
         ev_cache_write_inferred_tokens = ct_cache_write_inferred tokens, ev_output_tokens = ct_output tokens,
         ev_reasoning_tokens = ct_reasoning tokens, ev_requests = 1,
         ev_context_bucket = context_bucket_of (ct_input tokens), ev_service_tier = fst dimensions,
         ev_speed = fst (snd dimensions), ev_inference_geo = snd (snd dimensions), ev_billable_tools = tools,
         ev_source_cost_microusd = cost,
         ev_source_cost_covered_requests = (if is_present (json_get ''costUSD'' value) then 1 else 0),
         ev_project_key = or_else (Option.bind (cwd_from_value value) (project_key_from_cwd x))
           (project_key_from_source_path x source)\<rparr>,
       rec_source_file_id = file_id, rec_key = []\<rparr>)"

definition claude_usage :: "log_externs \<Rightarrow> path \<Rightarrow> string \<Rightarrow> json \<Rightarrow> json \<Rightarrow> json \<Rightarrow> parsed_line" where
  "claude_usage x source file_id value message usage =
     (case Option.bind (str_member ''timestamp'' value) (canonical_instant x) of
        None \<Rightarrow> line_refused InvalidTimestamp
      | Some occurred_at \<Rightarrow>
     (case (if str_member ''model'' message = Some ''<synthetic>'' then Some ''synthetic''
            else bounded_model (json_get ''model'' message)) of
        None \<Rightarrow> line_refused InvalidModel
      | Some model \<Rightarrow>
     (case (claude_parse_tokens usage, claude_parse_dimensions usage, claude_parse_tools (json_get ''server_tool_use'' usage),
            claude_source_cost (json_get ''costUSD'' value)) of
        (Some tokens, Some dimensions, Some tools, Some cost) \<Rightarrow>
          if ct_input tokens = 0 \<and> ct_cache_read tokens = 0 \<and> ct_cache_write_5m tokens = 0 \<and>
             ct_cache_write_1h tokens = 0 \<and> ct_cache_write_inferred tokens = 0 \<and> ct_output tokens = 0 \<and>
             ct_reasoning tokens = 0 \<and> web_search tools = 0 \<and> web_fetch tools = 0 \<and> no_cost cost
          then line_ignored_empty
          else \<lparr>line_records = [claude_record x source value file_id occurred_at model tokens dimensions tools cost],
                line_reason = None, line_ignored = 0\<rparr>
      | _ \<Rightarrow> line_refused InvalidUsage)))"

definition claude_parse :: "log_externs \<Rightarrow> path \<Rightarrow> string \<Rightarrow> json \<Rightarrow> parsed_line" where
  "claude_parse x source file_id value =
     (let untyped = (if has_key ''type'' value then line_empty else line_refused UnknownRecord) in
      case object_member ''message'' value of
        None \<Rightarrow> untyped
      | Some message \<Rightarrow>
     (case json_get ''usage'' message of
        None \<Rightarrow> untyped
      | Some usage \<Rightarrow>
          if has_key ''type'' value \<and> str_member ''type'' value \<noteq> Some ''assistant'' then line_refused UnknownRecord
          else if str_member ''role'' message = Some ''user'' then line_refused UnknownRecord
          else if \<not> is_object usage then line_refused InvalidUsage
          else claude_usage x source file_id value message usage))"

subsection \<open>Pi\<close>

definition pi_parse_usage :: "json \<Rightarrow> (nat \<times> nat \<times> nat \<times> nat \<times> nat) option" where
  "pi_parse_usage usage =
     Option.bind (safe_count (json_get ''input'' usage)) (\<lambda>input.
     Option.bind (safe_count (json_get ''output'' usage)) (\<lambda>outp.
     Option.bind (safe_count (json_get ''cacheRead'' usage)) (\<lambda>cache_read.
     Option.bind (safe_count (json_get ''cacheWrite'' usage)) (\<lambda>cache_write.
     Option.bind (if has_key ''reasoning'' usage then safe_count (json_get ''reasoning'' usage) else Some 0) (\<lambda>reasoning.
       if outp < reasoning then None
       else Option.bind (safe_sum [input, cache_read, cache_write]) (\<lambda>total.
         Some (total, cache_read, cache_write, outp, reasoning)))))))"

definition pi_source_cost :: "json option \<Rightarrow> string option option" where
  "pi_source_cost v =
     (case v of
        None \<Rightarrow> Some None
      | Some JNull \<Rightarrow> Some None
      | Some w \<Rightarrow> map_option (\<lambda>n. if n = 0 then None else Some (decimal_string n)) (rounded_microusd w))"

definition pi_billing_channel :: "string option \<Rightarrow> billing_channel" where
  "pi_billing_channel provider =
     (case provider of
        None \<Rightarrow> billing_channel.Unknown
      | Some s \<Rightarrow>
          if s = ''openai'' then OpenaiDirect else if s = ''anthropic'' then AnthropicDirect
          else if s = ''azure-openai'' then AzureOpenai else if s \<in> {''amazon-bedrock'', ''bedrock''} then AwsBedrock
          else if s = ''google-vertex'' then GoogleVertex else if s \<in> {''google'', ''gemini''} then GoogleDirect
          else if s = ''openrouter'' then Openrouter else if s = ''xai'' then XaiDirect
          else if s \<in> {''moonshotai'', ''kimi-for-coding''} then MoonshotDirect
          else if s = ''deepseek'' then DeepseekDirect else billing_channel.Unknown)"

definition explicit_source :: "billing_channel \<Rightarrow> channel_source" where
  "explicit_source channel = (if channel = billing_channel.Unknown then channel_source.Unknown else Explicit)"

definition pi_record ::
  "log_externs \<Rightarrow> json \<Rightarrow> json \<Rightarrow> string \<Rightarrow> string \<Rightarrow> string \<Rightarrow> nat \<times> nat \<times> nat \<times> nat \<times> nat \<Rightarrow> string option \<Rightarrow> usage_record" where
  "pi_record x value message file_id occurred_at model usage cost =
     (let (input, cache_read, cache_write, outp, reasoning) = usage;
          channel = pi_billing_channel (str_member ''provider'' message) in
      \<lparr>rec_event = \<lparr>ev_occurred_at = occurred_at, ev_agent = Pi, ev_model = model, ev_billing_channel = channel,
         ev_channel_source = explicit_source channel, ev_input_tokens = input, ev_cache_read_tokens = cache_read,
         ev_cache_write_5m_tokens = 0, ev_cache_write_1h_tokens = 0, ev_cache_write_inferred_tokens = cache_write,
         ev_output_tokens = outp, ev_reasoning_tokens = reasoning, ev_requests = 1,
         ev_context_bucket = context_bucket_of input, ev_service_tier = ''unknown'', ev_speed = ''unknown'',
         ev_inference_geo = ''unknown'', ev_billable_tools = no_tools, ev_source_cost_microusd = cost,
         ev_source_cost_covered_requests = (if cost \<noteq> None then 1 else 0),
         ev_project_key = Option.bind (or_else (cwd_from_value value)
           (Option.bind (object_member ''message'' value) cwd_from_value)) (project_key_from_cwd x)\<rparr>,
       rec_source_file_id = file_id, rec_key = []\<rparr>)"

definition pi_parse :: "log_externs \<Rightarrow> string \<Rightarrow> json \<Rightarrow> parsed_line" where
  "pi_parse x file_id value =
     (if str_member ''type'' value \<noteq> Some ''message'' then line_empty
      else case object_member ''message'' value of
        None \<Rightarrow> line_empty
      | Some message \<Rightarrow>
          if str_member ''role'' message \<noteq> Some ''assistant'' then line_empty
          else if str_member ''model'' message = Some ''unknown'' then line_empty
          else
     (case bounded_model (json_get ''model'' message) of
        None \<Rightarrow> line_refused InvalidModel
      | Some model \<Rightarrow>
     (case or_else (Option.bind (safe_count (json_get ''timestamp'' message)) (\<lambda>n. instant_text_of_millis x (int n)))
             (Option.bind (str_member ''timestamp'' value) (canonical_instant x)) of
        None \<Rightarrow> line_refused InvalidTimestamp
      | Some occurred_at \<Rightarrow>
     (case object_member ''usage'' message of
        None \<Rightarrow> line_refused InvalidUsage
      | Some usage \<Rightarrow>
     (case (pi_parse_usage usage, pi_source_cost (Option.bind (object_member ''cost'' usage) (json_get ''total''))) of
        (Some (input, cache_read, cache_write, outp, reasoning), Some cost) \<Rightarrow>
          if input = 0 \<and> cache_read = 0 \<and> cache_write = 0 \<and> outp = 0 \<and> reasoning = 0 \<and> no_cost cost
          then line_ignored_empty
          else \<lparr>line_records = [pi_record x value message file_id occurred_at model
                  (input, cache_read, cache_write, outp, reasoning) cost], line_reason = None, line_ignored = 0\<rparr>
      | _ \<Rightarrow> line_refused InvalidUsage)))))"

subsection \<open>Grok\<close>

definition grok_parse_usage :: "json \<Rightarrow> (nat \<times> nat \<times> nat \<times> nat \<times> nat) option" where
  "grok_parse_usage usage =
     Option.bind (safe_count (json_get ''inputTokens'' usage)) (\<lambda>input.
     Option.bind (safe_count (json_get ''outputTokens'' usage)) (\<lambda>outp.
     Option.bind (safe_count (json_get ''totalTokens'' usage)) (\<lambda>total.
     Option.bind (safe_count (json_get ''cachedReadTokens'' usage)) (\<lambda>cache_read.
     Option.bind (safe_count (json_get ''cacheCreationTokens'' usage)) (\<lambda>cache_write.
     Option.bind (safe_count (json_get ''reasoningTokens'' usage)) (\<lambda>reasoning.
     Option.bind (safe_sum [input, outp]) (\<lambda>s.
       if total \<noteq> s then None
       else Option.bind (safe_sum [cache_read, cache_write]) (\<lambda>cached.
         if cached \<le> input \<and> reasoning \<le> outp then Some (input, cache_read, cache_write, outp, reasoning)
         else None))))))))"

definition grok_exact_cost :: "json option \<Rightarrow> string option option" where
  "grok_exact_cost v =
     (case Option.bind v as_u64 of
        None \<Rightarrow> None
      | Some ticks \<Rightarrow>
          if ticks = 0 then Some None
          else (case checked_add ticks 5000 of
            None \<Rightarrow> None
          | Some n \<Rightarrow> let value = decimal_string (n div 10000) in if 32 < length value then None else Some (Some value)))"

definition grok_record ::
  "log_externs \<Rightarrow> json \<Rightarrow> string \<Rightarrow> string \<Rightarrow> string \<Rightarrow> nat \<Rightarrow> nat \<times> nat \<times> nat \<times> nat \<times> nat \<Rightarrow> string option \<Rightarrow> usage_record" where
  "grok_record x value file_id occurred_at model messages usage cost =
     (let (input, cache_read, cache_write, outp, reasoning) = usage in
      \<lparr>rec_event = \<lparr>ev_occurred_at = occurred_at, ev_agent = Grok, ev_model = model, ev_billing_channel = XaiDirect,
         ev_channel_source = AgentDefault, ev_input_tokens = input, ev_cache_read_tokens = cache_read,
         ev_cache_write_5m_tokens = 0, ev_cache_write_1h_tokens = 0, ev_cache_write_inferred_tokens = cache_write,
         ev_output_tokens = outp, ev_reasoning_tokens = reasoning, ev_requests = messages,
         ev_context_bucket = context_bucket_of input, ev_service_tier = ''unknown'', ev_speed = ''unknown'',
         ev_inference_geo = ''unknown'', ev_billable_tools = no_tools, ev_source_cost_microusd = cost,
         ev_source_cost_covered_requests = (if cost \<noteq> None then messages else 0),
         ev_project_key = Option.bind (or_else (cwd_from_value value)
           (Option.bind (object_member ''params'' value) cwd_from_value)) (project_key_from_cwd x)\<rparr>,
       rec_source_file_id = file_id, rec_key = []\<rparr>)"

definition grok_model_usage :: "log_externs \<Rightarrow> string \<Rightarrow> json \<Rightarrow> nat \<Rightarrow> nat \<Rightarrow> string \<Rightarrow> json \<Rightarrow> parsed_line" where
  "grok_model_usage x file_id value messages model_calls model model_usage =
     (if safe_count (json_get ''modelCalls'' model_usage) \<noteq> Some model_calls \<or> model_calls < messages
      then line_refused InvalidUsage
      else case Option.bind (safe_count (json_get ''timestamp'' value)) (\<lambda>n. instant_text_of_millis x (int n * 1000)) of
        None \<Rightarrow> line_refused InvalidTimestamp
      | Some occurred_at \<Rightarrow>
     (case (grok_parse_usage model_usage, grok_exact_cost (json_get ''costUsdTicks'' model_usage)) of
        (Some (input, cache_read, cache_write, outp, reasoning), Some cost) \<Rightarrow>
          if input = 0 \<and> cache_read = 0 \<and> cache_write = 0 \<and> outp = 0 \<and> reasoning = 0 \<and> cost = None
          then line_ignored_empty
          else \<lparr>line_records = [grok_record x value file_id occurred_at model messages
                  (input, cache_read, cache_write, outp, reasoning) cost], line_reason = None, line_ignored = 0\<rparr>
      | _ \<Rightarrow> line_refused InvalidUsage))"

definition grok_usage :: "log_externs \<Rightarrow> string \<Rightarrow> json \<Rightarrow> json \<Rightarrow> parsed_line" where
  "grok_usage x file_id value usage =
     (case (safe_count (json_get ''numTurns'' usage), safe_count (json_get ''modelCalls'' usage), json_get ''modelUsage'' usage) of
        (Some messages, Some model_calls, Some (JObj [(reported, model_value)])) \<Rightarrow>
          if messages = 0 then line_refused InvalidUsage
          else if reported = ''unknown'' then line_empty
          else (case bounded_model_text reported of
            None \<Rightarrow> line_refused InvalidModel
          | Some model \<Rightarrow>
              if \<not> is_object model_value then line_refused InvalidUsage
              else grok_model_usage x file_id value messages model_calls model model_value)
      | _ \<Rightarrow> line_refused InvalidUsage)"

definition grok_parse :: "log_externs \<Rightarrow> string \<Rightarrow> json \<Rightarrow> parsed_line" where
  "grok_parse x file_id value =
     (if str_member ''method'' value \<noteq> Some ''_x.ai/session/update'' then line_empty
      else case Option.bind (object_member ''params'' value) (object_member ''update'') of
        None \<Rightarrow> line_refused InvalidUsage
      | Some update \<Rightarrow>
          if str_member ''sessionUpdate'' update \<noteq> Some ''turn_completed'' then line_empty
          else (case json_get ''usage'' update of
            None \<Rightarrow> line_empty
          | Some JNull \<Rightarrow> line_empty
          | Some usage \<Rightarrow> if is_object usage then grok_usage x file_id value usage else line_refused InvalidUsage))"

subsection \<open>Codex\<close>

text \<open>A Codex log names the model and the settings once and counts in running totals, so the parser carries
  them from line to line, and keeps the records that came before the first model.\<close>

record token_usage =
  tu_input :: nat
  tu_cache_read :: nat
  tu_cache_write :: nat
  tu_output :: nat
  tu_reasoning :: nat
  tu_total :: nat

record codex_parser =
  cx_current_model :: "string option"
  cx_context_invalidated :: bool
  cx_service_tier :: string
  cx_speed :: string
  cx_billing_channel :: billing_channel
  cx_channel_source :: channel_source
  cx_previous_totals :: "token_usage option"
  cx_pending_records :: "usage_record list"
  cx_project_key :: "string option"

definition codex_default :: codex_parser where
  "codex_default = \<lparr>cx_current_model = None, cx_context_invalidated = False, cx_service_tier = [], cx_speed = [],
     cx_billing_channel = OpenaiDirect, cx_channel_source = AgentDefault, cx_previous_totals = None,
     cx_pending_records = [], cx_project_key = None\<rparr>"

definition explicit_billing_channel :: "string \<Rightarrow> billing_channel" where
  "explicit_billing_channel s = (if to_ascii_lowercase (trim s) = ''openai'' then OpenaiDirect else billing_channel.Unknown)"

definition codex_update_provider :: "json \<Rightarrow> codex_parser \<Rightarrow> codex_parser" where
  "codex_update_provider v c =
     (case str_member ''model_provider'' v of
        None \<Rightarrow> c
      | Some provider \<Rightarrow> c\<lparr>cx_billing_channel := explicit_billing_channel provider,
          cx_channel_source := explicit_source (explicit_billing_channel provider)\<rparr>)"

definition codex_invalidate_context :: "codex_parser \<Rightarrow> codex_parser" where
  "codex_invalidate_context c = c\<lparr>cx_current_model := None, cx_context_invalidated := True, cx_previous_totals := None,
     cx_pending_records := []\<rparr>"

definition first_not_null :: "json \<Rightarrow> string list \<Rightarrow> json option" where
  "first_not_null v keys =
     (case List.map_filter (\<lambda>key. if is_present (json_get key v) then json_get key v else None) keys of
        [] \<Rightarrow> None | w # _ \<Rightarrow> Some w)"

text \<open>\<open>None\<close> is the error, \<open>Some None\<close> no model named.\<close>

definition codex_model_from :: "json \<Rightarrow> json \<Rightarrow> string option option" where
  "codex_model_from payload info =
     (case or_else (first_not_null payload [''model'', ''model_name'']) (first_not_null info [''model'', ''model_name'']) of
        None \<Rightarrow> Some None
      | Some w \<Rightarrow> map_option Some (bounded_model (Some w)))"

definition codex_take_pending :: "codex_parser \<Rightarrow> codex_parser \<times> usage_record list" where
  "codex_take_pending c =
     (case cx_current_model c of
        None \<Rightarrow> (c, [])
      | Some model \<Rightarrow> (c\<lparr>cx_pending_records := []\<rparr>,
          map (\<lambda>r. r\<lparr>rec_event := (rec_event r)\<lparr>ev_model := model\<rparr>\<rparr>) (cx_pending_records c)))"

definition codex_settings :: "json \<Rightarrow> codex_parser \<Rightarrow> codex_parser \<times> coverage_reason_code option" where
  "codex_settings payload c =
     (let c = codex_update_provider payload c;
          with_tier = (\<lambda>tier speed. c\<lparr>cx_service_tier := tier, cx_speed := speed\<rparr>) in
      case Option.bind (object_member ''thread_settings'' payload) (json_get ''service_tier'') of
        None \<Rightarrow> (c, None)
      | Some w \<Rightarrow>
          if as_str w \<in> {Some ''fast'', Some ''priority''} then (with_tier ''priority'' ''fast'', None)
          else if as_str w \<in> {Some ''default'', Some ''standard''} then (with_tier ''standard'' ''standard'', None)
          else if as_str w = Some ''flex'' then (with_tier ''flex'' ''unknown'', None)
          else (with_tier ''unknown'' ''unknown'', Some InvalidUsage))"

definition codex_parse_token_usage :: "json \<Rightarrow> token_usage option" where
  "codex_parse_token_usage usage =
     (let count_if_present = (\<lambda>key. if has_key key usage then safe_count (json_get key usage) else Some 0) in
     if \<not> is_object usage then None
     else
     Option.bind (safe_count (json_get ''input_tokens'' usage)) (\<lambda>input.
     Option.bind (safe_count (json_get ''output_tokens'' usage)) (\<lambda>outp.
     Option.bind (count_if_present ''cached_input_tokens'') (\<lambda>cache_read.
     Option.bind (count_if_present ''cache_write_input_tokens'') (\<lambda>cache_write.
     Option.bind (count_if_present ''reasoning_output_tokens'') (\<lambda>reasoning.
     Option.bind (safe_sum [cache_read, cache_write]) (\<lambda>cached.
     Option.bind (safe_sum [input, outp]) (\<lambda>total.
       if cached \<le> input \<and> reasoning \<le> outp
       then Some \<lparr>tu_input = input, tu_cache_read = cache_read, tu_cache_write = cache_write, tu_output = outp,
             tu_reasoning = reasoning, tu_total = total\<rparr>
       else None))))))))"

definition optional_token_usage :: "json option \<Rightarrow> token_usage option option" where
  "optional_token_usage v =
     (case v of None \<Rightarrow> Some None | Some JNull \<Rightarrow> Some None | Some w \<Rightarrow> map_option Some (codex_parse_token_usage w))"

definition subtract_usage :: "token_usage \<Rightarrow> token_usage \<Rightarrow> token_usage option" where
  "subtract_usage current previous =
     (if tu_input current < tu_input previous \<or> tu_cache_read current < tu_cache_read previous \<or>
         tu_cache_write current < tu_cache_write previous \<or> tu_output current < tu_output previous \<or>
         tu_reasoning current < tu_reasoning previous \<or> tu_total current < tu_total previous
      then None
      else let u = \<lparr>tu_input = tu_input current - tu_input previous,
             tu_cache_read = tu_cache_read current - tu_cache_read previous,
             tu_cache_write = tu_cache_write current - tu_cache_write previous,
             tu_output = tu_output current - tu_output previous, tu_reasoning = tu_reasoning current - tu_reasoning previous,
             tu_total = tu_total current - tu_total previous\<rparr> in
        Option.bind (safe_sum [tu_cache_read u, tu_cache_write u]) (\<lambda>cached.
          if cached \<le> tu_input u \<and> tu_reasoning u \<le> tu_output u \<and> tu_total u = tu_input u + tu_output u
          then Some u else None))"

definition is_empty_usage :: "token_usage \<Rightarrow> bool" where
  "is_empty_usage u \<longleftrightarrow> tu_input u = 0 \<and> tu_cache_read u = 0 \<and> tu_cache_write u = 0 \<and> tu_output u = 0 \<and> tu_reasoning u = 0"

definition codex_record :: "codex_parser \<Rightarrow> string \<Rightarrow> string \<Rightarrow> token_usage \<Rightarrow> usage_record" where
  "codex_record c file_id occurred_at u =
     (let known = (\<lambda>s. if s = [] then ''unknown'' else s) in
      \<lparr>rec_event = \<lparr>ev_occurred_at = occurred_at, ev_agent = Codex,
         ev_model = (case cx_current_model c of Some m \<Rightarrow> m | None \<Rightarrow> ''unknown''),
         ev_billing_channel = cx_billing_channel c, ev_channel_source = cx_channel_source c,
         ev_input_tokens = tu_input u, ev_cache_read_tokens = tu_cache_read u, ev_cache_write_5m_tokens = 0,
         ev_cache_write_1h_tokens = 0, ev_cache_write_inferred_tokens = tu_cache_write u, ev_output_tokens = tu_output u,
         ev_reasoning_tokens = tu_reasoning u, ev_requests = 1, ev_context_bucket = context_bucket_of (tu_input u),
         ev_service_tier = known (cx_service_tier c), ev_speed = known (cx_speed c), ev_inference_geo = ''unknown'',
         ev_billable_tools = no_tools, ev_source_cost_microusd = None, ev_source_cost_covered_requests = 0,
         ev_project_key = cx_project_key c\<rparr>,
       rec_source_file_id = file_id, rec_key = []\<rparr>)"

text \<open>What a request used, from the running total and the last turn, and the total to remember. The record is
  kept back until a model is named.\<close>

definition codex_request_usage ::
  "token_usage option \<Rightarrow> token_usage option \<Rightarrow> codex_parser \<Rightarrow> codex_parser \<times> token_usage option" where
  "codex_request_usage total_usage last_usage c =
     (case total_usage of
        None \<Rightarrow> (c, last_usage)
      | Some t \<Rightarrow>
          if cx_previous_totals c = Some t then (c, None)
          else (c\<lparr>cx_previous_totals := Some t\<rparr>,
            case last_usage of
              Some u \<Rightarrow> Some u
            | None \<Rightarrow> or_else (Option.bind (cx_previous_totals c) (subtract_usage t)) (Some t)))"

definition codex_token_count :: "log_externs \<Rightarrow> string \<Rightarrow> string \<Rightarrow> json \<Rightarrow> json \<Rightarrow> codex_parser \<Rightarrow> codex_parser \<times> parsed_line" where
  "codex_token_count x file_id occurred_at payload info c =
     (let c = codex_update_provider info (codex_update_provider payload c) in
      case codex_model_from payload info of
        None \<Rightarrow> (codex_invalidate_context c, line_refused InvalidModel)
      | Some named \<Rightarrow>
     (let c = (case named of None \<Rightarrow> c | Some m \<Rightarrow> c\<lparr>cx_current_model := Some m, cx_context_invalidated := False\<rparr>) in
      if cx_current_model c = None \<and> cx_context_invalidated c then (c, line_refused InvalidModel)
      else let (c, records) = codex_take_pending c in
     (case (optional_token_usage (json_get ''total_token_usage'' info), optional_token_usage (json_get ''last_token_usage'' info)) of
        (Some total_usage, Some last_usage) \<Rightarrow>
          (case codex_request_usage total_usage last_usage c of
             (c, None) \<Rightarrow> (c, \<lparr>line_records = records, line_reason = None, line_ignored = 0\<rparr>)
           | (c, Some u) \<Rightarrow>
               if is_empty_usage u then (c, \<lparr>line_records = records, line_reason = None, line_ignored = 1\<rparr>)
               else let r = codex_record c file_id occurred_at u in
                 if cx_current_model c = None
                 then (c\<lparr>cx_pending_records := cx_pending_records c @ [r]\<rparr>,
                       \<lparr>line_records = records, line_reason = None, line_ignored = 0\<rparr>)
                 else (c, \<lparr>line_records = records @ [r], line_reason = None, line_ignored = 0\<rparr>))
      | _ \<Rightarrow> (c, \<lparr>line_records = records, line_reason = Some InvalidUsage, line_ignored = 0\<rparr>))))"

definition codex_event_message :: "log_externs \<Rightarrow> string \<Rightarrow> json \<Rightarrow> codex_parser \<Rightarrow> codex_parser \<times> parsed_line" where
  "codex_event_message x file_id value c =
     (case object_member ''payload'' value of
        None \<Rightarrow> (c, line_refused UnknownRecord)
      | Some payload \<Rightarrow>
     (case str_member ''type'' payload of
        None \<Rightarrow> (c, line_refused UnknownRecord)
      | Some kind \<Rightarrow>
          if kind = ''thread_settings_applied''
          then (case codex_settings payload c of (c, reason) \<Rightarrow> (c, line_empty\<lparr>line_reason := reason\<rparr>))
          else if kind \<noteq> ''token_count'' then (c, line_empty)
          else (case Option.bind (str_member ''timestamp'' value) (canonical_instant x) of
            None \<Rightarrow> (c, line_refused InvalidTimestamp)
          | Some occurred_at \<Rightarrow> (case json_get ''info'' payload of
              None \<Rightarrow> (c, line_empty)
            | Some JNull \<Rightarrow> (c, line_empty)
            | Some info \<Rightarrow> if is_object info then codex_token_count x file_id occurred_at payload info c
                else (c, line_refused InvalidUsage)))))"

definition codex_session_meta :: "log_externs \<Rightarrow> json \<Rightarrow> codex_parser \<Rightarrow> codex_parser" where
  "codex_session_meta x value c =
     (let payload = (case object_member ''payload'' value of Some p \<Rightarrow> p | None \<Rightarrow> value) in
      case or_else (cwd_from_value payload) (cwd_from_value value) of
        None \<Rightarrow> c | Some cwd \<Rightarrow> c\<lparr>cx_project_key := project_key_from_cwd x cwd\<rparr>)"

definition codex_turn_context :: "log_externs \<Rightarrow> json \<Rightarrow> codex_parser \<Rightarrow> codex_parser \<times> parsed_line" where
  "codex_turn_context x value c =
     (let payload = object_member ''payload'' value;
          c = (case payload of
                 None \<Rightarrow> c
               | Some p \<Rightarrow> let c = codex_update_provider p c in
                   case cwd_from_value p of None \<Rightarrow> c | Some cwd \<Rightarrow> c\<lparr>cx_project_key := project_key_from_cwd x cwd\<rparr>) in
      case bounded_model (Option.bind payload (json_get ''model'')) of
        None \<Rightarrow> (codex_invalidate_context c, line_refused InvalidModel)
      | Some model \<Rightarrow> (case codex_take_pending (c\<lparr>cx_current_model := Some model, cx_context_invalidated := False\<rparr>) of
          (c, records) \<Rightarrow> (c, line_empty\<lparr>line_records := records\<rparr>)))"

definition codex_parse :: "log_externs \<Rightarrow> string \<Rightarrow> json \<Rightarrow> codex_parser \<Rightarrow> codex_parser \<times> parsed_line" where
  "codex_parse x file_id value c =
     (case str_member ''type'' value of
        Some kind \<Rightarrow>
          if kind = ''session_meta'' then (codex_session_meta x value c, line_empty)
          else if kind = ''turn_context'' then codex_turn_context x value c
          else if kind = ''event_msg'' then codex_event_message x file_id value c
          else (c, if has_key ''usage'' value \<or> Option.bind (object_member ''payload'' value) (json_get ''info'') \<noteq> None
                   then line_refused UnknownRecord else line_empty)
      | None \<Rightarrow> (c, if has_key ''usage'' value \<or> Option.bind (object_member ''payload'' value) (json_get ''info'') \<noteq> None
                   then line_refused UnknownRecord else line_empty))"

definition codex_finish :: "codex_parser \<Rightarrow> codex_parser \<times> parsed_line" where
  "codex_finish c = (c\<lparr>cx_pending_records := []\<rparr>, line_empty)"

subsection \<open>What is parsed is valid\<close>

lemma max_safe_64: "max_safe_count < 2 ^ 64"
  by (simp add: max_safe_count_def)

lemma one_le_max_safe: "Suc 0 \<le> max_safe_count"
  by (simp add: max_safe_count_def)

lemma safe_sum2 [simp]: "safe_sum [a, b] = Some n \<longleftrightarrow> n = a + b \<and> a + b \<le> max_safe_count"
  using max_safe_64 by (auto simp: safe_sum_def checked_add_def bind_eq_Some_conv split: option.splits if_splits)

lemma safe_sum3 [simp]: "safe_sum [a, b, c] = Some n \<longleftrightarrow> n = a + b + c \<and> a + b + c \<le> max_safe_count"
  using max_safe_64 by (auto simp: safe_sum_def checked_add_def bind_eq_Some_conv split: option.splits if_splits)

lemma safe_count_le: "safe_count v = Some n \<Longrightarrow> n \<le> max_safe_count"
  by (auto simp: safe_count_def bind_eq_Some_conv split: if_splits)

lemma optional_count_le: "optional_count v = Some n \<Longrightarrow> n \<le> max_safe_count"
  by (auto simp: optional_count_def dest: safe_count_le split: option.splits json.splits)

lemma bounded_model_ok: "bounded_model v = Some m \<Longrightarrow> bounded_model_text m = Some m"
  by (auto simp: bounded_model_def bounded_model_text_def bind_eq_Some_conv split: if_splits)

lemma bounded_model_text_ok: "bounded_model_text s = Some m \<Longrightarrow> bounded_model_text m = Some m"
  by (auto simp: bounded_model_text_def split: if_splits)

lemma rounded_microusd_le: "rounded_microusd v = Some n \<Longrightarrow> n \<le> max_safe_count"
  by (auto simp: rounded_microusd_def Let_def split: option.splits if_splits)

lemma safe_decimal_length: "n \<le> max_safe_count \<Longrightarrow> length (decimal_string n) \<le> 32"
  by (rule length_decimal_string) (auto simp: max_safe_count_def)

text \<open>A dimension the check takes.\<close>

definition valid_dim :: "string \<Rightarrow> bool" where
  "valid_dim s \<longleftrightarrow> check_dimension s = Inr ()"

lemma valid_dim_words [simp]:
  "valid_dim ''unknown''" "valid_dim ''priority''" "valid_dim ''fast''" "valid_dim ''standard''" "valid_dim ''flex''"
  by code_simp+

lemma bounded_text_of_string:
  assumes "bounded_string v mx = Some s" shows "bounded_text s mx = Some s"
proof -
  have s: "s \<noteq> []" "length s \<le> mx" "list_all is_ascii s" "is_ascii_alphanumeric (hd s)"
    and rest: "list_all (\<lambda>c. is_ascii_alphanumeric c \<or> c \<in> set ''._:+-/'') (tl s)"
    using assms unfolding bounded_string_def by (simp_all add: bind_eq_Some_conv not_less split: if_splits del: list.set) blast+
  have "list_all (\<lambda>c. is_ascii_alphanumeric c \<or> c \<in> set ''._:+-/*'') (tl s)"
    using rest by (rule list.pred_mono_strong) auto
  then have "list_all (\<lambda>c. is_ascii_alphanumeric c \<or> c \<in> set ''._:+-/*'') s"
    using s(1,4) by (cases s) (simp_all del: list.set)
  with s show ?thesis unfolding bounded_text_def by (simp del: list.set)
qed

lemma bounded_dimension_valid: "bounded_dimension v = Some s \<Longrightarrow> valid_dim s \<longleftrightarrow> CHR ''/'' \<notin> set s"
  by (simp add: bounded_dimension_def bounded_text_of_string valid_dim_def check_dimension_def ensure_Inr)

lemma explicit_source_ok [simp]: "check_channel c (explicit_source c) = Inr ()"
  by (simp add: check_channel_def explicit_source_def result_simps)

lemma no_tools_fields [simp]: "web_search no_tools = 0" "web_fetch no_tools = 0"
  by (simp_all add: no_tools_def)

definition valid_record :: "usage_record \<Rightarrow> bool" where
  "valid_record r \<longleftrightarrow> validate_event (rec_event r) = Inr ()"

lemma each_step: "each c [] = Inr ()" "each c (a # as) = Inr () \<longleftrightarrow> c a = Inr () \<and> each c as = Inr ()"
  by (simp_all add: each_Inr)

lemma check_count_Inr [simp]: "check_count n = Inr () \<longleftrightarrow> n \<le> max_safe_count"
  by (simp add: check_count_def ensure_Inr)

lemma valid_record_iff:
  "valid_record r \<longleftrightarrow>
     (let e = rec_event r in
      bounded_model_text (ev_model e) \<noteq> None \<and> check_channel (ev_billing_channel e) (ev_channel_source e) = Inr () \<and>
      valid_dim (ev_service_tier e) \<and> valid_dim (ev_speed e) \<and> valid_dim (ev_inference_geo e) \<and>
      0 < ev_requests e \<and> ev_requests e \<le> max_safe_count \<and>
      each check_count [ev_input_tokens e, ev_cache_read_tokens e, ev_cache_write_5m_tokens e, ev_cache_write_1h_tokens e,
        ev_cache_write_inferred_tokens e, ev_output_tokens e, ev_reasoning_tokens e, web_search (ev_billable_tools e),
        web_fetch (ev_billable_tools e), ev_source_cost_covered_requests e] = Inr () \<and>
      check_subsets (ev_input_tokens e) (ev_cache_read_tokens e) (ev_cache_write_5m_tokens e) (ev_cache_write_1h_tokens e)
        (ev_cache_write_inferred_tokens e) (ev_output_tokens e) (ev_reasoning_tokens e) = Inr () \<and>
      check_source_cost (ev_source_cost_microusd e) (ev_source_cost_covered_requests e) (ev_requests e) = Inr ())"
  unfolding valid_record_def validate_event_def Let_def
  by (simp only: rbind_Inr ensure_Inr each_step valid_dim_def) (simp add: not_less each_step)

lemma pi_record_valid:
  assumes "r \<in> set (line_records (pi_parse x file_id value))"
  shows "valid_record r"
proof -
  from assms obtain message occurred_at model usage input cache_read cache_write outp reasoning cost where
    m: "bounded_model (json_get ''model'' message) = Some model"
    and u: "pi_parse_usage usage = Some (input, cache_read, cache_write, outp, reasoning)"
    and c: "pi_source_cost (Option.bind (object_member ''cost'' usage) (json_get ''total'')) = Some cost"
    and r: "r = pi_record x value message file_id occurred_at model (input, cache_read, cache_write, outp, reasoning) cost"
    by (auto simp: pi_parse_def line_empty_def line_refused_def line_ignored_empty_def split: if_splits option.splits)
  from u have "input \<le> max_safe_count" "cache_read + cache_write \<le> input" "outp \<le> max_safe_count" "reasoning \<le> outp"
    by (auto simp: pi_parse_usage_def bind_eq_Some_conv dest: safe_count_le split: if_splits)
  moreover from c have "case cost of None \<Rightarrow> True | Some v \<Rightarrow> length v \<le> 32 \<and> parse_nonnegative_decimal_integer v \<noteq> None"
    by (auto simp: pi_source_cost_def safe_decimal_length rounded_microusd_le split: option.splits json.splits if_splits)
  ultimately show ?thesis
    using bounded_model_ok [OF m] max_safe_64
    by (auto simp: valid_record_iff r pi_record_def Let_def each_Inr check_subsets_Inr check_source_cost_Inr max_safe_count_def split: option.splits)
qed

lemma grok_record_valid:
  assumes "r \<in> set (line_records (grok_parse x file_id value))"
  shows "valid_record r"
proof -
  from assms obtain model_usage reported occurred_at model messages model_calls input cache_read cache_write outp reasoning cost where
    m: "bounded_model_text reported = Some model" and n: "0 < messages" "model_calls \<le> max_safe_count" "messages \<le> model_calls"
    and u: "grok_parse_usage model_usage = Some (input, cache_read, cache_write, outp, reasoning)"
    and c: "grok_exact_cost (json_get ''costUsdTicks'' model_usage) = Some cost"
    and r: "r = grok_record x value file_id occurred_at model messages (input, cache_read, cache_write, outp, reasoning) cost"
    by (auto simp: grok_parse_def grok_usage_def grok_model_usage_def line_empty_def line_refused_def line_ignored_empty_def
        dest: safe_count_le split: if_splits option.splits json.splits list.splits prod.splits)
  from u have "input \<le> max_safe_count" "cache_read + cache_write \<le> input" "outp \<le> max_safe_count" "reasoning \<le> outp"
    by (auto simp: grok_parse_usage_def bind_eq_Some_conv dest: safe_count_le split: if_splits)
  moreover from c have "case cost of None \<Rightarrow> True | Some v \<Rightarrow> length v \<le> 32 \<and> parse_nonnegative_decimal_integer v \<noteq> None"
    by (auto simp: grok_exact_cost_def Let_def split: option.splits if_splits)
  moreover have "check_channel XaiDirect AgentDefault = Inr ()" by code_simp
  ultimately show ?thesis
    using bounded_model_text_ok [OF m] n max_safe_64
    by (auto simp: valid_record_iff r grok_record_def Let_def each_Inr check_subsets_Inr check_source_cost_Inr split: option.splits)
qed


text \<open>A Claude Code record is checked by its own parser but for a slash in its three dimensions.\<close>

lemma optional_dimension_valid: "optional_dimension v = Some s \<Longrightarrow> valid_dim s \<longleftrightarrow> CHR ''/'' \<notin> set s"
  by (auto simp: optional_dimension_def bounded_dimension_valid split: option.splits json.splits if_splits)

lemma claude_tokens_ok:
  "claude_parse_tokens usage = Some t \<Longrightarrow>
     ct_input t \<le> max_safe_count \<and> ct_output t \<le> max_safe_count \<and> ct_reasoning t \<le> ct_output t \<and>
     ct_cache_read t + ct_cache_write_5m t + ct_cache_write_1h t + ct_cache_write_inferred t \<le> ct_input t"
  by (auto simp: claude_parse_tokens_def claude_reasoning_def bind_eq_Some_conv dest: safe_count_le split: if_splits option.splits json.splits)

lemma claude_tools_ok:
  "claude_parse_tools v = Some t \<Longrightarrow> web_search t \<le> max_safe_count \<and> web_fetch t \<le> max_safe_count"
  by (auto simp: claude_parse_tools_def bind_eq_Some_conv dest: optional_count_le split: if_splits option.splits json.splits)

lemma claude_source_cost_ok:
  "claude_source_cost v = Some c \<Longrightarrow> (case c of None \<Rightarrow> \<not> is_present v
     | Some n \<Rightarrow> is_present v \<and> length n \<le> 32 \<and> parse_nonnegative_decimal_integer n \<noteq> None)"
  by (auto simp: claude_source_cost_def is_present_def safe_decimal_length rounded_microusd_le split: option.splits json.splits)

lemma synthetic_model_ok: "bounded_model_text ''synthetic'' = Some ''synthetic''"
  by code_simp

lemma claude_record_valid:
  assumes "r \<in> set (line_records (claude_parse x source file_id value))"
  shows "valid_record r \<longleftrightarrow> CHR ''/'' \<notin> set (ev_service_tier (rec_event r)) \<union> set (ev_speed (rec_event r)) \<union>
    set (ev_inference_geo (rec_event r))"
proof -
  from assms obtain message usage where "r \<in> set (line_records (claude_usage x source file_id value message usage))"
    by (auto simp: claude_parse_def line_empty_def line_refused_def Let_def split: if_splits option.splits)
  then obtain occurred_at model tokens dimensions tools cost where
    m: "(if str_member ''model'' message = Some ''<synthetic>'' then Some ''synthetic''
         else bounded_model (json_get ''model'' message)) = Some model"
    and t: "claude_parse_tokens usage = Some tokens" and d: "claude_parse_dimensions usage = Some dimensions"
    and w: "claude_parse_tools (json_get ''server_tool_use'' usage) = Some tools"
    and c: "claude_source_cost (json_get ''costUSD'' value) = Some cost"
    and r: "r = claude_record x source value file_id occurred_at model tokens dimensions tools cost"
    by (auto simp: claude_usage_def line_refused_def line_ignored_empty_def simp del: if_split
        split: option.splits if_split_asm)
  have "bounded_model_text model = Some model"
    using m bounded_model_ok synthetic_model_ok by (simp split: if_splits)
  moreover from d obtain a b e where "dimensions = (a, b, e)" "valid_dim a \<longleftrightarrow> CHR ''/'' \<notin> set a"
      "valid_dim b \<longleftrightarrow> CHR ''/'' \<notin> set b" "valid_dim e \<longleftrightarrow> CHR ''/'' \<notin> set e"
    by (auto simp: claude_parse_dimensions_def bind_eq_Some_conv optional_dimension_valid)
  moreover have "check_channel AnthropicDirect AgentDefault = Inr ()" "check_channel billing_channel.Unknown channel_source.Unknown = Inr ()"
    by code_simp+
  ultimately show ?thesis
    using claude_tokens_ok [OF t] claude_tools_ok [OF w] claude_source_cost_ok [OF c] max_safe_64 one_le_max_safe
    by (simp add: valid_record_iff r claude_record_def Let_def each_Inr check_subsets_Inr check_source_cost_Inr split: option.splits)
qed

text \<open>What a Codex parser carries would pass the check once a model is named.\<close>

definition token_usage_ok :: "token_usage \<Rightarrow> bool" where
  "token_usage_ok u \<longleftrightarrow> tu_input u \<le> max_safe_count \<and> tu_output u \<le> max_safe_count \<and>
     tu_cache_read u + tu_cache_write u \<le> tu_input u \<and> tu_reasoning u \<le> tu_output u"

definition valid_once_named :: "usage_record \<Rightarrow> bool" where
  "valid_once_named r \<longleftrightarrow> (\<forall>m. bounded_model_text m \<noteq> None \<longrightarrow> valid_record (r\<lparr>rec_event := (rec_event r)\<lparr>ev_model := m\<rparr>\<rparr>))"

definition codex_ok :: "codex_parser \<Rightarrow> bool" where
  "codex_ok c \<longleftrightarrow> check_channel (cx_billing_channel c) (cx_channel_source c) = Inr () \<and>
     (cx_service_tier c = [] \<or> valid_dim (cx_service_tier c)) \<and> (cx_speed c = [] \<or> valid_dim (cx_speed c)) \<and>
     (\<forall>m. cx_current_model c = Some m \<longrightarrow> bounded_model_text m \<noteq> None) \<and>
     (\<forall>r \<in> set (cx_pending_records c). valid_once_named r)"

lemma codex_default_ok: "codex_ok codex_default"
  unfolding codex_ok_def by (simp add: codex_default_def) code_simp

lemma codex_parse_token_usage_ok: "codex_parse_token_usage v = Some u \<Longrightarrow> token_usage_ok u"
  by (auto simp: codex_parse_token_usage_def token_usage_ok_def bind_eq_Some_conv dest: safe_count_le split: if_splits)

lemma subtract_usage_ok: "subtract_usage t p = Some u \<Longrightarrow> token_usage_ok t \<Longrightarrow> token_usage_ok u"
  by (auto simp: subtract_usage_def token_usage_ok_def bind_eq_Some_conv Let_def split: if_splits)

lemma codex_record_named:
  assumes "codex_ok c" "token_usage_ok u" shows "valid_once_named (codex_record c f t0 u)"
  using assms max_safe_64
  by (auto simp: valid_once_named_def valid_record_iff codex_record_def codex_ok_def token_usage_ok_def Let_def each_Inr
      check_subsets_Inr check_source_cost_Inr max_safe_count_def)

lemma codex_record_valid:
  assumes "codex_ok c" "token_usage_ok u" "cx_current_model c \<noteq> None" shows "valid_record (codex_record c f t0 u)"
proof -
  from assms(3) obtain m where m: "cx_current_model c = Some m" by blast
  then have "(codex_record c f t0 u)\<lparr>rec_event := (rec_event (codex_record c f t0 u))\<lparr>ev_model := m\<rparr>\<rparr> = codex_record c f t0 u"
    by (simp add: codex_record_def Let_def)
  with codex_record_named [OF assms(1,2), of f t0] m assms(1) show ?thesis
    unfolding valid_once_named_def codex_ok_def by metis
qed

lemma codex_update_provider_ok: "codex_ok c \<Longrightarrow> codex_ok (codex_update_provider v c)"
  by (simp add: codex_update_provider_def codex_ok_def split: option.splits)

lemma codex_invalidate_ok: "codex_ok c \<Longrightarrow> codex_ok (codex_invalidate_context c)"
  by (simp add: codex_invalidate_context_def codex_ok_def)

lemma codex_take_pending_ok:
  assumes "codex_ok c" "codex_take_pending c = (c', rs)"
  shows "codex_ok c' \<and> (\<forall>r \<in> set rs. valid_record r) \<and> cx_current_model c' = cx_current_model c"
  using assms by (auto simp: codex_take_pending_def codex_ok_def valid_once_named_def split: option.splits)

lemma codex_request_usage_ok:
  assumes "codex_ok c" "codex_request_usage t l c = (c', u)" "\<And>v. t = Some v \<Longrightarrow> token_usage_ok v" "\<And>v. l = Some v \<Longrightarrow> token_usage_ok v"
  shows "codex_ok c' \<and> cx_current_model c' = cx_current_model c \<and> (\<forall>v. u = Some v \<longrightarrow> token_usage_ok v)"
  using assms subtract_usage_ok
  by (auto simp: codex_request_usage_def codex_ok_def or_else_def bind_eq_Some_conv split: option.splits if_splits)

lemma optional_token_usage_ok: "optional_token_usage v = Some (Some u) \<Longrightarrow> token_usage_ok u"
  by (auto simp: optional_token_usage_def codex_parse_token_usage_ok split: option.splits json.splits)

lemma codex_model_from_ok: "codex_model_from p i = Some (Some m) \<Longrightarrow> bounded_model_text m \<noteq> None"
  by (auto simp: codex_model_from_def dest: bounded_model_ok split: option.splits)

lemma codex_token_count_ok:
  assumes "codex_ok c" "codex_token_count x f t0 payload info c = (c', l)"
  shows "codex_ok c' \<and> (\<forall>r \<in> set (line_records l). valid_record r)"
proof -
  define c0 where "c0 = codex_update_provider info (codex_update_provider payload c)"
  have c0: "codex_ok c0" using assms(1) by (simp add: c0_def codex_update_provider_ok)
  show ?thesis
  proof (cases "codex_model_from payload info")
    case None
    then show ?thesis using assms(2) c0 codex_invalidate_ok
      by (auto simp: codex_token_count_def c0_def [symmetric] line_refused_def)
  next
    case (Some named)
    define c1 where "c1 = (case named of None \<Rightarrow> c0 | Some m \<Rightarrow> c0\<lparr>cx_current_model := Some m, cx_context_invalidated := False\<rparr>)"
    have c1: "codex_ok c1"
      using c0 Some codex_model_from_ok by (auto simp: c1_def codex_ok_def split: option.splits)
    obtain c2 rs where t: "codex_take_pending c1 = (c2, rs)" by fastforce
    note c2 = codex_take_pending_ok [OF c1 t]
    let ?t = "optional_token_usage (json_get ''total_token_usage'' info)"
    let ?l = "optional_token_usage (json_get ''last_token_usage'' info)"
    have eq: "codex_token_count x f t0 payload info c =
      (if cx_current_model c1 = None \<and> cx_context_invalidated c1 then (c1, line_refused InvalidModel)
       else (case (?t, ?l) of
        (Some total_usage, Some last_usage) \<Rightarrow>
          (case codex_request_usage total_usage last_usage c2 of
             (c, None) \<Rightarrow> (c, \<lparr>line_records = rs, line_reason = None, line_ignored = 0\<rparr>)
           | (c, Some u) \<Rightarrow>
               if is_empty_usage u then (c, \<lparr>line_records = rs, line_reason = None, line_ignored = 1\<rparr>)
               else let r = codex_record c f t0 u in
                 if cx_current_model c = None
                 then (c\<lparr>cx_pending_records := cx_pending_records c @ [r]\<rparr>,
                       \<lparr>line_records = rs, line_reason = None, line_ignored = 0\<rparr>)
                 else (c, \<lparr>line_records = rs @ [r], line_reason = None, line_ignored = 0\<rparr>))
      | _ \<Rightarrow> (c2, \<lparr>line_records = rs, line_reason = Some InvalidUsage, line_ignored = 0\<rparr>)))"
      by (simp only: codex_token_count_def Let_def c0_def [symmetric] Some option.case c1_def [symmetric] t prod.case)
    show ?thesis
    proof (cases "\<exists>tu lu. ?t = Some tu \<and> ?l = Some lu \<and> \<not> (cx_current_model c1 = None \<and> cx_context_invalidated c1)")
      case False
      then show ?thesis using assms(2) c1 c2 unfolding eq by (auto simp: line_refused_def split: if_splits option.splits)
    next
      case True
      then obtain tu lu where tl: "?t = Some tu" "?l = Some lu" "\<not> (cx_current_model c1 = None \<and> cx_context_invalidated c1)" by blast
      obtain c3 u where q: "codex_request_usage tu lu c2 = (c3, u)" by fastforce
      have c3: "codex_ok c3 \<and> cx_current_model c3 = cx_current_model c2 \<and> (\<forall>v. u = Some v \<longrightarrow> token_usage_ok v)"
        using codex_request_usage_ok [OF conjunct1 [OF c2] q] tl optional_token_usage_ok by blast
      from assms(2) have e: "(case u of None \<Rightarrow> (c3, \<lparr>line_records = rs, line_reason = None, line_ignored = 0\<rparr>)
           | Some u \<Rightarrow>
               if is_empty_usage u then (c3, \<lparr>line_records = rs, line_reason = None, line_ignored = 1\<rparr>)
               else let r = codex_record c3 f t0 u in
                 if cx_current_model c3 = None
                 then (c3\<lparr>cx_pending_records := cx_pending_records c3 @ [r]\<rparr>,
                       \<lparr>line_records = rs, line_reason = None, line_ignored = 0\<rparr>)
                 else (c3, \<lparr>line_records = rs @ [r], line_reason = None, line_ignored = 0\<rparr>)) = (c', l)"
        unfolding eq by (simp only: tl if_False prod.case option.case q)
      show ?thesis
      proof (cases u)
        case None then show ?thesis using e c2 c3 by auto
      next
        case (Some v)
        have "valid_once_named (codex_record c3 f t0 v)" "cx_current_model c3 \<noteq> None \<Longrightarrow> valid_record (codex_record c3 f t0 v)"
          using c3 Some codex_record_named codex_record_valid by blast+
        then show ?thesis using e Some c2 c3 by (auto simp: Let_def codex_ok_def split: if_splits)
      qed
    qed
  qed
qed

definition keeps_codex :: "codex_parser \<Rightarrow> codex_parser \<times> parsed_line \<Rightarrow> bool" where
  "keeps_codex c out \<longleftrightarrow> (codex_ok c \<longrightarrow> codex_ok (fst out) \<and> (\<forall>r \<in> set (line_records (snd out)). valid_record r))"

lemma keeps_codex_no_records:
  "\<lbrakk>codex_ok c \<Longrightarrow> codex_ok c'; line_records l = []\<rbrakk> \<Longrightarrow> keeps_codex c (c', l)"
  by (simp add: keeps_codex_def)

lemma no_records [simp]: "line_records (line_refused why) = []" "line_records line_empty = []" "line_records line_ignored_empty = []"
  by (simp_all add: line_refused_def line_empty_def line_ignored_empty_def)

lemma codex_tier_ok:
  "\<lbrakk>codex_ok c; valid_dim tier; valid_dim speed\<rbrakk> \<Longrightarrow> codex_ok (c\<lparr>cx_service_tier := tier, cx_speed := speed\<rparr>)"
  by (simp add: codex_ok_def)

lemma codex_settings_ok: "codex_ok c \<Longrightarrow> codex_ok (fst (codex_settings p c))"
  by (simp add: codex_settings_def Let_def codex_tier_ok codex_update_provider_ok del: insert_iff split: option.split)

lemma codex_token_count_keeps: "keeps_codex c (codex_token_count x f t0 p i c)"
  using codex_token_count_ok [of c x f t0 p i] by (cases "codex_token_count x f t0 p i c") (auto simp: keeps_codex_def)

lemma codex_event_message_ok: "keeps_codex c (codex_event_message x f v c)"
  by (simp add: codex_event_message_def split_beta codex_settings_ok codex_token_count_keeps keeps_codex_no_records
      split: option.split json.split)

lemma codex_project_ok: "codex_ok c \<Longrightarrow> codex_ok (c\<lparr>cx_project_key := k\<rparr>)"
  by (simp add: codex_ok_def)

lemma codex_turn_context_ok: "keeps_codex c (codex_turn_context x v c)"
proof (cases "bounded_model (Option.bind (object_member ''payload'' v) (json_get ''model''))")
  case None
  then show ?thesis
    by (auto simp: codex_turn_context_def Let_def intro!: keeps_codex_no_records codex_invalidate_ok codex_project_ok codex_update_provider_ok
        split: option.splits)
next
  case (Some m)
  let ?p = "object_member ''payload'' v"
  define c1 where "c1 = (case ?p of None \<Rightarrow> c
               | Some p \<Rightarrow> let c = codex_update_provider p c in
                   case cwd_from_value p of None \<Rightarrow> c | Some cwd \<Rightarrow> c\<lparr>cx_project_key := project_key_from_cwd x cwd\<rparr>)"
  define c2 where "c2 = c1\<lparr>cx_current_model := Some m, cx_context_invalidated := False\<rparr>"
  obtain c3 rs where t: "codex_take_pending c2 = (c3, rs)" by fastforce
  have "codex_turn_context x v c = (c3, line_empty\<lparr>line_records := rs\<rparr>)"
    using t by (simp only: codex_turn_context_def Let_def c1_def [unfolded Let_def, symmetric] Some option.case c2_def [symmetric] prod.case)
  moreover have "codex_ok c \<Longrightarrow> codex_ok c1"
    by (auto simp: c1_def Let_def intro!: codex_project_ok codex_update_provider_ok split: option.splits)
  then have "codex_ok c \<Longrightarrow> codex_ok c2"
    using bounded_model_ok [OF Some] by (simp add: codex_ok_def c2_def)
  ultimately show ?thesis using codex_take_pending_ok [OF _ t] by (simp add: keeps_codex_def)
qed

lemma codex_session_meta_ok: "codex_ok c \<Longrightarrow> codex_ok (codex_session_meta x v c)"
  by (auto simp: codex_session_meta_def Let_def intro!: codex_project_ok split: option.splits)

lemma codex_parse_ok: "keeps_codex c (codex_parse x f v c)"
  by (simp add: codex_parse_def codex_event_message_ok codex_turn_context_ok codex_session_meta_ok keeps_codex_no_records
      split: option.split)

lemma codex_finish_ok: "keeps_codex c (codex_finish c)"
  by (simp add: codex_finish_def keeps_codex_def codex_ok_def)

end
