(* ===== verification/Usage_Read.thy ===== *)
theory Usage_Read
  imports Prelude
begin

text \<open>
  How a log is read line by line (\<open>read_jsonl\<close> and \<open>PrefixDigest\<close> of
  \<open>packages/service/src/usage/scan.rs\<close>). A reader is the buffers it will hand out, one of which may be an
  error; the two callbacks carry a state of their own. A digest is the bytes it has been fed, and what SHA-256
  prints of them is a parameter. An offset is a file's, so its saturating sums are exact. What the lemmas show:
  how a log is cut into buffers does not matter (\<open>read_jsonl_text\<close>); a run nothing stops hands over what the
  text holds (\<open>read_text_unstopped\<close>), and that is what its complete lines hold, then what follows them, under
  the same names (\<open>text_items_append\<close>).
\<close>

subsection \<open>Buffers\<close>

definition max_jsonl_line_bytes :: nat where "max_jsonl_line_bytes = 16 * 1024 * 1024"

datatype fill = Buffer string | ReadFailed

text \<open>The bytes a digest was fed, up to where it stands and up to the last line boundary.\<close>

record prefix_digest =
  through :: string
  boundary :: string

definition digest_of :: "string \<Rightarrow> prefix_digest" where
  "digest_of covered = \<lparr>through = covered, boundary = covered\<rparr>"

definition digest_read :: "string \<Rightarrow> prefix_digest \<Rightarrow> prefix_digest" where
  "digest_read bytes d = d\<lparr>through := through d @ bytes\<rparr>"

definition mark_boundary :: "prefix_digest \<Rightarrow> prefix_digest" where
  "mark_boundary d = d\<lparr>boundary := through d\<rparr>"

definition newline :: char where "newline = CHR 0x0A"

definition trim_cr :: "string \<Rightarrow> string" where
  "trim_cr s = (if s \<noteq> [] \<and> last s = CHR 0x0D then butlast s else s)"

subsection \<open>The loop\<close>

record jsonl =
  pending :: string
  discarding :: bool
  position :: nat
  line_start :: nat
  digest :: prefix_digest

text \<open>A buffer, up to its newline: the line so far, and whether it just became too long. The bytes past the
  newline stay in the reader.\<close>

definition take_segment :: "string \<Rightarrow> jsonl \<Rightarrow> jsonl \<times> bool" where
  "take_segment segment j =
     (if discarding j then (j, False)
      else if max_jsonl_line_bytes < length (pending j) + length segment
      then (j\<lparr>pending := [], discarding := True\<rparr>, True)
      else (j\<lparr>pending := pending j @ segment\<rparr>, False))"

definition consume :: "string \<Rightarrow> jsonl \<Rightarrow> jsonl" where
  "consume bytes j = j\<lparr>digest := digest_read bytes (digest j), position := position j + length bytes\<rparr>"

definition next_line :: "jsonl \<Rightarrow> jsonl" where
  "next_line j = j\<lparr>pending := [], discarding := False, line_start := position j, digest := mark_boundary (digest j)\<rparr>"

text \<open>The callback for a line: the line, whether it is unterminated and where it starts. It answers whether to
  read on.\<close>

type_synonym 's on_line = "string \<Rightarrow> bool \<Rightarrow> nat \<Rightarrow> 's \<Rightarrow> bool \<times> 's"

definition hand_over :: "'s on_line \<Rightarrow> bool \<Rightarrow> jsonl \<Rightarrow> 's \<Rightarrow> bool \<times> 's" where
  "hand_over on_line unterminated j s =
     (if discarding j \<or> pending j = [] \<or> trim_cr (pending j) = [] then (True, s)
      else on_line (trim_cr (pending j)) unterminated (line_start j) s)"

definition at_end :: "'s on_line \<Rightarrow> jsonl \<Rightarrow> 's \<Rightarrow> 's \<times> (nat \<times> string) option" where
  "at_end on_line j s =
     (snd (hand_over on_line True j s),
      Some (if pending j = [] then (position j, through (digest j))
            else (position j - length (pending j), boundary (digest j))))"

definition unread :: "string \<Rightarrow> fill list \<Rightarrow> fill list" where
  "unread bytes reader = (if bytes = [] then reader else Buffer bytes # reader)"

fun buffered :: "fill \<Rightarrow> nat" where
  "buffered (Buffer b) = length b"
| "buffered ReadFailed = 0"

function read_loop ::
  "'s on_line \<Rightarrow> ('s \<Rightarrow> 's) \<Rightarrow> fill list \<Rightarrow> jsonl \<Rightarrow> 's \<Rightarrow> 's \<times> (nat \<times> string) option" where
  "read_loop on_line on_oversized [] j s = at_end on_line j s"
| "read_loop on_line on_oversized (ReadFailed # reader) j s = (s, None)"
| "read_loop on_line on_oversized (Buffer buffer # reader) j s =
     (if buffer = [] then at_end on_line j s
      else
        let segment = takeWhile (\<lambda>c. c \<noteq> newline) buffer;
            found = (newline \<in> set buffer);
            consumed = length segment + (if found then 1 else 0);
            (j, oversized) = take_segment segment j;
            s = (if oversized then on_oversized s else s);
            j = consume (take consumed buffer) j;
            reader = unread (drop consumed buffer) reader
        in
        if \<not> found then read_loop on_line on_oversized reader j s
        else case hand_over on_line False j s of
          (False, s) \<Rightarrow> (s, Some (position j, through (digest j)))
        | (True, s) \<Rightarrow> read_loop on_line on_oversized reader (next_line j) s)"
  by pat_completeness auto
termination
proof (relation "measure (\<lambda>(_, _, reader, _, _). (\<Sum>f \<leftarrow> reader. buffered f) + length reader)", goal_cases)
  case (2 l ov buffer reader j s)
  then show ?case by (cases buffer) (auto simp: unread_def)
next
  case (3 l ov buffer reader j s)
  then show ?case by (auto simp: unread_def)
qed simp

declare read_loop.simps(3) [simp del]

text \<open>\<open>read_jsonl\<close>: the offset after the last complete line and what SHA-256 prints of everything before it, or
  no answer when a read failed.\<close>

definition read_jsonl ::
  "(string \<Rightarrow> string) \<Rightarrow> fill list \<Rightarrow> nat \<Rightarrow> string \<Rightarrow> 's on_line \<Rightarrow> ('s \<Rightarrow> 's) \<Rightarrow> 's \<Rightarrow> 's \<times> (nat \<times> string) option" where
  "read_jsonl sha256_hex reader start covered on_line on_oversized s =
     (case read_loop on_line on_oversized reader
        \<lparr>pending = [], discarding = False, position = start, line_start = start, digest = digest_of covered\<rparr> s of
        (s, answer) \<Rightarrow> (s, map_option (\<lambda>(offset, bytes). (offset, sha256_hex bytes)) answer))"

subsection \<open>The text read whole\<close>

text \<open>What a line of a text does to the callbacks' state.\<close>

definition deliver :: "'s on_line \<Rightarrow> ('s \<Rightarrow> 's) \<Rightarrow> string \<Rightarrow> bool \<Rightarrow> nat \<Rightarrow> 's \<Rightarrow> bool \<times> 's" where
  "deliver on_line on_oversized line unterminated start s =
     (if max_jsonl_line_bytes < length line then (True, on_oversized s)
      else if trim_cr line = [] then (True, s)
      else on_line (trim_cr line) unterminated start s)"

definition first_line :: "string \<Rightarrow> string" where "first_line text = takeWhile (\<lambda>c. c \<noteq> newline) text"

definition after_first_line :: "string \<Rightarrow> string" where "after_first_line text = drop (Suc (length (first_line text))) text"

lemma length_after_first_line: "newline \<in> set text \<Longrightarrow> length (after_first_line text) < length text"
  by (cases "text") (auto simp: after_first_line_def)

text \<open>The text line by line, from the offset its first byte has: the state at the end and how many of its bytes
  the answer covers.\<close>

function read_text ::
  "'s on_line \<Rightarrow> ('s \<Rightarrow> 's) \<Rightarrow> string \<Rightarrow> nat \<Rightarrow> 's \<Rightarrow> 's \<times> nat" where
  "read_text on_line on_oversized text start s =
     (if newline \<in> set text
      then let done = Suc (length (first_line text)) in
        case deliver on_line on_oversized (first_line text) False start s of
          (False, s) \<Rightarrow> (s, done)
        | (True, s) \<Rightarrow>
            (case read_text on_line on_oversized (after_first_line text) (start + done) s of
               (s, covered) \<Rightarrow> (s, done + covered))
      else (snd (deliver on_line on_oversized text True start s),
            if max_jsonl_line_bytes < length text then length text else 0))"
  by pat_completeness auto
termination
  by (relation "measure (\<lambda>(_, _, text, _, _). length text)") (auto simp: length_after_first_line)

declare read_text.simps [simp del]

subsection \<open>Buffers do not matter\<close>

fun all_read :: "fill list \<Rightarrow> bool" where
  "all_read [] \<longleftrightarrow> True"
| "all_read (Buffer b # reader) \<longleftrightarrow> b \<noteq> [] \<and> all_read reader"
| "all_read (ReadFailed # reader) \<longleftrightarrow> False"

fun bytes_of :: "fill list \<Rightarrow> string" where
  "bytes_of [] = []"
| "bytes_of (Buffer b # reader) = b @ bytes_of reader"
| "bytes_of (ReadFailed # reader) = bytes_of reader"

lemma all_read_unread [simp]: "all_read (unread bytes reader) = all_read reader"
  by (simp add: unread_def)

lemma bytes_of_unread [simp]: "bytes_of (unread bytes reader) = bytes @ bytes_of reader"
  by (simp add: unread_def)

lemma first_line_split:
  assumes "newline \<notin> set q" "newline \<in> set b"
  shows "first_line (q @ b @ t) = q @ takeWhile (\<lambda>c. c \<noteq> newline) b"
    "after_first_line (q @ b @ t) = drop (Suc (length (takeWhile (\<lambda>c. c \<noteq> newline) b))) b @ t"
proof -
  let ?w = "takeWhile (\<lambda>c. c \<noteq> newline) b"
  have "length ?w < length b" using assms(2) by (induction b) auto
  moreover show "first_line (q @ b @ t) = q @ ?w"
  proof -
    have "\<And>c. c \<in> set q \<Longrightarrow> c \<noteq> newline" using assms(1) by blast
    then have "takeWhile (\<lambda>c. c \<noteq> newline) (q @ b @ t) = q @ takeWhile (\<lambda>c. c \<noteq> newline) (b @ t)" by (rule takeWhile_append2)
    also have "takeWhile (\<lambda>c. c \<noteq> newline) (b @ t) = ?w" by (rule takeWhile_append1 [OF assms(2)]) simp
    finally show ?thesis unfolding first_line_def .
  qed
  ultimately show "after_first_line (q @ b @ t) = drop (Suc (length ?w)) b @ t"
    unfolding after_first_line_def by simp
qed

text \<open>A loop within a line: what it holds of the line so far is \<open>q\<close>, or \<open>q\<close> was too long and was reported.\<close>

definition within :: "('s \<Rightarrow> 's) \<Rightarrow> string \<Rightarrow> nat \<Rightarrow> string \<Rightarrow> 's \<Rightarrow> jsonl \<Rightarrow> 's \<Rightarrow> bool" where
  "within on_oversized covered start q s j s' \<longleftrightarrow>
     newline \<notin> set q \<and> line_start j = start \<and> position j = start + length q \<and>
     digest j = \<lparr>through = covered @ q, boundary = covered\<rparr> \<and>
     (if length q \<le> max_jsonl_line_bytes then \<not> discarding j \<and> pending j = q \<and> s' = s
      else discarding j \<and> pending j = [] \<and> s' = on_oversized s)"

definition answer_of :: "string \<Rightarrow> nat \<Rightarrow> string \<Rightarrow> 's \<times> nat \<Rightarrow> 's \<times> (nat \<times> string) option" where
  "answer_of covered start bytes r = (case r of (s, n) \<Rightarrow> (s, Some (start + n, covered @ take n bytes)))"

lemma at_end_within:
  assumes "within on_oversized covered start q s j s'"
  shows "at_end on_line j s' = answer_of covered start q (read_text on_line on_oversized q start s)"
  using assms
  by (auto simp: within_def at_end_def hand_over_def answer_of_def read_text.simps [of _ _ q] deliver_def trim_cr_def split: if_splits)

lemma take_segment_within:
  assumes "within on_oversized covered start q s j s'" "newline \<notin> set seg" "take_segment seg j = (j1, oversized)"
  shows "within on_oversized covered start (q @ seg) s (consume seg j1) (if oversized then on_oversized s' else s')"
  using assms
  by (auto simp: within_def take_segment_def consume_def digest_read_def split: if_splits)

lemma hand_over_within:
  assumes "within on_oversized covered start q s j s'" "take_segment seg j = (j1, oversized)" "newline \<notin> set seg"
  shows "hand_over on_line False (consume chunk j1) (if oversized then on_oversized s' else s') =
    deliver on_line on_oversized (q @ seg) False start s"
  using assms
  by (auto simp: within_def take_segment_def consume_def hand_over_def deliver_def trim_cr_def split: if_splits)

lemma next_line_within:
  assumes "within on_oversized covered start q s j s'" "take_segment seg j = (j1, oversized)"
  shows "within on_oversized (covered @ q @ bytes) (start + length q + length bytes) [] s'' (next_line (consume bytes j1)) s''"
  using assms
  by (auto simp: within_def take_segment_def consume_def next_line_def digest_read_def mark_boundary_def split: if_splits)

lemma take_segment_newline:
  "newline \<in> set b \<Longrightarrow> take (Suc (length (takeWhile (\<lambda>c. c \<noteq> newline) b))) b = takeWhile (\<lambda>c. c \<noteq> newline) b @ [newline]"
  by (induction b) auto

lemma read_text_line:
  assumes "newline \<notin> set q" "newline \<in> set b"
  defines "w \<equiv> takeWhile (\<lambda>c. c \<noteq> newline) b"
  shows "read_text on_line on_oversized (q @ b @ t) start s =
    (case deliver on_line on_oversized (q @ w) False start s of
       (False, s) \<Rightarrow> (s, Suc (length (q @ w)))
     | (True, s) \<Rightarrow> (case read_text on_line on_oversized (drop (Suc (length w)) b @ t) (start + Suc (length (q @ w))) s of
         (s, n) \<Rightarrow> (s, Suc (length (q @ w)) + n)))"
  using assms first_line_split [OF assms(1,2)]
  by (subst read_text.simps) (simp only: w_def Let_def, simp)

lemma read_buffer_text:
  assumes ih: "\<And>reader' j s' covered start q s.
      length (bytes_of reader') + length reader' < length (b @ bytes_of reader) + Suc (length reader) \<Longrightarrow>
      all_read reader' \<Longrightarrow> within on_oversized covered start q s j s' \<Longrightarrow>
      read_loop on_line on_oversized reader' j s' =
        answer_of covered start (q @ bytes_of reader') (read_text on_line on_oversized (q @ bytes_of reader') start s)"
    and reader: "all_read (Buffer b # reader)" and j: "within on_oversized covered start q s j s'"
  shows "read_loop on_line on_oversized (Buffer b # reader) j s' =
    answer_of covered start (q @ b @ bytes_of reader) (read_text on_line on_oversized (q @ b @ bytes_of reader) start s)"
proof -
  define w where "w = takeWhile (\<lambda>c. c \<noteq> newline) b"
  have w: "newline \<notin> set w" unfolding w_def by (auto dest: set_takeWhileD)
  have b: "b \<noteq> []" and rd: "all_read reader" using reader by simp_all
  obtain j1 oversized where seg: "take_segment w j = (j1, oversized)" by fastforce
  define s1 where "s1 = (if oversized then on_oversized s' else s')"
  show ?thesis
  proof (cases "newline \<in> set b")
    case False
    then have wb: "w = b" unfolding w_def by (intro takeWhile_eq_all_conv [THEN iffD2] ballI) auto
    have "within on_oversized covered start (q @ b) s (consume b j1) s1"
      using take_segment_within [OF j w seg] by (simp add: s1_def wb)
    note i = ih [OF _ rd this]
    have "read_loop on_line on_oversized (Buffer b # reader) j s' = read_loop on_line on_oversized reader (consume b j1) s1"
    proof -
      have "take_segment b j = (j1, oversized)" using seg wb by simp
      then show ?thesis using b False
        by (subst read_loop.simps(3)) (simp add: wb [unfolded w_def] Let_def s1_def unread_def del: takeWhile_eq_all_conv)
    qed
    then show ?thesis using i by simp
  next
    case True
    note tk = take_segment_newline [OF True, folded w_def]
    let ?rest = "drop (Suc (length w)) b"
    have ho: "hand_over on_line False (consume (w @ [newline]) j1) s1 = deliver on_line on_oversized (q @ w) False start s"
      unfolding s1_def by (rule hand_over_within [OF j seg w])
    obtain keep s2 where d: "deliver on_line on_oversized (q @ w) False start s = (keep, s2)" by fastforce
    have nl: "newline \<notin> set q" using j by (simp add: within_def)
    have step: "read_loop on_line on_oversized (Buffer b # reader) j s' =
       (if keep then read_loop on_line on_oversized (unread ?rest reader) (next_line (consume (w @ [newline]) j1)) s2
        else (s2, Some (position (consume (w @ [newline]) j1), through (digest (consume (w @ [newline]) j1)))))"
      using b True by (subst read_loop.simps(3)) (simp add: Let_def seg ho [unfolded d] tk s1_def [symmetric] w_def [symmetric])
    have wi: "within on_oversized (covered @ q @ w @ [newline]) (start + length q + length (w @ [newline])) [] s2
        (next_line (consume (w @ [newline]) j1)) s2"
      by (rule next_line_within [OF j seg])
    note rt = read_text_line [OF nl True, folded w_def, of on_line on_oversized "bytes_of reader" start s, unfolded d]
    have len: "length w < length b" using True unfolding w_def by (induction b) auto
    have bw: "b = w @ newline # ?rest"
      using tk append_take_drop_id [of "Suc (length w)" b] by simp
    show ?thesis
    proof (cases keep)
      case False
      moreover have "position (consume (w @ [newline]) j1) = start + Suc (length (q @ w))"
        "through (digest (consume (w @ [newline]) j1)) = covered @ q @ w @ [newline]"
        using j seg by (auto simp: within_def take_segment_def consume_def digest_read_def split: if_splits)
      moreover have "take (Suc (length (q @ w))) (q @ b @ bytes_of reader) = q @ w @ [newline]"
        by (subst bw) simp
      ultimately show ?thesis using step rt by (simp add: answer_of_def)
    next
      case True
      have "length (bytes_of (unread ?rest reader)) + length (unread ?rest reader) < length (b @ bytes_of reader) + Suc (length reader)"
        using len by (simp add: unread_def) arith
      note i = ih [OF this _ wi]
      have "take (Suc (length (q @ w)) + n) (q @ b @ bytes_of reader) = q @ w @ newline # take n (?rest @ bytes_of reader)" for n
        by (subst bw) simp
      then show ?thesis using step rt True i rd
        by (simp add: answer_of_def add.assoc del: take_append split: prod.splits)
    qed
  qed
qed

lemma read_loop_text:
  assumes "all_read reader" "within on_oversized covered start q s j s'"
  shows "read_loop on_line on_oversized reader j s' =
    answer_of covered start (q @ bytes_of reader) (read_text on_line on_oversized (q @ bytes_of reader) start s)"
  using assms
proof (induction "length (bytes_of reader) + length reader" arbitrary: reader j s' covered start q s rule: less_induct)
  case less
  show ?case
  proof (cases reader)
    case Nil
    then show ?thesis using at_end_within [OF less(3)] by simp
  next
    case (Cons f reader')
    with less(2) obtain b where f: "f = Buffer b" by (cases f) auto
    have "read_loop on_line on_oversized (Buffer b # reader') j s' =
        answer_of covered start (q @ b @ bytes_of reader') (read_text on_line on_oversized (q @ b @ bytes_of reader') start s)"
      by (rule read_buffer_text) (use less Cons f in simp_all)
    then show ?thesis by (simp add: Cons f)
  qed
qed

text \<open>The text a reader hands out decides what is read; the digest answered is of the bytes before the offset.\<close>

lemma read_jsonl_text:
  assumes "all_read reader"
  shows "read_jsonl sha256_hex reader start covered on_line on_oversized s =
    (case read_text on_line on_oversized (bytes_of reader) start s of
       (s, n) \<Rightarrow> (s, Some (start + n, sha256_hex (covered @ take n (bytes_of reader)))))"
proof -
  have "within on_oversized covered start [] s
      \<lparr>pending = [], discarding = False, position = start, line_start = start, digest = digest_of covered\<rparr> s"
    by (simp add: within_def digest_of_def)
  from read_loop_text [OF assms this, of on_line] show ?thesis
    by (simp add: read_jsonl_def answer_of_def split: prod.splits)
qed

subsection \<open>A log that has grown\<close>

text \<open>The complete lines of a text.\<close>

definition last_line :: "string \<Rightarrow> string" where
  "last_line text = rev (takeWhile (\<lambda>c. c \<noteq> newline) (rev text))"

definition complete_lines :: "string \<Rightarrow> string" where
  "complete_lines text = take (length text - length (last_line text)) text"

lemma complete_and_last: "complete_lines t @ last_line t = t"
proof -
  have "t = rev (dropWhile (\<lambda>c. c \<noteq> newline) (rev t)) @ last_line t"
    unfolding last_line_def rev_append [symmetric] takeWhile_dropWhile_id by simp
  then have "complete_lines t = rev (dropWhile (\<lambda>c. c \<noteq> newline) (rev t))"
    unfolding complete_lines_def by (metis add_diff_cancel_right' append_eq_conv_conj length_append)
  with \<open>t = _\<close> show ?thesis by simp
qed

lemma last_line_no_newline: "newline \<notin> set (last_line t)"
  by (auto simp: last_line_def dest: set_takeWhileD)

text \<open>A text that ends with its last line.\<close>

definition ends_line :: "string \<Rightarrow> bool" where "ends_line c \<longleftrightarrow> c = [] \<or> last c = newline"

lemma complete_lines_end: "ends_line (complete_lines t)"
proof -
  let ?d = "dropWhile (\<lambda>c. c \<noteq> newline) (rev t)"
  have "complete_lines t = rev ?d"
    using complete_and_last [of t] takeWhile_dropWhile_id [of "\<lambda>c. c \<noteq> newline" "rev t"]
    unfolding last_line_def by (metis append_same_eq rev_append rev_rev_ident)
  moreover have "?d = [] \<or> hd ?d = newline" using hd_dropWhile [of "\<lambda>c. c \<noteq> newline" "rev t"] by auto
  ultimately show ?thesis by (auto simp: ends_line_def last_rev)
qed

text \<open>What a text holds for the callbacks, and a run that is not stopped: it hands over all of it.\<close>

datatype item = Line string bool nat | Oversized

definition line_item :: "string \<Rightarrow> bool \<Rightarrow> nat \<Rightarrow> item list" where
  "line_item line unterminated start =
     (if max_jsonl_line_bytes < length line then [Oversized]
      else if trim_cr line = [] then [] else [Line (trim_cr line) unterminated start])"

function text_items :: "string \<Rightarrow> nat \<Rightarrow> item list" where
  "text_items text start =
     (if newline \<in> set text
      then line_item (first_line text) False start @ text_items (after_first_line text) (start + Suc (length (first_line text)))
      else line_item text True start)"
  by pat_completeness auto
termination
  by (relation "measure (\<lambda>(text, _). length text)") (auto simp: length_after_first_line)

declare text_items.simps [simp del]

lemma text_items_Nil [simp]: "text_items [] start = []"
  by (simp add: text_items.simps line_item_def trim_cr_def)

lemma text_items_line:
  assumes "newline \<notin> set w"
  shows "text_items (w @ newline # t) start = line_item w False start @ text_items t (start + Suc (length w))"
proof -
  have "first_line (w @ [newline] @ t) = w" "after_first_line (w @ [newline] @ t) = t"
    using first_line_split [OF assms, of "[newline]" t] by simp_all
  then show ?thesis by (subst text_items.simps) simp
qed

lemma ends_line_cases:
  assumes "ends_line c" "c \<noteq> []"
  obtains w r where "c = w @ newline # r" "newline \<notin> set w" "ends_line r" "length r < length c"
proof -
  have nl: "newline \<in> set c" using assms by (auto simp: ends_line_def) (metis last_in_set)
  then obtain w r where "c = w @ newline # r" "newline \<notin> set w" by (meson split_list_first)
  moreover from this have "ends_line r" using assms by (auto simp: ends_line_def split: if_splits)
  ultimately show ?thesis using that by simp
qed

lemma text_items_append: "ends_line c \<Longrightarrow> text_items (c @ t) start = text_items c start @ text_items t (start + length c)"
proof (induction "length c" arbitrary: c start rule: less_induct)
  case less
  show ?case
  proof (cases "c = []")
    case False
    then obtain w r where c: "c = w @ newline # r" "newline \<notin> set w" "ends_line r" "length r < length c"
      using less(2) ends_line_cases by metis
    from less(1) [OF c(4,3), of "start + Suc (length w)"]
    show ?thesis by (simp add: c(1) text_items_line [OF c(2)] add.assoc)
  qed simp
qed

fun do_item :: "'s on_line \<Rightarrow> ('s \<Rightarrow> 's) \<Rightarrow> item \<Rightarrow> 's \<Rightarrow> 's" where
  "do_item on_line on_oversized (Line line unterminated start) s = snd (on_line line unterminated start s)"
| "do_item on_line on_oversized Oversized s = on_oversized s"

definition stops_tell :: "'s on_line \<Rightarrow> ('s \<Rightarrow> bool) \<Rightarrow> bool" where
  "stops_tell on_line stopped \<longleftrightarrow> (\<forall>l u p s. \<not> fst (on_line l u p s) \<longrightarrow> stopped (snd (on_line l u p s)))"

text \<open>How much of a text its answer covers.\<close>

definition covered_length :: "string \<Rightarrow> nat" where
  "covered_length text =
     (if max_jsonl_line_bytes < length (last_line text) then length text else length (complete_lines text))"

lemma deliver_item: "snd (deliver on_line on_oversized l u p s) = fold (do_item on_line on_oversized) (line_item l u p) s"
  by (simp add: deliver_def line_item_def)

lemma deliver_stopped:
  "stops_tell on_line stopped \<Longrightarrow> deliver on_line on_oversized l u p s = (False, s') \<Longrightarrow> stopped s'"
  by (auto simp: deliver_def stops_tell_def split: if_splits) (metis fst_conv snd_conv)

lemma last_line_after: "newline \<in> set t \<Longrightarrow> last_line (after_first_line t) = last_line t"
proof -
  assume nl: "newline \<in> set t"
  let ?w = "first_line t" and ?r = "after_first_line t"
  have t: "t = ?w @ [newline] @ ?r"
    using take_segment_newline [OF nl] append_take_drop_id [of "Suc (length ?w)" t]
    by (simp add: first_line_def after_first_line_def)
  have "last_line (?w @ [newline] @ ?r) = last_line ?r"
    by (simp add: last_line_def takeWhile_tail)
  then show ?thesis using t by simp
qed

lemma read_text_unstopped:
  assumes "stops_tell on_line stopped" "\<not> stopped (fst (read_text on_line on_oversized t start s))"
  shows "read_text on_line on_oversized t start s =
    (fold (do_item on_line on_oversized) (text_items t start) s, covered_length t)"
  using assms(2)
proof (induction "length t" arbitrary: t start s rule: less_induct)
  case less
  show ?case
  proof (cases "newline \<in> set t")
    case False
    then have "last_line t = t" unfolding last_line_def by (subst takeWhile_eq_all_conv [THEN iffD2]) auto
    then show ?thesis using False
      by (simp add: read_text.simps [of _ _ t] text_items.simps [of t] deliver_item covered_length_def complete_lines_def)
  next
    case True
    let ?r = "after_first_line t" and ?d = "Suc (length (first_line t))"
    have len: "length ?r < length t" using True by (rule length_after_first_line)
    have lt: "length t = ?d + length ?r"
      using len take_segment_newline [OF True] unfolding after_first_line_def first_line_def
      by (metis append_take_drop_id length_append length_append_singleton)
    obtain keep s1 where d: "deliver on_line on_oversized (first_line t) False start s = (keep, s1)" by fastforce
    have eq: "read_text on_line on_oversized t start s =
      (case (keep, s1) of (False, s) \<Rightarrow> (s, ?d)
       | (True, s) \<Rightarrow> (case read_text on_line on_oversized ?r (start + ?d) s of (s, covered) \<Rightarrow> (s, ?d + covered)))"
      using True d by (subst read_text.simps) (simp add: Let_def)
    have keep using deliver_stopped [OF assms(1)] d less(2) eq by (cases keep) auto
    then have "\<not> stopped (fst (read_text on_line on_oversized ?r (start + ?d) s1))"
      using less(2) eq by (simp split: prod.splits)
    from less(1) [OF len this] have "read_text on_line on_oversized ?r (start + ?d) s1 =
      (fold (do_item on_line on_oversized) (text_items ?r (start + ?d)) s1, covered_length ?r)" .
    moreover have "s1 = fold (do_item on_line on_oversized) (line_item (first_line t) False start) s"
      using d deliver_item by (metis snd_conv)
    moreover have "covered_length t = ?d + covered_length ?r"
    proof -
      have "length (last_line ?r) \<le> length ?r" using complete_and_last [of ?r] by (metis length_append le_add2)
      then show ?thesis using lt by (simp add: covered_length_def complete_lines_def last_line_after [OF True] Suc_diff_le)
    qed
    ultimately show ?thesis using eq \<open>keep\<close> True by (simp add: text_items.simps [of t])
  qed
qed

subsection \<open>The specification\<close>

lemma log_items_read:
  assumes "all_read reader" "stops_tell on_line stopped"
    and "\<not> stopped (fst (read_jsonl sha256_hex reader start covered on_line on_oversized s))"
  shows "read_jsonl sha256_hex reader start covered on_line on_oversized s =
    (let t = bytes_of reader in
     (fold (do_item on_line on_oversized) (text_items t start) s,
      Some (start + covered_length t, sha256_hex (covered @ take (covered_length t) t))))"
proof -
  have "\<not> stopped (fst (read_text on_line on_oversized (bytes_of reader) start s))"
    using assms(3) by (simp add: read_jsonl_text [OF assms(1)] split: prod.splits)
  from read_text_unstopped [OF assms(2) this] show ?thesis
    by (simp add: read_jsonl_text [OF assms(1)] Let_def)
qed

text \<open>C18: However a log is cut into buffers, a reading that no callback stops hands over each of its lines once, in
  order, without its line end and under the byte it starts at, reports each line that is too long once, and answers with the offset
  after the last complete line and the digest of everything before it.\<close>

theorem log_read_line_by_line:
  assumes "all_read reader" "stops_tell on_line stopped"
    and "\<not> stopped (fst (read_jsonl sha256_hex reader start covered on_line on_oversized s))"
    and "length (last_line (bytes_of reader)) \<le> max_jsonl_line_bytes"
  shows "read_jsonl sha256_hex reader start covered on_line on_oversized s =
    (let t = bytes_of reader in
     (fold (do_item on_line on_oversized) (text_items t start) s,
      Some (start + length (complete_lines t), sha256_hex (covered @ complete_lines t))))"
proof -
  have "covered_length (bytes_of reader) = length (complete_lines (bytes_of reader))"
    using assms(4) by (simp add: covered_length_def)
  moreover have "take (length (complete_lines (bytes_of reader))) (bytes_of reader) = complete_lines (bytes_of reader)"
    by (simp add: complete_lines_def)
  ultimately show ?thesis using log_items_read [OF assms(1-3)] by (simp add: Let_def)
qed

text \<open>A callback that notes what it is handed.\<close>

definition noting :: "(string \<times> bool \<times> nat) list on_line" where
  "noting l u p s = (True, s @ [(l, u, p)])"

theorem log_read_line_by_line_witness:
  "read_jsonl id [Buffer ''ab'', Buffer [newline, CHR ''c''], Buffer [CHR 0x0D, newline, CHR ''d'']] 5 ''z'' noting id [] =
    ([(''ab'', False, 5), (''c'', False, 8), (''d'', True, 11)], Some (11, ''zab'' @ [newline] @ ''c'' @ [CHR 0x0D, newline]))"
proof -
  let ?r = "[Buffer ''ab'', Buffer [newline, CHR ''c''], Buffer [CHR 0x0D, newline, CHR ''d'']]"
  have "stops_tell noting (\<lambda>_. False)" by (simp add: stops_tell_def noting_def)
  moreover have "length (last_line (bytes_of ?r)) \<le> max_jsonl_line_bytes" by code_simp
  ultimately have "read_jsonl id ?r 5 ''z'' noting id [] = (let t = bytes_of ?r in
     (fold (do_item noting id) (text_items t 5) [], Some (5 + length (complete_lines t), id (''z'' @ complete_lines t))))"
    by (intro log_read_line_by_line [where stopped = "\<lambda>_. False"]) simp_all
  also have "\<dots> = ([(''ab'', False, 5), (''c'', False, 8), (''d'', True, 11)], Some (11, ''zab'' @ [newline] @ ''c'' @ [CHR 0x0D, newline]))"
    by code_simp
  finally show ?thesis .
qed

end
