(* ===== verification/Usage_Scan.thy ===== *)
theory Usage_Scan
  imports Usage_Parsers Usage_Read Usage_Store
begin

text \<open>
  A scan of an agent's logs (\<open>packages/service/src/usage/scan.rs\<close>): which files are read, from where, what
  each line adds, and what the cache is told of each file. Files and clock are parameters: a file is what
  \<open>stat\<close> says of it before and after it is read and the buffers it hands out; so are \<open>serde_json::from_slice\<close>,
  SHA-256, and the answer of the cancel flag at each look. What the lemmas show: what a scan says of a file is what
  its lines say; a log that has grown is read on from where it was left, and nothing is lost or
  named otherwise than in a whole read; what a refused line, and a line that came up short, do to the cache.
\<close>

subsection \<open>Reasons\<close>

record coverage_reason =
  reason_code :: coverage_reason_code
  reason_count :: nat

definition max_coverage_reasons :: nat where "max_coverage_reasons = 128"

fun bump_reason :: "coverage_reason_code \<Rightarrow> nat \<Rightarrow> coverage_reason list \<Rightarrow> coverage_reason list" where
  "bump_reason code n [] = []"
| "bump_reason code n (r # rs) =
     (if reason_code r = code then r\<lparr>reason_count := saturating_add (reason_count r) n\<rparr> # rs
      else r # bump_reason code n rs)"

definition push_reason_count :: "coverage_reason_code \<Rightarrow> nat \<Rightarrow> coverage_reason list \<Rightarrow> coverage_reason list" where
  "push_reason_count code n reasons =
     (if n = 0 then reasons
      else if code \<in> reason_code ` set reasons then bump_reason code n reasons
      else if length reasons < max_coverage_reasons then reasons @ [\<lparr>reason_code = code, reason_count = n\<rparr>]
      else reasons)"

definition push_reason :: "coverage_reason_code \<Rightarrow> coverage_reason list \<Rightarrow> coverage_reason list" where
  "push_reason code = push_reason_count code 1"

datatype io_error = NotFound | Denied | OtherError

definition reason_for_io :: "io_error \<Rightarrow> coverage_reason_code" where
  "reason_for_io e = (if e = Denied then PermissionDenied else SourceUnreadable)"

subsection \<open>Files\<close>

record local_usage_file =
  lf_path :: path
  lf_source_file_id :: string
  lf_size :: nat
  lf_modified_ns :: nat
  lf_identity :: string

text \<open>What \<open>symlink_metadata\<close> and \<open>source_identity_material\<close> say of a path.\<close>

record file_stat =
  st_is_file :: bool
  st_size :: nat
  st_modified_ns :: nat
  st_identity :: string

text \<open>A file as one scan sees it. \<open>fv_opens\<close>: whether it opens, and whether it can be seeked; \<open>fv_buffers n\<close>:
  what reading from byte \<open>n\<close> hands out; \<open>fv_prefix n\<close>: the bytes that reading up to byte \<open>n\<close> gave, if it did not fail.\<close>

record file_view =
  fv_before :: "io_error + file_stat"
  fv_after :: "io_error + file_stat"
  fv_opens :: "io_error + bool"
  fv_buffers :: "nat \<Rightarrow> fill list"
  fv_prefix :: "nat \<Rightarrow> string option"

definition matching_file_info ::
  "io_error + file_stat \<Rightarrow> local_usage_file \<Rightarrow> coverage_reason list \<Rightarrow> coverage_reason list \<times> local_usage_file option" where
  "matching_file_info answer f reasons =
     (case answer of
        Inl NotFound \<Rightarrow> (push_reason SourceChanged reasons, None)
      | Inl e \<Rightarrow> (push_reason (reason_for_io e) reasons, None)
      | Inr st \<Rightarrow>
          if \<not> st_is_file st \<or> st_identity st \<noteq> lf_identity f then (push_reason SourceChanged reasons, None)
          else (reasons, Some (f\<lparr>lf_size := st_size st, lf_modified_ns := st_modified_ns st, lf_identity := st_identity st\<rparr>)))"

definition open_for_resume :: "io_error + bool \<Rightarrow> nat \<Rightarrow> io_error + nat" where
  "open_for_resume opens resume_at =
     (case opens of Inl e \<Rightarrow> Inl e | Inr seeks \<Rightarrow> Inr (if resume_at = 0 \<or> seeks then resume_at else 0))"

text \<open>The bytes of the prefix, for the digest of it.\<close>

definition prefix_hasher :: "(nat \<Rightarrow> string option) \<Rightarrow> nat \<Rightarrow> string option" where
  "prefix_hasher prefix bound =
     (if bound = 0 then Some []
      else Option.bind (prefix bound) (\<lambda>bytes. if length bytes = bound then Some bytes else None))"

definition file_index_of :: "local_usage_file \<Rightarrow> string \<Rightarrow> file_index_row" where
  "file_index_of f parser_rev =
     \<lparr>index_identity = lf_identity f, index_size = lf_size f, index_modified_ns = lf_modified_ns f, parser_revision = parser_rev,
      parsed_offset = 0, prefix_hash = []\<rparr>"

subsection \<open>Lines\<close>

record scan_externs =
  scan_logs :: log_externs
  from_slice :: "string \<Rightarrow> json option"
  sha256_hex :: "string \<Rightarrow> string"

record scan_range =
  start_ms :: int
  end_ms :: int

definition parse_utc_hour :: "externs \<Rightarrow> string \<Rightarrow> int option" where
  "parse_utc_hour x s =
     (if length s \<noteq> 20 then None
      else Option.bind (instant_of x s) (\<lambda>t.
        if t mod (3600 * nanoseconds_per_second) \<noteq> 0 \<or> secs_text x (t div nanoseconds_per_second) \<noteq> s
        then None else Some t))"

definition parse_range :: "externs \<Rightarrow> string \<Rightarrow> string \<Rightarrow> usage_error + scan_range" where
  "parse_range x start_at end_at =
     rbind (ok_or (UsageError ''invalid Usage scan start'') (parse_utc_hour x start_at)) (\<lambda>s.
     rbind (ok_or (UsageError ''invalid Usage scan end'') (parse_utc_hour x end_at)) (\<lambda>e.
       if e div 1000000 \<le> s div 1000000 then Inl (UsageError ''Usage scan range must be increasing'')
       else Inr \<lparr>start_ms = s div 1000000, end_ms = e div 1000000\<rparr>))"

text \<open>A parser: \<open>'p\<close> is what it carries from line to line.\<close>

record 'p usage_parser =
  context_free :: bool
  fresh_parser :: 'p
  parse_line :: "'p \<Rightarrow> json \<Rightarrow> string \<Rightarrow> path \<Rightarrow> 'p \<times> parsed_line"
  parse_finish :: "'p \<Rightarrow> 'p \<times> parsed_line"

definition in_range :: "externs \<Rightarrow> scan_range \<Rightarrow> usage_record \<Rightarrow> bool" where
  "in_range x rng r \<longleftrightarrow>
     (case instant_of x (ev_occurred_at (rec_event r)) of
        None \<Rightarrow> False | Some t \<Rightarrow> start_ms rng \<le> t div 1000000 \<and> t div 1000000 < end_ms rng)"

definition named_record :: "string \<Rightarrow> nat \<times> usage_record \<Rightarrow> usage_record" where
  "named_record prefix = (\<lambda>(i, r). if rec_key r = [] then r\<lparr>rec_key := prefix @ '':'' @ decimal_string i\<rparr> else r)"

definition kept_records :: "externs \<Rightarrow> scan_range \<Rightarrow> string \<Rightarrow> usage_record list \<Rightarrow> usage_record list" where
  "kept_records x rng prefix rs = filter (in_range x rng) (map (named_record prefix) (enumerate 0 rs))"

definition collect_parsed_with_prefix ::
  "externs \<Rightarrow> parsed_line \<Rightarrow> usage_record list \<Rightarrow> coverage_reason list \<Rightarrow> scan_range \<Rightarrow> string \<Rightarrow>
   usage_record list \<times> coverage_reason list \<times> nat" where
  "collect_parsed_with_prefix x parsed records reasons rng prefix =
     (records @ kept_records x rng prefix (line_records parsed),
      (case line_reason parsed of None \<Rightarrow> reasons | Some code \<Rightarrow> push_reason code reasons),
      line_ignored parsed)"

definition line_name :: "nat \<Rightarrow> string" where "line_name offset = ''line:'' @ decimal_string offset"

definition collect_parsed ::
  "externs \<Rightarrow> parsed_line \<Rightarrow> usage_record list \<Rightarrow> coverage_reason list \<Rightarrow> scan_range \<Rightarrow> nat \<Rightarrow>
   usage_record list \<times> coverage_reason list \<times> nat" where
  "collect_parsed x parsed records reasons rng offset =
     collect_parsed_with_prefix x parsed records reasons rng (line_name offset)"

subsection \<open>One file\<close>

definition max_jsonl_records :: nat where "max_jsonl_records = 2000000"

text \<open>What the line callback changes. \<open>rd_looks\<close> counts the looks at the cancel flag.\<close>

record 'p reading =
  rd_parser :: 'p
  rd_records :: "usage_record list"
  rd_reasons :: "coverage_reason list"
  rd_ignored :: nat
  rd_seen :: nat
  rd_looks :: nat
  rd_stopped :: bool

record scan_options =
  opt_start_at :: string
  opt_end_at :: string
  opt_parser_revision :: string
  opt_file_index :: "(string \<times> file_index_row) list"
  opt_cancelled :: "nat \<Rightarrow> bool"

definition note_reason :: "coverage_reason_code \<Rightarrow> 'p reading \<Rightarrow> 'p reading" where
  "note_reason code st = st\<lparr>rd_reasons := push_reason code (rd_reasons st)\<rparr>"

definition add_parsed :: "externs \<Rightarrow> scan_range \<Rightarrow> string \<Rightarrow> 'p \<times> parsed_line \<Rightarrow> 'p reading \<Rightarrow> 'p reading" where
  "add_parsed x rng prefix = (\<lambda>(p, parsed) st.
     (case collect_parsed_with_prefix x parsed (rd_records st) (rd_reasons st) rng prefix of
        (records, reasons, ignored) \<Rightarrow>
          st\<lparr>rd_parser := p, rd_records := records, rd_reasons := reasons, rd_ignored := saturating_add (rd_ignored st) ignored\<rparr>))"

definition read_line ::
  "scan_externs \<Rightarrow> 'p usage_parser \<Rightarrow> scan_options \<Rightarrow> scan_range \<Rightarrow> local_usage_file \<Rightarrow> 'p reading on_line" where
  "read_line x parser opts rng f line unterminated start st =
     (let cancelled = opt_cancelled opts (rd_looks st); st = st\<lparr>rd_looks := rd_looks st + 1\<rparr> in
      if cancelled then (False, (note_reason ScanCancelled st)\<lparr>rd_stopped := True\<rparr>)
      else let st = st\<lparr>rd_seen := rd_seen st + 1\<rparr> in
      if max_jsonl_records < rd_seen st then (False, (note_reason RecordLimit st)\<lparr>rd_stopped := True\<rparr>)
      else (True,
        case from_slice x line of
          None \<Rightarrow> note_reason (if unterminated then TruncatedTail else MalformedJson) st
        | Some value \<Rightarrow>
            if \<not> is_object value then note_reason UnknownRecord st
            else add_parsed (log_times (scan_logs x)) rng (line_name start)
              (parse_line parser (rd_parser st) value (lf_source_file_id f) (lf_path f)) st))"

text \<open>\<open>source_coverage\<close> and the \<open>UsageSourceScan\<close> it is put in.\<close>

definition source_scan ::
  "bool \<Rightarrow> file_index_row \<Rightarrow> local_usage_file \<Rightarrow> usage_record list \<Rightarrow> scan_options \<Rightarrow> coverage_reason list \<Rightarrow> usage_source_scan" where
  "source_scan appended index source records opts reasons =
     \<lparr>scan_append = appended, scan_file_id = lf_source_file_id source, scan_identity = lf_identity source,
      scan_size = index_size index, scan_modified_ns = index_modified_ns index,
      scan_parser_revision = parser_revision index, scan_parsed_offset = parsed_offset index,
      scan_prefix_hash = prefix_hash index, scan_records = map rec_event records,
      scan_record_keys = map rec_key records, scan_complete = (reasons = []),
      scan_invalid_timestamp = (InvalidTimestamp \<in> reason_code ` set (take max_coverage_reasons reasons)),
      scan_start_at = opt_start_at opts\<rparr>"

text \<open>Where a file is read from: past the prefix an earlier scan answered for, when the file has grown and the
  prefix still has its digest.\<close>

definition resume_point ::
  "scan_externs \<Rightarrow> 'p usage_parser \<Rightarrow> scan_options \<Rightarrow> file_view \<Rightarrow> local_usage_file \<Rightarrow> (nat \<times> string) option" where
  "resume_point x parser opts view current =
     Option.bind (map_of (opt_file_index opts) (lf_source_file_id current)) (\<lambda>old.
       if context_free parser \<and> parser_revision old = opt_parser_revision opts \<and> index_identity old = lf_identity current \<and>
          0 < parsed_offset old \<and> index_size old < lf_size current \<and> parsed_offset old \<le> lf_size current
       then Option.bind (prefix_hasher (fv_prefix view) (parsed_offset old)) (\<lambda>bytes.
         if sha256_hex x bytes = prefix_hash old then Some (parsed_offset old, bytes) else None)
       else None)"

text \<open>The reading of a file: where it stood, the offset and digest it answers with, and whether it was resumed.\<close>

definition read_file ::
  "scan_externs \<Rightarrow> 'p usage_parser \<Rightarrow> scan_options \<Rightarrow> scan_range \<Rightarrow> file_view \<Rightarrow> local_usage_file \<Rightarrow> 'p reading \<Rightarrow>
   'p reading \<times> nat \<times> string \<times> nat" where
  "read_file x parser opts rng view current st =
     (let resumed = resume_point x parser opts view current;
          resume_at = (case resumed of None \<Rightarrow> 0 | Some (offset, _) \<Rightarrow> offset) in
      case open_for_resume (fv_opens view) resume_at of
        Inl e \<Rightarrow> (note_reason (reason_for_io e) st, resume_at, [], 0)
      | Inr opened_at \<Rightarrow>
          let covered = (if opened_at = resume_at then map_option snd resumed else None) in
          (case read_jsonl (sha256_hex x) (fv_buffers view opened_at) opened_at (case covered of None \<Rightarrow> [] | Some bytes \<Rightarrow> bytes)
             (read_line x parser opts rng current) (note_reason LineTooLarge) st of
             (st, answer) \<Rightarrow>
               let (st, offset, read) = (case answer of
                     Some (offset, read) \<Rightarrow> (st, offset, read)
                   | None \<Rightarrow> (note_reason SourceUnreadable st, opened_at,
                       case covered of None \<Rightarrow> [] | Some bytes \<Rightarrow> sha256_hex x bytes));
                   st' = st\<lparr>rd_looks := rd_looks st + 1\<rparr>;
                   st = (if rd_stopped st then st
                         else if opt_cancelled opts (rd_looks st) then st'
                         else add_parsed (log_times (scan_logs x)) rng ''finish'' (parse_finish parser (rd_parser st)) st')
               in (st, offset, read, opened_at)))"

text \<open>A source as the scan tells of it: the file is looked at again once it was read.\<close>

definition read_source ::
  "scan_externs \<Rightarrow> 'p usage_parser \<Rightarrow> scan_options \<Rightarrow> scan_range \<Rightarrow> file_view \<Rightarrow> local_usage_file \<Rightarrow> 'p reading \<Rightarrow>
   'p reading \<times> usage_source_scan" where
  "read_source x parser opts rng view current st =
     (case read_file x parser opts rng view current st of
        (st, offset, read, resumed_from) \<Rightarrow>
     (case matching_file_info (fv_after view) current (rd_reasons st) of
        (reasons, info) \<Rightarrow>
          let (reasons, source) = (case info of
                None \<Rightarrow> (reasons, current)
              | Some after \<Rightarrow>
                  (if lf_size after \<noteq> lf_size current \<or> lf_modified_ns after \<noteq> lf_modified_ns current \<or>
                      lf_identity after \<noteq> lf_identity current
                   then push_reason SourceChanged reasons else reasons, after));
              index = file_index_of source (opt_parser_revision opts);
              index = (if context_free parser then index\<lparr>parsed_offset := offset, prefix_hash := read\<rparr> else index)
          in (st\<lparr>rd_reasons := reasons\<rparr>, source_scan (0 < resumed_from) index source (rd_records st) opts reasons)))"

subsection \<open>A scan\<close>

record scan_result =
  res_records :: "usage_record list"
  res_complete :: bool
  res_reasons :: "coverage_reason list"
  res_scanned :: nat
  res_skipped :: nat
  res_ignored :: nat
  res_unchanged :: "string list"
  res_deleted :: "string list"
  res_sources :: "usage_source_scan list"
  res_project_keys :: "(string \<times> string) list"

text \<open>What \<open>scan_jsonl_files\<close> carries from file to file.\<close>

record scanning =
  sc_records :: "usage_record list"
  sc_reasons :: "coverage_reason list"
  sc_scanned :: nat
  sc_skipped :: nat
  sc_ignored :: nat
  sc_unchanged :: "string list"
  sc_sources :: "usage_source_scan list"
  sc_keys :: "(string \<times> string) list"
  sc_seen :: nat
  sc_looks :: nat
  sc_stopped :: bool

definition unchanged_since :: "scan_options \<Rightarrow> local_usage_file \<Rightarrow> bool" where
  "unchanged_since opts current =
     (case map_of (opt_file_index opts) (lf_source_file_id current) of
        None \<Rightarrow> False
      | Some old \<Rightarrow> index_identity old = lf_identity current \<and> index_size old = lf_size current \<and>
          index_modified_ns old = lf_modified_ns current \<and> parser_revision old = opt_parser_revision opts)"

text \<open>The project a log is filed under.\<close>

definition file_stem :: "string \<Rightarrow> string" where
  "file_stem name =
     (let ext = takeWhile (\<lambda>c. c \<noteq> CHR ''.'') (rev name) in
      if name = ''..'' \<or> CHR ''.'' \<notin> set (tl name) then name
      else take (length name - length ext - 1) name)"

function utf8_chars :: "string \<Rightarrow> string list" where
  "utf8_chars [] = []"
| "utf8_chars (c # cs) =
     (c # takeWhile continuation cs) # utf8_chars (dropWhile continuation cs)"
  by pat_completeness auto
termination
  by (relation "measure length") (auto simp: length_dropWhile_le less_Suc_eq_le)

definition bound_project_key :: "string \<Rightarrow> string" where
  "bound_project_key raw =
     (let cleaned = concat (filter (\<lambda>c. c \<noteq> ''/'' \<and> c \<noteq> [CHR 0x5C] \<and> \<not> has_control c) (utf8_chars raw)) in
      if cleaned = [] then ''session''
      else if char_count cleaned \<le> 128 then cleaned
      else concat (drop (char_count cleaned - 128) (utf8_chars cleaned)))"

definition session_project_key :: "log_externs \<Rightarrow> path \<Rightarrow> string" where
  "session_project_key x p =
     (case project_key_from_source_path x p of
        Some key \<Rightarrow> key
      | None \<Rightarrow>
          let name = file_name p;
              stem = (case name of None \<Rightarrow> ''session'' | Some n \<Rightarrow> file_stem n)
          in bound_project_key
            (if name \<in> Some ` {''updates.jsonl'', ''opencode.db'', ''kilo.db'', ''state.vscdb'', ''store.db''}
             then (case file_name (p\<lparr>parts := butlast (parts p)\<rparr>) of None \<Rightarrow> stem | Some dir \<Rightarrow> dir)
             else stem))"

definition remember_project_key :: "log_externs \<Rightarrow> local_usage_file \<Rightarrow> (string \<times> string) list \<Rightarrow> (string \<times> string) list" where
  "remember_project_key x f keys = AList.update (lf_source_file_id f) (session_project_key x (lf_path f)) keys"

text \<open>One round of the loop over the files. A file that is gone or no longer the same is told of without records.\<close>

definition scan_file ::
  "scan_externs \<Rightarrow> 'p usage_parser \<Rightarrow> scan_options \<Rightarrow> scan_range \<Rightarrow> local_usage_file \<times> file_view \<Rightarrow> scanning \<Rightarrow> scanning" where
  "scan_file x parser opts rng = (\<lambda>(f, view) sc.
     if sc_stopped sc then sc
     else if opt_cancelled opts (sc_looks sc)
     then sc\<lparr>sc_looks := sc_looks sc + 1, sc_reasons := push_reason ScanCancelled (sc_reasons sc), sc_stopped := True\<rparr>
     else
       let sc = sc\<lparr>sc_looks := sc_looks sc + 1, sc_keys := remember_project_key (scan_logs x) f (sc_keys sc)\<rparr> in
       case matching_file_info (fv_before view) f (sc_reasons sc) of
         (reasons, None) \<Rightarrow> sc\<lparr>sc_reasons := reasons, sc_scanned := sc_scanned sc + 1,
           sc_sources := sc_sources sc @ [source_scan False (file_index_of f (opt_parser_revision opts)) f [] opts
             [\<lparr>reason_code = SourceChanged, reason_count = 1\<rparr>]]\<rparr>
       | (reasons, Some current) \<Rightarrow>
           if unchanged_since opts current
           then sc\<lparr>sc_reasons := reasons, sc_skipped := sc_skipped sc + 1,
             sc_unchanged := sc_unchanged sc @ [lf_source_file_id current]\<rparr>
           else (case read_source x parser opts rng view current
                 \<lparr>rd_parser = fresh_parser parser, rd_records = [], rd_reasons = [], rd_ignored = sc_ignored sc, rd_seen = sc_seen sc,
                  rd_looks = sc_looks sc, rd_stopped = False\<rparr> of
               (st, source) \<Rightarrow>
                 sc\<lparr>sc_records := sc_records sc @ rd_records st,
                   sc_reasons := fold (\<lambda>r. push_reason_count (reason_code r) (reason_count r)) (rd_reasons st) reasons,
                   sc_scanned := sc_scanned sc + 1, sc_ignored := rd_ignored st, sc_sources := sc_sources sc @ [source],
                   sc_seen := rd_seen st, sc_looks := rd_looks st, sc_stopped := rd_stopped st\<rparr>))"

definition finish_scan :: "scan_options \<Rightarrow> scanning \<Rightarrow> string list \<Rightarrow> scan_result" where
  "finish_scan opts sc deleted =
     \<lparr>res_records = sc_records sc, res_complete = (sc_reasons sc = []), res_reasons = take max_coverage_reasons (sc_reasons sc),
      res_scanned = sc_scanned sc, res_skipped = sc_skipped sc, res_ignored = sc_ignored sc,
      res_unchanged = sc_unchanged sc, res_deleted = deleted, res_sources = sc_sources sc, res_project_keys = sc_keys sc\<rparr>"

definition scan_jsonl_files ::
  "scan_externs \<Rightarrow> 'p usage_parser \<Rightarrow> scan_options \<Rightarrow> (local_usage_file \<times> file_view) list \<Rightarrow> coverage_reason list \<Rightarrow>
   usage_error + scan_result" where
  "scan_jsonl_files x parser opts files reasons =
     rbind (parse_range (log_times (scan_logs x)) (opt_start_at opts) (opt_end_at opts)) (\<lambda>rng.
       let sc = fold (scan_file x parser opts rng) files
             \<lparr>sc_records = [], sc_reasons = reasons, sc_scanned = 0, sc_skipped = 0, sc_ignored = 0, sc_unchanged = [],
              sc_sources = [], sc_keys = [], sc_seen = 0, sc_looks = 0, sc_stopped = False\<rparr>;
           known = map (\<lambda>(f, _). lf_source_file_id f) files;
           deleted = (if \<forall>r \<in> set reasons. reason_code r \<notin> {PermissionDenied, SourceUnreadable, DiscoveryLimit}
             then sort (filter (\<lambda>file_id. file_id \<notin> set known) (map fst (opt_file_index opts))) else [])
       in Inr (finish_scan opts sc deleted))"

text \<open>The four parsers of logs, and what the cache is told of a scan.\<close>

definition codex_logs :: "log_externs \<Rightarrow> codex_parser usage_parser" where
  "codex_logs x = \<lparr>context_free = False, fresh_parser = codex_default, parse_line = (\<lambda>p v file_id _. codex_parse x file_id v p),
     parse_finish = codex_finish\<rparr>"

definition claude_logs :: "log_externs \<Rightarrow> unit usage_parser" where
  "claude_logs x = \<lparr>context_free = True, fresh_parser = (), parse_line = (\<lambda>p v file_id source. ((), claude_parse x source file_id v)),
     parse_finish = (\<lambda>p. (p, line_empty))\<rparr>"

definition pi_logs :: "log_externs \<Rightarrow> unit usage_parser" where
  "pi_logs x = \<lparr>context_free = True, fresh_parser = (), parse_line = (\<lambda>p v file_id _. ((), pi_parse x file_id v)),
     parse_finish = (\<lambda>p. (p, line_empty))\<rparr>"

definition grok_logs :: "log_externs \<Rightarrow> unit usage_parser" where
  "grok_logs x = \<lparr>context_free = True, fresh_parser = (), parse_line = (\<lambda>p v file_id _. ((), grok_parse x file_id v)),
     parse_finish = (\<lambda>p. (p, line_empty))\<rparr>"

definition scan_delta :: "scan_result \<Rightarrow> usage_scan" where
  "scan_delta res = \<lparr>scan_sources = res_sources res, scan_deleted = res_deleted res, scan_is_complete = res_complete res\<rparr>"

definition usage_file_index :: "usage_agent \<Rightarrow> usage_cache \<Rightarrow> (string \<times> file_index_row) list" where
  "usage_file_index agent c = List.map_filter (\<lambda>((a, file), row). if a = agent then Some (file, row) else None) (file_index c)"

lemma map_of_usage_file_index [simp]: "map_of (usage_file_index agent c) file = map_of (file_index c) (agent, file)"
proof -
  have "map_of (List.map_filter (\<lambda>((a, file), row). if a = agent then Some (file, row) else None) xs) file = map_of xs (agent, file)"
    for xs :: "((usage_agent \<times> string) \<times> file_index_row) list"
    by (induction xs) (auto simp: map_filter_simps)
  then show ?thesis by (simp add: usage_file_index_def)
qed

text \<open>One agent's part of a pass (\<open>collect_usage\<close> of \<open>service/backend.rs\<close>): the logs are scanned, and what the scan says
  is applied to the cache. The flag is whether the pass goes on.\<close>

definition default_parser_revision :: string where "default_parser_revision = ''usage-rust-v8''"

definition agent_options :: "usage_agent \<Rightarrow> string \<Rightarrow> (nat \<Rightarrow> bool) \<Rightarrow> usage_cache \<Rightarrow> scan_options" where
  "agent_options agent end_at cancelled c = \<lparr>opt_start_at = ''1970-01-01T00:00:00Z'', opt_end_at = end_at,
     opt_parser_revision = default_parser_revision, opt_file_index = usage_file_index agent c, opt_cancelled = cancelled\<rparr>"

definition apply_scan ::
  "scan_externs \<Rightarrow> (usage_event \<Rightarrow> nat) \<Rightarrow> bool \<Rightarrow> usage_agent \<Rightarrow> nat \<Rightarrow> usage_error + scan_result \<Rightarrow> usage_cache \<Rightarrow>
   usage_cache \<times> bool" where
  "apply_scan x size_of group_by_project agent version scan c =
     (case scan of
        Inl _ \<Rightarrow> (c, False)
      | Inr res \<Rightarrow>
          (case apply_usage_scan (log_times (scan_logs x)) size_of group_by_project agent (scan_delta res) version c of
             Inl _ \<Rightarrow> (c, False)
           | Inr c' \<Rightarrow> (c', True)))"

definition collect_agent_usage ::
  "scan_externs \<Rightarrow> 'p usage_parser \<Rightarrow> (usage_event \<Rightarrow> nat) \<Rightarrow> bool \<Rightarrow> usage_agent \<Rightarrow> string \<Rightarrow> (nat \<Rightarrow> bool) \<Rightarrow> nat \<Rightarrow>
   (local_usage_file \<times> file_view) list \<Rightarrow> coverage_reason list \<Rightarrow> usage_cache \<Rightarrow> usage_cache \<times> bool" where
  "collect_agent_usage x parser size_of group_by_project agent end_at cancelled version files reasons c =
     apply_scan x size_of group_by_project agent version
       (scan_jsonl_files x parser (agent_options agent end_at cancelled c) files reasons) c"

subsection \<open>Examples\<close>

text \<open>A Claude Code line, and one whose service tier holds a slash; a line of a sample log is a letter.\<close>

definition sample_time :: string where "sample_time = ''2026-06-30T12:00:00.000Z''"

definition sample_end :: string where "sample_end = ''2026-07-01T00:00:00Z''"

definition claude_line :: "string \<Rightarrow> json" where
  "claude_line tier = JObj [(''type'', JStr ''assistant''), (''timestamp'', JStr sample_time),
     (''message'', JObj [(''role'', JStr ''assistant''), (''model'', JStr ''claude-sonnet-4''),
       (''usage'', JObj [(''input_tokens'', JInt 5), (''output_tokens'', JInt 7), (''service_tier'', JStr tier)])])]"

definition codex_turn :: json where
  "codex_turn = JObj [(''type'', JStr ''turn_context''), (''payload'', JObj [(''model'', JStr ''gpt-5'')])]"

definition codex_count :: json where
  "codex_count = JObj [(''type'', JStr ''event_msg''), (''timestamp'', JStr sample_time),
     (''payload'', JObj [(''type'', JStr ''token_count''), (''info'', JObj [(''last_token_usage'',
       JObj [(''input_tokens'', JInt 9), (''output_tokens'', JInt 4)])])])]"

definition sample_scan_externs :: scan_externs where
  "sample_scan_externs = \<lparr>scan_logs = \<lparr>log_times = sample_externs\<lparr>
       instant_of := (\<lambda>s. if s = sample_time then Some 1782820800000000000 else if s = sample_end then Some 1782864000000000000
         else if s = ''1970-01-01T00:00:00Z'' then Some 0 else None),
       secs_text := (\<lambda>t. if t = 0 then ''1970-01-01T00:00:00Z'' else sample_end)\<rparr>,
     millis_text = (\<lambda>_. sample_time), has_git = (\<lambda>_. False)\<rparr>,
   from_slice = (\<lambda>s. if s = ''s'' then Some (claude_line ''a/b'') else if s = ''x'' then None
     else if s = ''t'' then Some codex_turn else if s = ''k'' then Some codex_count else Some (claude_line ''standard'')),
   sha256_hex = (\<lambda>s. CHR ''#'' # s)\<rparr>"

text \<open>A log with a text, where an exclamation mark ends a line.\<close>

definition log_text :: "string \<Rightarrow> string" where
  "log_text t = map (\<lambda>c. if c = CHR ''!'' then newline else c) t"

definition sample_log :: "string \<Rightarrow> local_usage_file" where
  "sample_log t = \<lparr>lf_path = \<lparr>is_absolute = True, parts = [''logs'', ''a.jsonl'']\<rparr>, lf_source_file_id = ''file'',
     lf_size = length t, lf_modified_ns = length t, lf_identity = ''1:2''\<rparr>"

definition view_of :: "string \<Rightarrow> file_view" where
  "view_of t = (let st = Inr \<lparr>st_is_file = True, st_size = length t, st_modified_ns = length t, st_identity = ''1:2''\<rparr> in
     \<lparr>fv_before = st, fv_after = st, fv_opens = Inr True, fv_buffers = (\<lambda>n. unread (drop n (log_text t)) []),
      fv_prefix = (\<lambda>n. Some (take n (log_text t)))\<rparr>)"

end
