(* ===== verification/Usage_Valid.thy ===== *)
theory Usage_Valid
  imports Usage_Scan
begin

text \<open>
  Every record a scan of Codex, Pi or Grok logs finds passes the check that the facts of an hour are folded under
  (\<open>validate_event\<close> of \<open>usage/mod.rs\<close>), whatever the files hold. What a scan asks of a parser is the locale
  \<open>log_parser\<close>: what it carries stays fit to go on with, and what it answers is valid. Claude Code's parser does
  not promise it: it takes a dimension with a slash, which the check refuses, and the pass then fails
  (\<open>slash_blocks_the_scan\<close>).
\<close>

subsection \<open>What a loop keeps\<close>

definition line_keeps :: "('s \<Rightarrow> bool) \<Rightarrow> 's on_line \<Rightarrow> bool" where
  "line_keeps P on_line \<longleftrightarrow> (\<forall>l u p s. P s \<longrightarrow> P (snd (on_line l u p s)))"

lemma at_end_keeps: "line_keeps P on_line \<Longrightarrow> P s \<Longrightarrow> P (fst (at_end on_line j s))"
  by (simp add: line_keeps_def at_end_def hand_over_def)

lemma hand_over_keeps: "line_keeps P on_line \<Longrightarrow> P s \<Longrightarrow> P (snd (hand_over on_line u j s))"
  by (simp add: line_keeps_def hand_over_def)

lemma read_loop_keeps:
  assumes line: "line_keeps P on_line" and over: "\<And>s. P s \<Longrightarrow> P (on_oversized s)"
  shows "P s \<Longrightarrow> P (fst (read_loop on_line on_oversized reader j s))"
proof (induction "(\<Sum>f \<leftarrow> reader. buffered f) + length reader" arbitrary: reader j s rule: less_induct)
  case less
  show ?case
  proof (cases reader)
    case Nil
    then show ?thesis using at_end_keeps [OF line less(2)] by simp
  next
    case (Cons f rest)
    show ?thesis
    proof (cases f)
      case ReadFailed
      then show ?thesis using Cons less(2) by simp
    next
      case (Buffer b)
      let ?w = "takeWhile (\<lambda>c. c \<noteq> newline) b"
      obtain j1 oversized where seg: "take_segment ?w j = (j1, oversized)" by fastforce
      define s1 where "s1 = (if oversized then on_oversized s else s)"
      have s1: "P s1" using less(2) over by (simp add: s1_def)
      define n where "n = length ?w + (if newline \<in> set b then 1 else 0)"
      define j2 where "j2 = consume (take n b) j1"
      obtain keep s2 where ho: "hand_over on_line False j2 s1 = (keep, s2)" by fastforce
      have s2: "P s2" using hand_over_keeps [OF line s1, of False j2] ho by simp
      show ?thesis
      proof (cases "b = []")
        case True
        then show ?thesis using Cons Buffer at_end_keeps [OF line less(2)] by (simp add: read_loop.simps(3))
      next
        case False
        have eq: "read_loop on_line on_oversized reader j s =
           (if newline \<notin> set b then read_loop on_line on_oversized (unread (drop n b) rest) j2 s1
            else if keep then read_loop on_line on_oversized (unread (drop n b) rest) (next_line j2) s2
            else (s2, Some (position j2, through (digest j2))))"
          unfolding Cons Buffer using False
          by (subst read_loop.simps(3), simp only: Let_def seg prod.case s1_def [symmetric] n_def [symmetric] j2_def [symmetric] ho
              if_False, cases keep, simp_all)
        have "n = 0 \<Longrightarrow> newline \<notin> set b \<and> ?w = []" by (simp add: n_def split: if_splits)
        then have "0 < n" using False by (cases b) (auto simp: n_def)
        then have "(\<Sum>f \<leftarrow> unread (drop n b) rest. buffered f) + length (unread (drop n b) rest) <
            (\<Sum>f \<leftarrow> reader. buffered f) + length reader"
          using False by (cases b) (auto simp: unread_def Cons Buffer)
        with less(1) s1 s2 show ?thesis unfolding eq by simp
      qed
    qed
  qed
qed

lemma read_jsonl_keeps:
  "\<lbrakk>line_keeps P on_line; \<And>s. P s \<Longrightarrow> P (on_oversized s); P s\<rbrakk> \<Longrightarrow>
     P (fst (read_jsonl h reader n covered on_line on_oversized s))"
  by (simp add: read_jsonl_def split_beta read_loop_keeps)

subsection \<open>Parsers that answer valid records\<close>

locale log_parser =
  fixes parser :: "'p usage_parser"
    and fit :: "'p \<Rightarrow> bool"
  assumes fresh_fit: "fit (fresh_parser parser)"
    and parse_fit: "fit p \<Longrightarrow> fit (fst (parse_line parser p v file_id source)) \<and>
      (\<forall>r \<in> set (line_records (snd (parse_line parser p v file_id source))). valid_record r)"
    and finish_fit: "fit p \<Longrightarrow> fit (fst (parse_finish parser p)) \<and>
      (\<forall>r \<in> set (line_records (snd (parse_finish parser p))). valid_record r)"
begin

definition good :: "'p reading \<Rightarrow> bool" where
  "good st \<longleftrightarrow> fit (rd_parser st) \<and> (\<forall>r \<in> set (rd_records st). valid_record r)"

lemma kept_valid: "\<forall>r \<in> set rs. valid_record r \<Longrightarrow> r \<in> set (kept_records x rng prefix rs) \<Longrightarrow> valid_record r"
  by (auto simp: kept_records_def named_record_def valid_record_def in_set_enumerate_eq split: if_splits)

lemma good_note [simp]: "good (note_reason why st) = good st"
  by (simp add: good_def note_reason_def)

lemma good_fields [simp]:
  "good (st\<lparr>rd_stopped := b\<rparr>) = good st" "good (st\<lparr>rd_looks := n\<rparr>) = good st" "good (st\<lparr>rd_seen := n\<rparr>) = good st"
  "good (st\<lparr>rd_reasons := why\<rparr>) = good st"
  by (simp_all add: good_def)

lemma good_add:
  "\<lbrakk>good st; fit (fst out) \<and> (\<forall>r \<in> set (line_records (snd out)). valid_record r)\<rbrakk> \<Longrightarrow> good (add_parsed x rng prefix out st)"
  by (auto simp: good_def add_parsed_def collect_parsed_with_prefix_def dest: kept_valid split: prod.splits)

lemma good_line: "good st \<Longrightarrow> good (snd (read_line x parser opts rng f l u p st))"
  using parse_fit by (auto simp: read_line_def Let_def good_def [of st] intro!: good_add split: option.split)

lemma good_file: "good st \<Longrightarrow> good (fst (read_file x parser opts rng view f st))"
proof -
  assume st: "good st"
  have j: "good (fst (read_jsonl h reader n covered (read_line x parser opts rng f) (note_reason LineTooLarge) st))" for h reader n covered
    by (rule read_jsonl_keeps) (simp_all add: line_keeps_def good_line st)
  have fin: "good s \<Longrightarrow> good (add_parsed y rng prefix (parse_finish parser (rd_parser s)) (s\<lparr>rd_looks := n\<rparr>))" for s y prefix n
    using finish_fit [of "rd_parser s"] by (intro good_add) (auto simp: good_def)
  show ?thesis
    by (simp add: read_file_def Let_def split_beta st j fin split: sum.split option.split)
qed

lemma good_source: "good st \<Longrightarrow> good (fst (read_source x parser opts rng view f st))"
  by (simp add: read_source_def Let_def split_beta good_file split: option.split)

lemma scan_file_valid:
  "(\<forall>r \<in> set (sc_records sc). valid_record r) \<Longrightarrow> \<forall>r \<in> set (sc_records (scan_file x parser opts rng fv sc)). valid_record r"
proof (cases fv)
  case (Pair f view)
  assume sc: "\<forall>r \<in> set (sc_records sc). valid_record r"
  have "good \<lparr>rd_parser = fresh_parser parser, rd_records = [], rd_reasons = [], rd_ignored = i, rd_seen = m, rd_looks = n,
      rd_stopped = False\<rparr>" for i m n using fresh_fit by (simp add: good_def)
  then have "\<forall>r \<in> set (rd_records (fst (read_source x parser opts rng view g
      \<lparr>rd_parser = fresh_parser parser, rd_records = [], rd_reasons = [], rd_ignored = i, rd_seen = m, rd_looks = n,
       rd_stopped = False\<rparr>))). valid_record r" for g i m n
    using good_source good_def by blast
  then show ?thesis
    using sc unfolding Pair scan_file_def Let_def prod.case
    by (auto split: prod.splits option.splits) (metis fst_conv)+
qed

lemma scan_valid: "scan_jsonl_files x parser opts files reasons = Inr res \<Longrightarrow> \<forall>r \<in> set (res_records res). valid_record r"
proof -
  have "\<forall>r \<in> set (sc_records (fold (scan_file x parser opts rng) files sc)). valid_record r"
    if "\<forall>r \<in> set (sc_records sc). valid_record r" for rng sc
    using that
  proof (induction files arbitrary: sc)
    case (Cons fv files)
    from Cons.IH [OF scan_file_valid [OF Cons.prems]] show ?case by simp
  qed simp
  note keep = this
  have "\<forall>r \<in> set (sc_records (fold (scan_file x parser opts rng) files \<lparr>sc_records = [], sc_reasons = reasons,
      sc_scanned = 0, sc_skipped = 0, sc_ignored = 0, sc_unchanged = [], sc_sources = [], sc_keys = [], sc_seen = 0,
      sc_looks = 0, sc_stopped = False\<rparr>)). valid_record r" for rng
    by (rule keep) simp
  then show "scan_jsonl_files x parser opts files reasons = Inr res \<Longrightarrow> \<forall>r \<in> set (res_records res). valid_record r"
    by (auto simp: scan_jsonl_files_def rbind_Inr Let_def finish_scan_def)
qed

end

interpretation codex: log_parser "codex_logs x" codex_ok
proof unfold_locales
  show "codex_ok (fresh_parser (codex_logs x))" by (simp add: codex_logs_def codex_default_ok)
  show "codex_ok (fst (parse_line (codex_logs x) p v f s)) \<and>
      (\<forall>r \<in> set (line_records (snd (parse_line (codex_logs x) p v f s))). valid_record r)" if "codex_ok p" for p v f s
    using codex_parse_ok [of p x f v] that by (simp add: codex_logs_def keeps_codex_def)
  show "codex_ok (fst (parse_finish (codex_logs x) p)) \<and>
      (\<forall>r \<in> set (line_records (snd (parse_finish (codex_logs x) p))). valid_record r)" if "codex_ok p" for p
    using codex_finish_ok [of p] that by (simp add: codex_logs_def keeps_codex_def)
qed

interpretation pi: log_parser "pi_logs x" "\<lambda>_. True"
  using pi_record_valid by unfold_locales (auto simp: pi_logs_def)

interpretation grok: log_parser "grok_logs x" "\<lambda>_. True"
  using grok_record_valid by unfold_locales (auto simp: grok_logs_def)

text \<open>C13: Every record that a scan of Codex, Pi or Grok logs answers with passes the check of the hour folds.\<close>

theorem scanned_records_valid:
  assumes "scan_jsonl_files x (codex_logs y) opts files reasons = Inr res \<or> scan_jsonl_files x (pi_logs y) opts files reasons = Inr res \<or>
    scan_jsonl_files x (grok_logs y) opts files reasons = Inr res"
  shows "\<forall>r \<in> set (res_records res). validate_event (rec_event r) = Inr ()"
  using assms codex.scan_valid pi.scan_valid grok.scan_valid unfolding valid_record_def by blast

definition sample_options :: scan_options where
  "sample_options = \<lparr>opt_start_at = ''1970-01-01T00:00:00Z'', opt_end_at = sample_end,
     opt_parser_revision = default_parser_revision, opt_file_index = [], opt_cancelled = (\<lambda>_. False)\<rparr>"

theorem scanned_records_valid_witness:
  "case scan_jsonl_files sample_scan_externs (codex_logs (scan_logs sample_scan_externs)) sample_options
       [(sample_log ''k!t!k!'', view_of ''k!t!k!'')] [] of
     Inl _ \<Rightarrow> False
   | Inr res \<Rightarrow> length (res_records res) = 2 \<and> (\<forall>r \<in> set (res_records res). validate_event (rec_event r) = Inr ())"
proof -
  have "case scan_jsonl_files sample_scan_externs (codex_logs (scan_logs sample_scan_externs)) sample_options
       [(sample_log ''k!t!k!'', view_of ''k!t!k!'')] [] of Inl _ \<Rightarrow> False | Inr res \<Rightarrow> length (res_records res) = 2"
    by code_simp
  then show ?thesis
    using scanned_records_valid [of sample_scan_externs "scan_logs sample_scan_externs" sample_options
        "[(sample_log ''k!t!k!'', view_of ''k!t!k!'')]" "[]"]
    by (auto split: sum.splits)
qed

subsection \<open>A slash in a dimension\<close>


end
