(* ===== verification/Usage_Gemini.thy ===== *)
theory Usage_Gemini
  imports Usage_Valid
begin

text \<open>
  Gemini's logs (\<open>packages/service/src/usage/gemini.rs\<close>), which are lines like the others' or whole
  conversations in one JSON file, and Copilot's (\<open>copilot.rs\<close>), which count in totals that a session starts over.
  What the lemmas show: a Gemini record is valid, so \<open>log_parser\<close> holds of its lines; a Copilot
  record is valid unless a sum leaves the JSON-safe range; and a Gemini scan that is cut short tells the cache that the files it did not
  come to are deleted (\<open>cancelled_gemini_scan_deletes\<close>).
\<close>

subsection \<open>Messages\<close>

definition conversation_messages :: "json \<Rightarrow> json list" where
  "conversation_messages v =
     (case v of
        JObj _ \<Rightarrow> filter is_object (members_of ''messages'' v)
      | JArr messages \<Rightarrow> filter is_object messages
      | _ \<Rightarrow> [])"

definition gemini_record ::
  "log_externs \<Rightarrow> path \<Rightarrow> json \<Rightarrow> string \<Rightarrow> string \<Rightarrow> string \<Rightarrow> nat \<Rightarrow> nat \<Rightarrow> nat \<Rightarrow> nat \<Rightarrow> usage_record" where
  "gemini_record x source value file_id t0 model input cached output_tokens thoughts =
     \<lparr>rec_event = \<lparr>ev_occurred_at = t0, ev_agent = usage_agent.Gemini, ev_model = model,
        ev_billing_channel = billing_channel.Unknown, ev_channel_source = channel_source.Unknown,
        ev_input_tokens = input, ev_cache_read_tokens = cached, ev_cache_write_5m_tokens = 0,
        ev_cache_write_1h_tokens = 0, ev_cache_write_inferred_tokens = 0, ev_output_tokens = output_tokens,
        ev_reasoning_tokens = thoughts, ev_requests = 1, ev_context_bucket = context_bucket_of input,
        ev_service_tier = ''unknown'', ev_speed = ''unknown'', ev_inference_geo = ''unknown'',
        ev_billable_tools = no_tools, ev_source_cost_microusd = None, ev_source_cost_covered_requests = 0,
        ev_project_key = or_else (Option.bind (cwd_from_value value) (project_key_from_cwd x))
          (project_key_from_source_path x source)\<rparr>,
      rec_source_file_id = file_id, rec_key = []\<rparr>"

definition gemini_output :: "nat \<Rightarrow> nat \<Rightarrow> nat option" where
  "gemini_output outp thoughts = (if outp < thoughts then safe_sum [outp, thoughts] else Some outp)"

definition gemini_message :: "log_externs \<Rightarrow> path \<Rightarrow> string \<Rightarrow> json \<Rightarrow> parsed_line" where
  "gemini_message x source file_id value =
     (case object_member ''tokens'' value of
        None \<Rightarrow> if str_member ''type'' value = Some ''gemini'' then line_ignored_empty else line_empty
      | Some tokens \<Rightarrow>
     (case Option.bind (str_member ''timestamp'' value) (canonical_instant x) of
        None \<Rightarrow> line_refused InvalidTimestamp
      | Some t0 \<Rightarrow>
     (case bounded_model (json_get ''model'' value) of
        None \<Rightarrow> line_refused InvalidModel
      | Some model \<Rightarrow>
     (case (optional_count (json_get ''input'' tokens), optional_count (json_get ''output'' tokens),
            optional_count (json_get ''cached'' tokens), optional_count (json_get ''thoughts'' tokens)) of
        (Some input, Some outp, Some cached, Some thoughts) \<Rightarrow>
          if input < cached then line_refused InvalidUsage
          else (case gemini_output outp thoughts of
            None \<Rightarrow> line_refused InvalidUsage
          | Some output_tokens \<Rightarrow>
              if input = 0 \<and> output_tokens = 0 \<and> cached = 0 \<and> thoughts = 0 then line_ignored_empty
              else \<lparr>line_records = [gemini_record x source value file_id t0 model input cached output_tokens thoughts],
                    line_reason = None, line_ignored = 0\<rparr>)
      | _ \<Rightarrow> line_refused InvalidUsage))))"

text \<open>The records of all parts; the first reason; the empty ones added up.\<close>

definition join_parsed :: "parsed_line list \<Rightarrow> parsed_line" where
  "join_parsed ls =
     \<lparr>line_records = concat (map line_records ls),
      line_reason = (case List.map_filter line_reason ls of [] \<Rightarrow> None | r # _ \<Rightarrow> Some r),
      line_ignored = (\<Sum>l \<leftarrow> ls. line_ignored l)\<rparr>"

lemma as_array_Some: "as_array w = Some ms \<longleftrightarrow> w = JArr ms"
  by (cases w) auto

lemma message_smaller: "m \<in> set (conversation_messages v) \<Longrightarrow> size m < size v"
proof -
  have in_list: "m \<in> set ms \<Longrightarrow> size m < Suc (size_list size ms)" for ms :: "json list"
    by (induction ms) auto
  have in_obj: "map_of ps k = Some w \<Longrightarrow> size w < Suc (size_list (size_prod (\<lambda>_. 0) size) ps)" for ps :: "(string \<times> json) list" and k w
    by (induction ps) (auto split: if_splits)
  assume m: "m \<in> set (conversation_messages v)"
  show ?thesis
  proof (cases v)
    case (JObj ps)
    from m have "m \<in> set (members_of ''messages'' v)" by (simp add: conversation_messages_def JObj)
    then obtain ms where "map_of ps ''messages'' = Some (JArr ms)" "m \<in> set ms"
      by (cases "Option.bind (json_get ''messages'' v) as_array") (auto simp: members_of_def bind_eq_Some_conv as_array_Some JObj)
    with in_list [of ms] in_obj [of ps "''messages''" "JArr ms"] show ?thesis by (simp add: JObj)
  qed (use m in_list in \<open>auto simp: conversation_messages_def\<close>)
qed

function gemini_parse :: "log_externs \<Rightarrow> path \<Rightarrow> string \<Rightarrow> json \<Rightarrow> parsed_line" where
  "gemini_parse x source file_id value =
     (if has_key ''messages'' value
      then join_parsed (map (gemini_parse x source file_id) (conversation_messages value))
      else if str_member ''type'' value \<noteq> None \<and> str_member ''type'' value \<noteq> Some ''gemini'' then line_empty
      else if str_member ''type'' value = None \<and> \<not> has_key ''tokens'' value then line_empty
      else gemini_message x source file_id value)"
  by pat_completeness auto
termination
  by (relation "measure (\<lambda>(_, _, _, v). size v)") (auto intro: message_smaller)

declare gemini_parse.simps [simp del]

definition gemini_logs :: "log_externs \<Rightarrow> unit usage_parser" where
  "gemini_logs x = \<lparr>context_free = True, fresh_parser = (), parse_line = (\<lambda>p v file_id source. ((), gemini_parse x source file_id v)),
     parse_finish = (\<lambda>p. (p, line_empty))\<rparr>"

subsection \<open>Conversations\<close>

definition is_ascii_whitespace :: "char \<Rightarrow> bool" where
  "is_ascii_whitespace c \<longleftrightarrow> byte c \<in> {32, 9, 10, 12, 13}"

definition trim_ascii :: "string \<Rightarrow> string" where
  "trim_ascii s = rev (dropWhile is_ascii_whitespace (rev (dropWhile is_ascii_whitespace s)))"

definition json_lines :: "scan_externs \<Rightarrow> string \<Rightarrow> coverage_reason_code + json list" where
  "json_lines x bytes =
     fold_r (\<lambda>line messages.
       if trim_ascii line = [] then Inr messages
       else (case from_slice x (trim_ascii line) of
         None \<Rightarrow> Inl MalformedJson
       | Some v \<Rightarrow> if is_object v then Inr (messages @ [v]) else Inl UnknownRecord))
       (split_on newline bytes) []"

definition read_json_file :: "scan_externs \<Rightarrow> file_view \<Rightarrow> coverage_reason_code + json" where
  "read_json_file x view =
     (case fv_opens view of
        Inl e \<Rightarrow> Inl (reason_for_io e)
      | Inr _ \<Rightarrow>
          if \<not> all_read (fv_buffers view 0) then Inl SourceUnreadable
          else let bytes = bytes_of (fv_buffers view 0) in
            if max_jsonl_line_bytes < length bytes then Inl LineTooLarge
            else (case from_slice x bytes of
              Some v \<Rightarrow> Inr v
            | None \<Rightarrow> rbind (json_lines x bytes) (\<lambda>messages. Inr (JArr messages))))"

text \<open>What one file of conversations adds: \<open>(records, reasons, ignored)\<close>.\<close>

definition collect_message ::
  "scan_externs \<Rightarrow> scan_range \<Rightarrow> local_usage_file \<Rightarrow> nat \<times> json \<Rightarrow> usage_record list \<times> coverage_reason list \<times> nat \<Rightarrow>
   usage_record list \<times> coverage_reason list \<times> nat" where
  "collect_message x rng f = (\<lambda>(i, message) (records, reasons, ignored).
     (case collect_parsed_with_prefix (log_times (scan_logs x))
         (gemini_parse (scan_logs x) (lf_path f) (lf_source_file_id f) message) records reasons rng (''json:'' @ decimal_string i) of
        (records, reasons, n) \<Rightarrow> (records, reasons, saturating_add ignored n)))"

definition read_conversation ::
  "scan_externs \<Rightarrow> scan_range \<Rightarrow> file_view \<Rightarrow> local_usage_file \<Rightarrow> nat \<Rightarrow> usage_record list \<times> coverage_reason list \<times> nat" where
  "read_conversation x rng view f ignored =
     (case read_json_file x view of
        Inl why \<Rightarrow> ([], push_reason why [], ignored)
      | Inr value \<Rightarrow>
          let messages = conversation_messages value in
          fold (collect_message x rng f)
            (enumerate 0 (if messages = [] \<and> is_object value then [value] else messages)) ([], [], ignored))"

definition scan_conversation ::
  "scan_externs \<Rightarrow> scan_options \<Rightarrow> scan_range \<Rightarrow> local_usage_file \<times> file_view \<Rightarrow> scanning \<Rightarrow> scanning" where
  "scan_conversation x opts rng = (\<lambda>(f, view) sc.
     if sc_stopped sc then sc
     else if opt_cancelled opts (sc_looks sc)
     then sc\<lparr>sc_looks := sc_looks sc + 1, sc_reasons := push_reason ScanCancelled (sc_reasons sc), sc_stopped := True\<rparr>
     else
       let sc = sc\<lparr>sc_looks := sc_looks sc + 1, sc_keys := remember_project_key (scan_logs x) f (sc_keys sc)\<rparr> in
       case matching_file_info (fv_before view) f (sc_reasons sc) of
         (reasons, None) \<Rightarrow> sc\<lparr>sc_reasons := reasons, sc_scanned := sc_scanned sc + 1,
           sc_sources := sc_sources sc @ [source_scan False (file_index_of f (opt_parser_revision opts)) f [] opts
             [\<lparr>reason_code = SourceChanged, reason_count = 1\<rparr>]]\<rparr>
       | (reasons, Some current) \<Rightarrow>
           if unchanged_since opts current
           then sc\<lparr>sc_reasons := reasons, sc_skipped := sc_skipped sc + 1,
             sc_unchanged := sc_unchanged sc @ [lf_source_file_id current]\<rparr>
           else (case read_conversation x rng view current (sc_ignored sc) of
               (records, why, ignored) \<Rightarrow>
                 sc\<lparr>sc_records := sc_records sc @ records,
                   sc_reasons := fold (\<lambda>r. push_reason_count (reason_code r) (reason_count r)) why reasons,
                   sc_scanned := sc_scanned sc + 1, sc_ignored := ignored,
                   sc_sources := sc_sources sc @ [source_scan False (file_index_of current (opt_parser_revision opts)) current records opts why]\<rparr>))"

definition scan_json_conversations ::
  "scan_externs \<Rightarrow> scan_options \<Rightarrow> nat \<Rightarrow> (local_usage_file \<times> file_view) list \<Rightarrow> coverage_reason list \<Rightarrow> usage_error + scan_result" where
  "scan_json_conversations x opts looks files reasons =
     rbind (parse_range (log_times (scan_logs x)) (opt_start_at opts) (opt_end_at opts)) (\<lambda>rng.
       let sc = fold (scan_conversation x opts rng) files
             \<lparr>sc_records = [], sc_reasons = reasons, sc_scanned = 0, sc_skipped = 0, sc_ignored = 0, sc_unchanged = [],
              sc_sources = [], sc_keys = [], sc_seen = 0, sc_looks = looks, sc_stopped = False\<rparr>;
           known = map (\<lambda>(f, _). lf_source_file_id f) files
       in Inr (finish_scan opts sc (filter (\<lambda>file_id. file_id \<notin> set known) (map fst (opt_file_index opts)))))"

text \<open>Two scans of one agent as one. A file that neither of them tells of counts as deleted.\<close>

definition merge_scans :: "scan_options \<Rightarrow> scan_result \<Rightarrow> scan_result \<Rightarrow> scan_result" where
  "merge_scans opts jsonl json =
     (let reasons = res_reasons jsonl @ res_reasons json; sources = res_sources jsonl @ res_sources json;
          unchanged = res_unchanged jsonl @ res_unchanged json
      in \<lparr>res_records = res_records jsonl @ res_records json, res_complete = (reasons = []), res_reasons = reasons,
          res_scanned = res_scanned jsonl + res_scanned json, res_skipped = res_skipped jsonl + res_skipped json,
          res_ignored = res_ignored jsonl + res_ignored json, res_unchanged = unchanged,
          res_deleted = sort (filter (\<lambda>file_id. file_id \<notin> scan_file_id ` set sources \<union> set unchanged) (map fst (opt_file_index opts))),
          res_sources = sources,
          res_project_keys = fold (\<lambda>(k, v). AList.update k v) (res_project_keys json) (res_project_keys jsonl)\<rparr>)"

definition is_jsonl :: "local_usage_file \<Rightarrow> bool" where
  "is_jsonl f \<longleftrightarrow> (case file_name (lf_path f) of
     None \<Rightarrow> False | Some n \<Rightarrow> length (file_stem n) + 6 = length n \<and> ends_with ''.jsonl'' n)"

text \<open>The looks at the cancel flag of the second scan follow those of the first.\<close>

definition scan_gemini_usage ::
  "scan_externs \<Rightarrow> scan_options \<Rightarrow> (nat \<Rightarrow> bool) \<Rightarrow> (local_usage_file \<times> file_view) list \<Rightarrow> coverage_reason list \<Rightarrow>
   usage_error + scan_result" where
  "scan_gemini_usage x opts cancelled_later files reasons =
     (let jsonl = filter (\<lambda>(f, _). is_jsonl f) files; json = filter (\<lambda>(f, _). \<not> is_jsonl f) files;
          json_ids = set (map (\<lambda>(f, _). lf_source_file_id f) json)
      in if json = [] then scan_jsonl_files x (gemini_logs (scan_logs x)) opts jsonl reasons
         else
           rbind (scan_jsonl_files x (gemini_logs (scan_logs x))
             (opts\<lparr>opt_file_index := filter (\<lambda>(file_id, _). file_id \<notin> json_ids) (opt_file_index opts)\<rparr>) jsonl reasons) (\<lambda>a.
           rbind (scan_json_conversations x (opts\<lparr>opt_cancelled := cancelled_later\<rparr>) 0 json reasons) (\<lambda>b.
             Inr (merge_scans opts a b))))"

subsection \<open>Copilot\<close>

record copilot_tokens =
  cp_input :: nat
  cp_cache_read :: nat
  cp_cache_write :: nat
  cp_output :: nat
  cp_reasoning :: nat
  cp_requests :: nat

record copilot_parser =
  saw_per_call :: bool
  previous_usage :: "(string \<times> copilot_tokens) list"

definition copilot_no_tokens :: copilot_tokens where
  "copilot_no_tokens = \<lparr>cp_input = 0, cp_cache_read = 0, cp_cache_write = 0, cp_output = 0, cp_reasoning = 0, cp_requests = 0\<rparr>"

definition first_member :: "string list \<Rightarrow> json \<Rightarrow> json option" where
  "first_member keys v = (case List.map_filter (\<lambda>key. json_get key v) keys of [] \<Rightarrow> None | w # _ \<Rightarrow> Some w)"

definition copilot_token_usage :: "json \<Rightarrow> nat \<Rightarrow> copilot_tokens option" where
  "copilot_token_usage usage requests =
     Option.bind (optional_count (first_member [''inputTokens'', ''input_tokens'', ''promptTokens''] usage)) (\<lambda>input.
     Option.bind (optional_count (first_member [''cacheReadTokens'', ''cache_read_tokens''] usage)) (\<lambda>cache_read.
     Option.bind (optional_count (first_member [''cacheWriteTokens'', ''cache_write_tokens'', ''cacheCreationInputTokens''] usage)) (\<lambda>cache_write.
     Option.bind (optional_count (first_member [''outputTokens'', ''output_tokens''] usage)) (\<lambda>outp.
     Option.bind (optional_count (first_member [''reasoningTokens'', ''reasoning_tokens''] usage)) (\<lambda>reasoning.
       Some \<lparr>cp_input = input, cp_cache_read = cache_read, cp_cache_write = cache_write, cp_output = outp,
             cp_reasoning = reasoning, cp_requests = requests\<rparr>)))))"

definition copilot_subtract :: "copilot_tokens \<Rightarrow> copilot_tokens \<Rightarrow> copilot_tokens" where
  "copilot_subtract a b =
     \<lparr>cp_input = cp_input a - cp_input b, cp_cache_read = cp_cache_read a - cp_cache_read b,
      cp_cache_write = cp_cache_write a - cp_cache_write b, cp_output = cp_output a - cp_output b,
      cp_reasoning = cp_reasoning a - cp_reasoning b, cp_requests = cp_requests a - cp_requests b\<rparr>"

text \<open>Input and output as the record counts them: what is cached, or reasoned, is added where it is not in them.\<close>

definition copilot_input :: "copilot_tokens \<Rightarrow> nat option" where
  "copilot_input counts =
     Option.bind (checked_add (cp_cache_read counts) (cp_cache_write counts)) (\<lambda>cached.
       if cached \<le> cp_input counts then Some (cp_input counts) else checked_add (cp_input counts) cached)"

definition copilot_output :: "copilot_tokens \<Rightarrow> nat option" where
  "copilot_output counts =
     Option.bind (if cp_output counts < cp_reasoning counts then checked_add (cp_output counts) (cp_reasoning counts)
                  else Some (cp_output counts)) (\<lambda>outp. if outp < cp_reasoning counts then None else Some outp)"

definition copilot_record :: "log_externs \<Rightarrow> json \<Rightarrow> string \<Rightarrow> string \<Rightarrow> string \<Rightarrow> copilot_tokens \<Rightarrow> nat \<Rightarrow> nat \<Rightarrow> usage_record" where
  "copilot_record x envelope file_id t0 model counts input outp =
     \<lparr>rec_event = \<lparr>ev_occurred_at = t0, ev_agent = usage_agent.Copilot, ev_model = model,
        ev_billing_channel = billing_channel.Unknown, ev_channel_source = channel_source.Unknown,
        ev_input_tokens = input, ev_cache_read_tokens = cp_cache_read counts, ev_cache_write_5m_tokens = 0,
        ev_cache_write_1h_tokens = 0, ev_cache_write_inferred_tokens = cp_cache_write counts, ev_output_tokens = outp,
        ev_reasoning_tokens = cp_reasoning counts, ev_requests = max (cp_requests counts) 1,
        ev_context_bucket = context_bucket_of input, ev_service_tier = ''unknown'', ev_speed = ''unknown'',
        ev_inference_geo = ''unknown'', ev_billable_tools = no_tools, ev_source_cost_microusd = None,
        ev_source_cost_covered_requests = 0,
        ev_project_key = Option.bind (or_else (cwd_from_value envelope)
          (Option.bind (object_member ''data'' envelope) cwd_from_value)) (project_key_from_cwd x)\<rparr>,
      rec_source_file_id = file_id, rec_key = []\<rparr>"

definition copilot_event :: "log_externs \<Rightarrow> json \<Rightarrow> string \<Rightarrow> copilot_tokens \<Rightarrow> string \<Rightarrow> parsed_line" where
  "copilot_event x envelope model counts file_id =
     (case bounded_model_text model of
        None \<Rightarrow> line_refused InvalidModel
      | Some model \<Rightarrow>
     (case Option.bind (str_member ''timestamp'' envelope) (canonical_instant x) of
        None \<Rightarrow> line_refused InvalidTimestamp
      | Some t0 \<Rightarrow>
     (case (copilot_input counts, copilot_output counts) of
        (Some input, Some outp) \<Rightarrow>
          if cp_input counts = 0 \<and> outp = 0 \<and> cp_cache_read counts = 0 \<and> cp_cache_write counts = 0
          then line_ignored_empty
          else \<lparr>line_records = [copilot_record x envelope file_id t0 model counts input outp], line_reason = None, line_ignored = 0\<rparr>
      | _ \<Rightarrow> line_refused InvalidUsage)))"

definition copilot_assistant_usage :: "log_externs \<Rightarrow> string \<Rightarrow> json \<Rightarrow> parsed_line" where
  "copilot_assistant_usage x file_id value =
     (let data = (case object_member ''data'' value of Some d \<Rightarrow> d | None \<Rightarrow> value) in
      case bounded_model (or_else (json_get ''model'' data) (json_get ''model'' value)) of
        None \<Rightarrow> line_refused InvalidModel
      | Some model \<Rightarrow>
          (case copilot_token_usage data 1 of
             None \<Rightarrow> line_refused InvalidUsage
           | Some counts \<Rightarrow> copilot_event x value model counts file_id))"

text \<open>A model of a session's summary: what it used since the last summary. The state is the parser, the records and the
  reason so far.\<close>

definition copilot_metric ::
  "log_externs \<Rightarrow> string \<Rightarrow> json \<Rightarrow> string \<times> json \<Rightarrow> copilot_parser \<times> usage_record list \<times> coverage_reason_code option \<Rightarrow>
   copilot_parser \<times> usage_record list \<times> coverage_reason_code option" where
  "copilot_metric x file_id value = (\<lambda>(model, metric) (p, records, reason).
     if \<not> is_object metric then (p, records, Some InvalidUsage)
     else
       let usage = (case object_member ''usage'' metric of Some u \<Rightarrow> u | None \<Rightarrow> metric);
           requests = (case or_else (Option.bind (object_member ''requests'' metric) (\<lambda>r. safe_count (json_get ''count'' r)))
               (optional_count (json_get ''count'' metric)) of Some n \<Rightarrow> n | None \<Rightarrow> 1)
       in case copilot_token_usage usage requests of
         None \<Rightarrow> (p, records, Some InvalidUsage)
       | Some current \<Rightarrow>
           let before = (case map_of (previous_usage p) model of Some u \<Rightarrow> u | None \<Rightarrow> copilot_no_tokens);
               p = p\<lparr>previous_usage := AList.update model current (previous_usage p)\<rparr>;
               delta = copilot_subtract current before
           in if delta = copilot_no_tokens then (p, records, reason)
              else let next = copilot_event x value model delta file_id
                   in (p, records @ line_records next, if reason = None then line_reason next else reason))"

fun members :: "json \<Rightarrow> (string \<times> json) list" where
  "members (JObj ps) = ps"
| "members _ = []"

definition copilot_shutdown :: "log_externs \<Rightarrow> string \<Rightarrow> json \<Rightarrow> copilot_parser \<Rightarrow> copilot_parser \<times> parsed_line" where
  "copilot_shutdown x file_id value p =
     (let data = (case object_member ''data'' value of Some d \<Rightarrow> d | None \<Rightarrow> value) in
      case object_member ''modelMetrics'' data of
        None \<Rightarrow> (p, line_empty)
      | Some metrics \<Rightarrow>
          (case fold (copilot_metric x file_id value) (members metrics) (p, [], None) of
             (p, records, reason) \<Rightarrow> (p, \<lparr>line_records = records, line_reason = reason, line_ignored = 0\<rparr>)))"

definition copilot_parse :: "log_externs \<Rightarrow> string \<Rightarrow> json \<Rightarrow> copilot_parser \<Rightarrow> copilot_parser \<times> parsed_line" where
  "copilot_parse x file_id value p =
     (if str_member ''type'' value = Some ''assistant.usage''
      then (p\<lparr>saw_per_call := True\<rparr>, copilot_assistant_usage x file_id value)
      else if str_member ''type'' value = Some ''session.shutdown'' \<and> \<not> saw_per_call p
      then copilot_shutdown x file_id value p
      else (p, line_empty))"

definition copilot_logs :: "log_externs \<Rightarrow> copilot_parser usage_parser" where
  "copilot_logs x = \<lparr>context_free = False, fresh_parser = \<lparr>saw_per_call = False, previous_usage = []\<rparr>,
     parse_line = (\<lambda>p v file_id _. copilot_parse x file_id v p), parse_finish = (\<lambda>p. (p, line_empty))\<rparr>"

subsection \<open>What is parsed is valid\<close>

lemma gemini_message_valid: "r \<in> set (line_records (gemini_message x source file_id v)) \<Longrightarrow> valid_record r"
proof -
  assume "r \<in> set (line_records (gemini_message x source file_id v))"
  then obtain tokens t0 model input outp cached thoughts output_tokens where
    m: "bounded_model (json_get ''model'' v) = Some model"
    and c: "optional_count (json_get ''input'' tokens) = Some input" "optional_count (json_get ''output'' tokens) = Some outp"
      "optional_count (json_get ''thoughts'' tokens) = Some thoughts" "cached \<le> input" "gemini_output outp thoughts = Some output_tokens"
    and r: "r = gemini_record x source v file_id t0 model input cached output_tokens thoughts"
    unfolding gemini_message_def by (simp add: not_less split: option.splits if_splits)
  have "output_tokens \<le> max_safe_count \<and> thoughts \<le> output_tokens"
    using c(5) optional_count_le [OF c(2)] by (auto simp: gemini_output_def split: if_splits)
  moreover have "check_channel billing_channel.Unknown channel_source.Unknown = Inr ()" by code_simp
  ultimately show ?thesis
    using bounded_model_ok [OF m] optional_count_le [OF c(1)] c(4) max_safe_64 one_le_max_safe
    by (simp add: valid_record_iff r gemini_record_def Let_def each_Inr check_subsets_Inr check_source_cost_Inr)
qed

lemma gemini_parse_valid: "\<forall>r \<in> set (line_records (gemini_parse x source file_id v)). valid_record r"
proof (induction x source file_id v rule: gemini_parse.induct)
  case (1 x source file_id v)
  show ?case
  proof (cases "has_key ''messages'' v")
    case True
    have "line_records (gemini_parse x source file_id v) =
        concat (map (\<lambda>m. line_records (gemini_parse x source file_id m)) (conversation_messages v))"
      by (subst gemini_parse.simps) (simp add: True join_parsed_def comp_def)
    then show ?thesis using 1 [OF True] by auto
  next
    case False
    then have "gemini_parse x source file_id v \<in> {line_empty, gemini_message x source file_id v}"
      by (subst gemini_parse.simps) simp
    then show ?thesis using gemini_message_valid by auto
  qed
qed

interpretation gemini: log_parser "gemini_logs x" "\<lambda>_. True"
  using gemini_parse_valid by unfold_locales (auto simp: gemini_logs_def)

text \<open>A Copilot record is valid but for a sum that leaves the JSON-safe range: the parser adds with \<open>checked_add\<close>,
  which only looks at \<open>u64\<close>, where the others add with \<open>safe_sum\<close>.\<close>

definition copilot_tokens_ok :: "copilot_tokens \<Rightarrow> bool" where
  "copilot_tokens_ok u \<longleftrightarrow> cp_input u \<le> max_safe_count \<and> cp_cache_read u \<le> max_safe_count \<and> cp_cache_write u \<le> max_safe_count \<and>
     cp_output u \<le> max_safe_count \<and> cp_reasoning u \<le> max_safe_count \<and> cp_requests u \<le> max_safe_count"

lemma copilot_event_valid:
  assumes "copilot_tokens_ok counts" "r \<in> set (line_records (copilot_event x envelope m counts file_id))"
  shows "valid_record r \<longleftrightarrow> ev_input_tokens (rec_event r) \<le> max_safe_count \<and> ev_output_tokens (rec_event r) \<le> max_safe_count"
proof -
  from assms(2) obtain model t0 input outp where
    m: "bounded_model_text m = Some model" and i: "copilot_input counts = Some input" and c: "copilot_output counts = Some outp"
    and r: "r = copilot_record x envelope file_id t0 model counts input outp"
    by (auto simp: copilot_event_def split: option.splits if_splits)
  have "cp_cache_read counts + cp_cache_write counts \<le> input"
    using i by (auto simp: copilot_input_def checked_add_def bind_eq_Some_conv split: if_splits)
  moreover have "cp_reasoning counts \<le> outp" using c by (auto simp: copilot_output_def bind_eq_Some_conv split: if_splits)
  moreover have "check_channel billing_channel.Unknown channel_source.Unknown = Inr ()" by code_simp
  moreover have "0 < max (cp_requests counts) 1" "max (cp_requests counts) 1 \<le> max_safe_count"
    using assms(1) one_le_max_safe by (auto simp: copilot_tokens_ok_def)
  ultimately show ?thesis
    using bounded_model_text_ok [OF m] assms(1) max_safe_64
    by (auto simp: valid_record_iff r copilot_record_def Let_def each_Inr check_subsets_Inr check_source_cost_Inr copilot_tokens_ok_def)
qed

lemma copilot_token_usage_ok: "copilot_token_usage u n = Some c \<Longrightarrow> n \<le> max_safe_count \<Longrightarrow> copilot_tokens_ok c"
  by (auto simp: copilot_token_usage_def copilot_tokens_ok_def bind_eq_Some_conv dest: optional_count_le)

lemma copilot_subtract_ok: "copilot_tokens_ok a \<Longrightarrow> copilot_tokens_ok (copilot_subtract a b)"
  by (auto simp: copilot_tokens_ok_def copilot_subtract_def)

subsection \<open>A Gemini scan that is cut short\<close>

definition collect_gemini_usage ::
  "scan_externs \<Rightarrow> (usage_event \<Rightarrow> nat) \<Rightarrow> bool \<Rightarrow> string \<Rightarrow> (nat \<Rightarrow> bool) \<Rightarrow> (nat \<Rightarrow> bool) \<Rightarrow> nat \<Rightarrow>
   (local_usage_file \<times> file_view) list \<Rightarrow> coverage_reason list \<Rightarrow> usage_cache \<Rightarrow> usage_cache \<times> bool" where
  "collect_gemini_usage x size_of group_by_project end_at cancelled cancelled_later version files reasons c =
     apply_scan x size_of group_by_project usage_agent.Gemini version
       (scan_gemini_usage x (agent_options usage_agent.Gemini end_at cancelled c) cancelled_later files reasons) c"

lemma delete_sources_records:
  "file_records (snd (fold (delete_source agent) gone (D, c))) =
     filter (\<lambda>((a, f, _), _). \<not> (a = agent \<and> f \<in> set gone)) (file_records c)"
proof (induction gone arbitrary: D c)
  case (Cons g gone)
  obtain D' c' where "delete_source agent g (D, c) = (D', c')" by fastforce
  moreover from this have "file_records c' = filter (\<lambda>((a, f, _), _). \<not> (a = agent \<and> f = g)) (file_records c)"
    by (auto simp: delete_source_def delete_records_def delete_partial_sources_def)
  ultimately show ?case using Cons [of D' c'] by (auto intro!: filter_cong simp: filter_filter)
qed (simp add: split_beta)

definition cancelled_at :: "scanning \<Rightarrow> scanning" where
  "cancelled_at sc = sc\<lparr>sc_looks := sc_looks sc + 1, sc_reasons := push_reason ScanCancelled (sc_reasons sc), sc_stopped := True\<rparr>"

lemma one_file:
  "sc_stopped sc \<Longrightarrow> scan_file x parser opts rng fv sc = sc"
  "\<lbrakk>\<not> sc_stopped sc; opt_cancelled opts (sc_looks sc)\<rbrakk> \<Longrightarrow> scan_file x parser opts rng fv sc = cancelled_at sc"
  by (cases fv; simp add: scan_file_def cancelled_at_def)+

lemma one_conversation:
  "sc_stopped sc \<Longrightarrow> scan_conversation x opts rng fv sc = sc"
  "\<lbrakk>\<not> sc_stopped sc; opt_cancelled opts (sc_looks sc)\<rbrakk> \<Longrightarrow> scan_conversation x opts rng fv sc = cancelled_at sc"
  by (cases fv; simp add: scan_conversation_def cancelled_at_def)+

lemma stopped_files: "sc_stopped sc \<Longrightarrow> fold (scan_file x parser opts rng) files sc = sc"
  by (induction files arbitrary: sc) (simp_all add: one_file)

lemma stopped_conversations: "sc_stopped sc \<Longrightarrow> fold (scan_conversation x opts rng) files sc = sc"
  by (induction files arbitrary: sc) (simp_all add: one_conversation)

lemma cancelled_logs:
  assumes "scan_jsonl_files x parser opts files reasons = Inr res" "\<And>n. opt_cancelled opts n"
  shows "res_sources res = [] \<and> res_unchanged res = []"
proof -
  let ?start = "\<lparr>sc_records = [], sc_reasons = reasons, sc_scanned = 0, sc_skipped = 0, sc_ignored = 0, sc_unchanged = [],
              sc_sources = [], sc_keys = [], sc_seen = 0, sc_looks = 0, sc_stopped = False\<rparr> :: scanning"
  have "sc_sources (fold (scan_file x parser opts rng) files ?start) = [] \<and>
      sc_unchanged (fold (scan_file x parser opts rng) files ?start) = []" for rng
    using assms(2) by (cases files) (simp_all add: one_file cancelled_at_def stopped_files)
  then show ?thesis using assms(1) by (auto simp: scan_jsonl_files_def rbind_Inr Let_def finish_scan_def)
qed

lemma cancelled_conversations:
  assumes "scan_json_conversations x opts n files reasons = Inr res" "\<And>n. opt_cancelled opts n"
  shows "res_sources res = [] \<and> res_unchanged res = []"
proof -
  let ?start = "\<lparr>sc_records = [], sc_reasons = reasons, sc_scanned = 0, sc_skipped = 0, sc_ignored = 0, sc_unchanged = [],
              sc_sources = [], sc_keys = [], sc_seen = 0, sc_looks = n, sc_stopped = False\<rparr> :: scanning"
  have "sc_sources (fold (scan_conversation x opts rng) files ?start) = [] \<and>
      sc_unchanged (fold (scan_conversation x opts rng) files ?start) = []" for rng
    using assms(2) by (cases files) (simp_all add: one_conversation cancelled_at_def stopped_conversations)
  then show ?thesis using assms(1) by (auto simp: scan_json_conversations_def rbind_Inr Let_def finish_scan_def)
qed

text \<open>C23: A Gemini scan that is cancelled tells the cache that every file it did not come to is deleted, as soon as one of
  the logs is a conversation: the records of all of them are gone, though no file is.\<close>

theorem cancelled_gemini_scan_deletes:
  assumes "(f, view) \<in> set files" "\<not> is_jsonl f"
    and "collect_gemini_usage x size_of g end_at (\<lambda>_. True) (\<lambda>_. True) version files reasons c = (c', True)"
    and "map_of (file_index c) (usage_agent.Gemini, file) \<noteq> None"
  shows "map_of (file_records c') (usage_agent.Gemini, file, key) = None"
proof -
  let ?opts = "agent_options usage_agent.Gemini end_at (\<lambda>_. True) c"
  obtain res where scan: "scan_gemini_usage x ?opts (\<lambda>_. True) files reasons = Inr res"
    and applied: "apply_usage_scan (log_times (scan_logs x)) size_of g usage_agent.Gemini (scan_delta res) version c = Inr c'"
    using assms(3) by (auto simp: collect_gemini_usage_def apply_scan_def split: sum.splits)
  have "filter (\<lambda>(f, _). \<not> is_jsonl f) files \<noteq> []" using assms(1,2) by (auto simp: filter_empty_conv)
  then obtain jsonl json idx where res: "res = merge_scans ?opts jsonl json"
    and a: "scan_jsonl_files x (gemini_logs (scan_logs x)) (?opts\<lparr>opt_file_index := idx\<rparr>)
        (filter (\<lambda>(f, _). is_jsonl f) files) reasons = Inr jsonl"
    and b: "scan_json_conversations x (?opts\<lparr>opt_cancelled := \<lambda>_. True\<rparr>) 0 (filter (\<lambda>(f, _). \<not> is_jsonl f) files) reasons = Inr json"
    using scan by (auto simp: scan_gemini_usage_def Let_def rbind_Inr)
  have "res_sources jsonl = [] \<and> res_unchanged jsonl = []" by (rule cancelled_logs [OF a]) (simp add: agent_options_def)
  moreover have "res_sources json = [] \<and> res_unchanged json = []" by (rule cancelled_conversations [OF b]) simp
  ultimately have none: "res_sources res = []" and gone: "set (res_deleted res) = fst ` set (usage_file_index usage_agent.Gemini c)"
    by (simp_all add: res merge_scans_def Let_def agent_options_def)
  have "file \<in> set (res_deleted res)"
    using assms(4) unfolding gone map_of_usage_file_index [symmetric] map_of_eq_None_iff by simp
  moreover obtain D1 c1 where f: "fold (delete_source usage_agent.Gemini) (res_deleted res) ({}, c) = (D1, c1)" by fastforce
  have "\<exists>c2. recompute_hours g usage_agent.Gemini version (sorted_list_of_set D1) c1 = Inr c2 \<and> file_records c' = file_records c2"
    using applied by (simp add: apply_usage_scan_def scan_delta_def none f rbind_Inr) (auto split: if_splits)
  then have "file_records c' = file_records c1" using recompute_hours_current by metis
  then have "file_records c' = filter (\<lambda>((a, f, _), _). \<not> (a = usage_agent.Gemini \<and> f \<in> set (res_deleted res))) (file_records c)"
    using delete_sources_records [of usage_agent.Gemini "res_deleted res" "{}" c] by (simp add: f)
  ultimately show ?thesis by (auto simp: map_of_eq_None_iff)
qed

definition gemini_line :: json where
  "gemini_line = JObj [(''messages'', JArr [JObj [(''type'', JStr ''gemini''), (''timestamp'', JStr sample_time),
     (''model'', JStr ''gemini-2.5-pro''), (''tokens'', JObj [(''input'', JInt 9), (''output'', JInt 4)])]])]"

definition chat_externs :: scan_externs where
  "chat_externs = sample_scan_externs\<lparr>from_slice := (\<lambda>_. Some gemini_line)\<rparr>"

definition sample_chat :: local_usage_file where
  "sample_chat = (sample_log ''g'')\<lparr>lf_path := \<lparr>is_absolute = True, parts = [''tmp'', ''session-1.json'']\<rparr>\<rparr>"

theorem cancelled_gemini_scan_deletes_witness:
  "let pass = (\<lambda>flag. collect_gemini_usage chat_externs (\<lambda>_. 100) True sample_end flag flag 1 [(sample_chat, view_of ''g'')] []);
       before = fst (pass (\<lambda>_. False) empty_cache); key = (usage_agent.Gemini, ''file'', ''json:0:0'')
   in map_of (file_records before) key \<noteq> None \<and> map_of (file_records (fst (pass (\<lambda>_. True) before))) key = None"
proof -
  let ?pass = "\<lambda>flag. collect_gemini_usage chat_externs (\<lambda>_. 100) True sample_end flag flag 1 [(sample_chat, view_of ''g'')] []"
  let ?before = "fst (?pass (\<lambda>_. False) empty_cache)"
  have run: "map_of (file_records ?before) (usage_agent.Gemini, ''file'', ''json:0:0'') \<noteq> None"
    "map_of (file_index ?before) (usage_agent.Gemini, ''file'') \<noteq> None" "snd (?pass (\<lambda>_. True) ?before)"
    "\<not> is_jsonl sample_chat"
    by code_simp+
  obtain c' where "?pass (\<lambda>_. True) ?before = (c', True)" using run(3) by (metis prod.collapse)
  from cancelled_gemini_scan_deletes [OF _ run(4) this run(2)] this run(1) show ?thesis by (simp add: Let_def)
qed

text \<open>One Copilot line whose cached tokens are the largest count there is fails the pass in the same way as the slash does.\<close>

theorem copilot_sum_blocks_the_scan:
  "let line = JObj [(''type'', JStr ''assistant.usage''), (''timestamp'', JStr sample_time), (''model'', JStr ''gpt-5''),
         (''inputTokens'', JInt 1), (''cacheReadTokens'', JInt (int max_safe_count))]
   in collect_agent_usage (chat_externs\<lparr>from_slice := (\<lambda>_. Some line)\<rparr>) (copilot_logs (scan_logs chat_externs)) (\<lambda>_. 100) True
        usage_agent.Copilot sample_end (\<lambda>_. False) 1 [(sample_log ''c!'', view_of ''c!'')] [] empty_cache = (empty_cache, False)"
  by code_simp

end
