(* ===== verification/Usage_Resume.thy ===== *)
theory Usage_Resume
  imports Usage_Scan
begin

text \<open>
  What scans of a log add up to, one after another (\<open>usage/scan.rs\<close> with \<open>apply_usage_scan\<close> of
  \<open>state/mod.rs\<close>): a scan of a log that nothing stops says what its lines say; a log that grew between two
  scans leaves the cache with the records one scan of it would have left. And three ways it goes wrong: the
  line a scan was stopped at is never read; a log that came up short is taken for complete by the next scan,
  which reads none of it again; and an unfinished line that is too long is answered for, so that its
  end is read as a line of its own.
\<close>

subsection \<open>What the lines of a log yield\<close>

text \<open>A parser that carries nothing, and what it makes of an item of a log.\<close>

definition stateless :: "unit usage_parser \<Rightarrow> bool" where
  "stateless parser \<longleftrightarrow> context_free parser \<and> parse_finish parser () = ((), line_empty)"

lemma log_parsers_stateless: "stateless (claude_logs x)" "stateless (pi_logs x)" "stateless (grok_logs x)"
  by (simp_all add: stateless_def claude_logs_def pi_logs_def grok_logs_def)

fun yield :: "scan_externs \<Rightarrow> unit usage_parser \<Rightarrow> scan_range \<Rightarrow> local_usage_file \<Rightarrow> item \<Rightarrow> usage_record list" where
  "yield x parser rng f (Line line _ start) =
     (case from_slice x line of
        None \<Rightarrow> []
      | Some value \<Rightarrow> if is_object value
          then kept_records (log_times (scan_logs x)) rng (line_name start)
                 (line_records (snd (parse_line parser () value (lf_source_file_id f) (lf_path f))))
          else [])"
| "yield x parser rng f Oversized = []"

definition yields :: "scan_externs \<Rightarrow> unit usage_parser \<Rightarrow> scan_range \<Rightarrow> local_usage_file \<Rightarrow> item list \<Rightarrow> usage_record list" where
  "yields x parser rng f items = concat (map (yield x parser rng f) items)"

lemma yields_append [simp]: "yields x parser rng f (ks @ js) = yields x parser rng f ks @ yields x parser rng f js"
  by (simp add: yields_def)

lemma stops_tell_read_line: "stops_tell (read_line x parser opts rng f) rd_stopped"
  by (simp add: stops_tell_def read_line_def Let_def note_reason_def)

lemma add_parsed_fields [simp]:
  "rd_stopped (add_parsed x rng prefix out st) = rd_stopped st"
  "rd_records (add_parsed x rng prefix out st) = rd_records st @ kept_records x rng prefix (line_records (snd out))"
  by (simp_all add: add_parsed_def collect_parsed_with_prefix_def split: prod.splits)

lemma note_reason_fields [simp]:
  "rd_stopped (note_reason why st) = rd_stopped st" "rd_records (note_reason why st) = rd_records st"
  by (simp_all add: note_reason_def)

abbreviation do_line :: "scan_externs \<Rightarrow> unit usage_parser \<Rightarrow> scan_options \<Rightarrow> scan_range \<Rightarrow> local_usage_file \<Rightarrow> item \<Rightarrow>
    unit reading \<Rightarrow> unit reading" where
  "do_line x parser opts rng f \<equiv> do_item (read_line x parser opts rng f) (note_reason LineTooLarge)"

lemma do_line_yields:
  "\<not> rd_stopped (do_line x parser opts rng f i st) \<Longrightarrow>
     \<not> rd_stopped st \<and> rd_records (do_line x parser opts rng f i st) = rd_records st @ yield x parser rng f i"
  by (cases i) (auto simp: read_line_def Let_def split: option.splits if_splits)

lemma do_lines_yield:
  "\<not> rd_stopped (fold (do_line x parser opts rng f) items st) \<Longrightarrow>
     \<not> rd_stopped st \<and> rd_records (fold (do_line x parser opts rng f) items st) = rd_records st @ yields x parser rng f items"
proof (induction items arbitrary: st)
  case (Cons i items)
  then show ?case using do_line_yields [of x parser opts rng f i st] by (simp add: yields_def)
qed (simp add: yields_def)

text \<open>A file that holds a text, and can be seeked.\<close>

definition holds_text :: "file_view \<Rightarrow> string \<Rightarrow> bool" where
  "holds_text view t \<longleftrightarrow> fv_opens view = Inr True \<and>
     (\<forall>n \<le> length t. all_read (fv_buffers view n) \<and> bytes_of (fv_buffers view n) = drop n t \<and> fv_prefix view n = Some (take n t))"

definition fresh_reading :: "unit reading \<Rightarrow> bool" where
  "fresh_reading st \<longleftrightarrow> rd_records st = [] \<and> \<not> rd_stopped st"

lemma read_file_yields:
  assumes "stateless parser" "holds_text view t" "fresh_reading st"
    and resume: "resume_point x parser opts view current = (if n = 0 then None else Some (n, take n t))" and "n \<le> length t"
    and run: "read_file x parser opts rng view current st = (st', offset, read, opened)" and "\<not> rd_stopped st'"
  shows "opened = n \<and> offset = n + covered_length (drop n t) \<and> read = sha256_hex x (take offset t) \<and>
    rd_records st' = yields x parser rng current (text_items (drop n t) n) \<and>
    rd_reasons st' = rd_reasons (fold (do_line x parser opts rng current) (text_items (drop n t) n) st)"
proof -
  let ?on = "read_line x parser opts rng current" and ?ov = "note_reason LineTooLarge :: unit reading \<Rightarrow> _"
  have view: "fv_opens view = Inr True" "all_read (fv_buffers view n)" "bytes_of (fv_buffers view n) = drop n t"
    using assms(2,5) by (auto simp: holds_text_def)
  obtain s1 m where r: "read_text ?on ?ov (drop n t) n st = (s1, m)" by fastforce
  have j: "read_jsonl (sha256_hex x) (fv_buffers view n) n (take n t) ?on ?ov st =
      (s1, Some (n + m, sha256_hex x (take (n + m) t)))"
    unfolding read_jsonl_text [OF view(2)] view(3) r by (simp add: take_add)
  define s2 where "s2 = (if rd_stopped s1 then s1
      else if opt_cancelled opts (rd_looks s1) then s1\<lparr>rd_looks := rd_looks s1 + 1\<rparr>
      else add_parsed (log_times (scan_logs x)) rng ''finish'' (parse_finish parser ()) (s1\<lparr>rd_looks := rd_looks s1 + 1\<rparr>))"
  have "read_file x parser opts rng view current st = (s2, n + m, sha256_hex x (take (n + m) t), n)"
    using j by (cases "n = 0") (simp_all add: read_file_def resume open_for_resume_def view s2_def)
  then have out: "st' = s2" "offset = n + m" "read = sha256_hex x (take (n + m) t)" "opened = n" using run by simp_all
  then have "\<not> rd_stopped s1" "rd_records s2 = rd_records s1" "rd_reasons s2 = rd_reasons s1"
    using assms(1,7)
    by (auto simp: s2_def stateless_def line_empty_def kept_records_def add_parsed_def collect_parsed_with_prefix_def split: if_splits)
  moreover from this have "read_text ?on ?ov (drop n t) n st =
      (fold (do_line x parser opts rng current) (text_items (drop n t) n) st, covered_length (drop n t))"
    using read_text_unstopped [OF stops_tell_read_line] r by (metis fst_conv)
  ultimately show ?thesis
    using out r do_lines_yield [of x parser opts rng current "text_items (drop n t) n" st] assms(3)
    by (simp add: fresh_reading_def)
qed

text \<open>A file that is the same after it was read, and the source a scan makes of it.\<close>

definition steady :: "file_view \<Rightarrow> local_usage_file \<Rightarrow> string \<Rightarrow> bool" where
  "steady view f t \<longleftrightarrow> holds_text view t \<and> lf_size f = length t \<and>
     fv_after view = Inr \<lparr>st_is_file = True, st_size = lf_size f, st_modified_ns = lf_modified_ns f, st_identity = lf_identity f\<rparr>"

definition answered :: "scan_externs \<Rightarrow> string \<Rightarrow> local_usage_file \<Rightarrow> string \<Rightarrow> nat \<Rightarrow> file_index_row" where
  "answered x parser_rev f t offset =
     (file_index_of f parser_rev)\<lparr>parsed_offset := offset, prefix_hash := sha256_hex x (take offset t)\<rparr>"

lemma read_source_yields:
  assumes "stateless parser" "steady view f t" "fresh_reading st"
    and resume: "resume_point x parser opts view f = (if n = 0 then None else Some (n, take n t))" and "n \<le> length t"
    and run: "read_source x parser opts rng view f st = (st', s)" and "\<not> rd_stopped st'"
  shows "rd_records st' = yields x parser rng f (text_items (drop n t) n) \<and>
    rd_reasons st' = rd_reasons (fold (do_line x parser opts rng f) (text_items (drop n t) n) st) \<and>
    s = source_scan (0 < n) (answered x (opt_parser_revision opts) f t (n + covered_length (drop n t))) f (rd_records st') opts
      (rd_reasons st')"
proof -
  obtain st1 offset read opened where r: "read_file x parser opts rng view f st = (st1, offset, read, opened)"
    by (metis prod_cases4)
  have after: "matching_file_info (fv_after view) f (rd_reasons st1) = (rd_reasons st1, Some f)"
    using assms(2) by (simp add: steady_def matching_file_info_def)
  have s: "st' = st1" "s = source_scan (0 < opened) ((file_index_of f (opt_parser_revision opts))\<lparr>parsed_offset := offset,
      prefix_hash := read\<rparr>) f (rd_records st1) opts (rd_reasons st1)"
    using run assms(1) by (auto simp: read_source_def r after stateless_def)
  have "holds_text view t" using assms(2) by (simp add: steady_def)
  from read_file_yields [OF assms(1) this assms(3) resume assms(5) r] assms(7) s
  show ?thesis by (simp add: answered_def)
qed

subsection \<open>What the cache keeps of it\<close>

definition store_record :: "externs \<Rightarrow> usage_agent \<Rightarrow> string \<Rightarrow> usage_record \<Rightarrow>
    ((usage_agent \<times> string \<times> string) \<times> stored_record) list \<Rightarrow> ((usage_agent \<times> string \<times> string) \<times> stored_record) list" where
  "store_record x agent file r =
     AList.update (agent, file, rec_key r)
       \<lparr>occurred_at = (case instant_of x (ev_occurred_at (rec_event r)) of None \<Rightarrow> 0 | Some t \<Rightarrow> t div 1000000), event_json = rec_event r\<rparr>"

lemma kept_records_named: "r \<in> set (kept_records x rng (line_name p) rs) \<Longrightarrow> rec_key r \<noteq> []"
  by (auto simp: kept_records_def named_record_def line_name_def split: if_splits)

lemma yields_named: "r \<in> set (yields x parser rng f items) \<Longrightarrow> rec_key r \<noteq> []"
proof -
  have "\<forall>r \<in> set (yield x parser rng f i). rec_key r \<noteq> []" for i
    by (cases i) (auto split: option.splits dest: kept_records_named)
  then show "r \<in> set (yields x parser rng f items) \<Longrightarrow> rec_key r \<noteq> []"
    by (auto simp: yields_def)
qed

definition named :: "usage_record list \<Rightarrow> bool" where "named rs \<longleftrightarrow> (\<forall>r \<in> set rs. rec_key r \<noteq> [])"

lemma insert_records_stored:
  assumes "fold_r (\<lambda>(i, e) (hours, c).
       rbind (insert_record x size_of agent file (key i) e c) (\<lambda>(h, c). Inr (insert h hours, c)))
       (enumerate n (map rec_event rs)) (D, c) = Inr (D', c')"
    and "\<And>i. i < length rs \<Longrightarrow> key (n + i) = rec_key (rs ! i)"
  shows "file_records c' = fold (store_record x agent file) rs (file_records c) \<and> file_index c' = file_index c \<and>
    partial_sources c' = partial_sources c"
  using assms
proof (induction rs arbitrary: n D c)
  case (Cons r rs)
  have k: "key n = rec_key r" using Cons.prems(2) [of 0] by simp
  from Cons.prems(1) obtain h c1 where one: "insert_record x size_of agent file (key n) (rec_event r) c = Inr (h, c1)"
    and rest: "fold_r (\<lambda>(i, e) (hours, c).
       rbind (insert_record x size_of agent file (key i) e c) (\<lambda>(h, c). Inr (insert h hours, c)))
       (enumerate (Suc n) (map rec_event rs)) (insert h D, c1) = Inr (D', c')"
    by (auto simp: rbind_Inr split_paired_Ex)
  have "file_records c1 = store_record x agent file r (file_records c) \<and> file_index c1 = file_index c \<and>
      partial_sources c1 = partial_sources c"
    using one by (auto simp: insert_record_def result_simps Let_def store_record_def k)
  moreover have "key (Suc n + i) = rec_key (rs ! i)" if "i < length rs" for i
    using Cons.prems(2) [of "Suc i"] that by simp
  ultimately show ?case using Cons.IH [OF rest] by simp
qed simp

lemma insert_source_stored:
  assumes "insert_source_records x size_of agent (source_scan ap ix f rs opts why) (D, c) = Inr (D', c')" "named rs"
  shows "file_records c' = fold (store_record x agent (lf_source_file_id f)) rs (file_records c) \<and> file_index c' = file_index c \<and>
    partial_sources c' = partial_sources c"
proof (rule insert_records_stored)
  show "fold_r (\<lambda>(i, e) (hours, c). rbind (insert_record x size_of agent (lf_source_file_id f)
       (source_record_key (source_scan ap ix f rs opts why) i) e c) (\<lambda>(h, c). Inr (insert h hours, c)))
       (enumerate 0 (map rec_event rs)) (D, c) = Inr (D', c')"
    using assms(1) by (simp add: insert_source_records_def source_scan_def)
qed (use assms(2) in \<open>simp add: source_record_key_def source_scan_def named_def\<close>)

text \<open>A source of the cache after it was told of a scan.\<close>

lemma index_row_eq:
  "\<lparr>index_identity = i, index_size = index_size ix, index_modified_ns = index_modified_ns ix, parser_revision = parser_revision ix,
     parsed_offset = parsed_offset ix, prefix_hash = prefix_hash ix\<rparr> = (ix :: file_index_row)\<lparr>index_identity := i\<rparr>"
  "\<lparr>index_identity = i, index_size = 0, index_modified_ns = 0, parser_revision = parser_revision ix,
     parsed_offset = parsed_offset ix, prefix_hash = prefix_hash ix\<rparr> =
     (ix :: file_index_row)\<lparr>index_identity := i, index_size := 0, index_modified_ns := 0\<rparr>"
  by (rule file_index_row.equality; simp)+

lemma apply_complete_source:
  assumes "apply_source x size_of agent (source_scan ap ix f rs opts []) (D, c) = Inr (D', c')" "named rs"
  shows "file_records c' = fold (store_record x agent (lf_source_file_id f)) rs
      (file_records (if ap then c else delete_records agent (lf_source_file_id f) c)) \<and>
    file_index c' = AList.update (agent, lf_source_file_id f) (ix\<lparr>index_identity := lf_identity f\<rparr>) (file_index c) \<and>
    partial_sources c' = partial_sources (delete_partial_sources agent (lf_source_file_id f) c)"
proof -
  let ?s = "source_scan ap ix f rs opts []"
  let ?c = "delete_partial_sources agent (lf_source_file_id f) c"
  obtain D1 D2 c1 where ins: "insert_source_records x size_of agent ?s
      (D1, if ap then ?c else delete_records agent (lf_source_file_id f) ?c) = Inr (D2, c1)"
    and c': "c' = remember_source agent ?s c1"
    using assms(1)
    by (cases ap) (auto simp: apply_source_def rbind_Inr split_paired_Ex Let_def source_scan_def)
  from insert_source_stored [OF ins assms(2)]
  show ?thesis
    by (cases ap) (simp_all add: index_row_eq c' remember_source_def source_scan_def delete_records_def delete_partial_sources_def)
qed

lemma apply_short_source:
  assumes "apply_source x size_of agent (source_scan ap ix f rs opts why) (D, c) = Inr (D', c')" "named rs" "why \<noteq> []"
  shows "file_records c' = fold (store_record x agent (lf_source_file_id f)) rs (file_records c) \<and>
    file_index c' = (if parsed_offset ix = 0 \<or> prefix_hash ix = [] then file_index c
      else AList.update (agent, lf_source_file_id f)
        (ix\<lparr>index_identity := lf_identity f, index_size := 0, index_modified_ns := 0\<rparr>) (file_index c))"
proof -
  let ?s = "source_scan ap ix f rs opts why"
  obtain hours c1 where ins: "insert_source_records x size_of agent ?s ({}, c) = Inr (hours, c1)"
    and c': "\<exists>hours. c' = remember_partial_progress agent ?s (mark_partial_source_hours agent (lf_source_file_id f) hours c1)"
    using assms(1,3)
    by (auto simp: apply_source_def rbind_Inr split_paired_Ex Let_def source_scan_def)
  from insert_source_stored [OF ins assms(2)] c'
  show ?thesis
    by (auto simp: index_row_eq remember_partial_progress_def source_scan_def mark_partial_source_hours_def)
qed

subsection \<open>A log that grew\<close>

lemma update_twice [simp]: "AList.update k v (AList.update k w xs) = AList.update k v xs"
  by (induction xs) auto

lemma yields_same_file:
  assumes "lf_source_file_id f = lf_source_file_id g" "lf_path f = lf_path g"
  shows "yields x parser rng f items = yields x parser rng g items"
proof -
  have "yield x parser rng f i = yield x parser rng g i" for i
    using assms by (cases i) (simp_all split: option.splits)
  then have "yield x parser rng f = yield x parser rng g" by blast
  then show ?thesis by (simp add: yields_def)
qed

lemma text_items_last: "text_items (last_line t) start = line_item (last_line t) True start"
  by (simp add: text_items.simps last_line_no_newline)

lemma text_items_complete:
  "text_items t start = text_items (complete_lines t) start @ line_item (last_line t) True (start + length (complete_lines t))"
  using text_items_append [OF complete_lines_end, of t "last_line t" start]
  by (simp add: complete_and_last text_items_last)

lemma last_line_append: "ends_line c \<Longrightarrow> last_line (c @ t) = last_line t"
proof -
  assume "ends_line c"
  then consider "c = []" | w where "c = w @ [newline]"
    unfolding ends_line_def by (metis append_butlast_last_id)
  then show ?thesis
    by cases (simp_all add: last_line_def takeWhile_tail)
qed

lemma covered_length_append:
  assumes "ends_line c" shows "covered_length (c @ t) = length c + covered_length t"
proof -
  have "length (last_line t) \<le> length t" using complete_and_last [of t] by (metis length_append le_add2)
  then show ?thesis by (simp add: covered_length_def complete_lines_def last_line_append [OF assms])
qed

lemma covered_complete: "length (last_line t) \<le> max_jsonl_line_bytes \<Longrightarrow> covered_length t = length (complete_lines t)"
  by (simp add: covered_length_def)

lemma take_complete: "take (length (complete_lines t)) (t @ u) = complete_lines t"
  using complete_and_last [of t] by (metis append_eq_conv_conj append.assoc)

text \<open>A row of the index that stands for what was read of a text.\<close>

definition stands_for :: "scan_externs \<Rightarrow> local_usage_file \<Rightarrow> string \<Rightarrow> string \<Rightarrow> file_index_row \<Rightarrow> bool" where
  "stands_for x f parser_rev t row \<longleftrightarrow> parsed_offset row = covered_length t \<and> index_size row \<le> length t \<and>
     index_identity row = lf_identity f \<and> parser_revision row = parser_rev \<and>
     prefix_hash row = sha256_hex x (take (covered_length t) t)"

lemma first_scan_stored:
  assumes parser: "stateless parser" and sha: "\<And>bytes. sha256_hex x bytes \<noteq> []"
    and first: "steady view f a" "read_source x parser opts rng view f st = (st', s)" "fresh_reading st" "\<not> rd_stopped st'"
    and never: "map_of (file_index c) (agent, lf_source_file_id f) = None" "opt_file_index opts = usage_file_index agent c"
      "delete_records agent (lf_source_file_id f) c = c"
    and stored: "apply_source y size_of agent s (D, c) = Inr (D1, c1)"
  shows "file_records c1 = fold (store_record y agent (lf_source_file_id f)) (yields x parser rng f (text_items a 0)) (file_records c) \<and>
    (file_index c1 = file_index c \<and> covered_length a = 0 \<or>
     (\<exists>row. file_index c1 = AList.update (agent, lf_source_file_id f) row (file_index c) \<and>
        stands_for x f (opt_parser_revision opts) a row))"
proof -
  have "resume_point x parser opts view f = (if (0::nat) = 0 then None else Some (0, take 0 a))"
    using never by (simp add: resume_point_def)
  from read_source_yields [OF parser first(1,3) this le0 first(2,4)]
  have s: "rd_records st' = yields x parser rng f (text_items a 0)"
    "s = source_scan False (answered x (opt_parser_revision opts) f a (covered_length a)) f (rd_records st') opts (rd_reasons st')"
    by simp_all
  have named: "named (rd_records st')" using yields_named by (auto simp: named_def s(1))
  let ?ix = "answered x (opt_parser_revision opts) f a (covered_length a)"
  have ix: "stands_for x f (opt_parser_revision opts) a (?ix\<lparr>index_identity := lf_identity f\<rparr>)"
    "stands_for x f (opt_parser_revision opts) a (?ix\<lparr>index_identity := lf_identity f, index_size := 0, index_modified_ns := 0\<rparr>)"
    using first(1) by (simp_all add: stands_for_def answered_def file_index_of_def steady_def)
  show ?thesis
  proof (cases "rd_reasons st' = []")
    case True
    from apply_complete_source [OF stored [unfolded s(2) True] named] never(3) show ?thesis
      using ix(1) unfolding s(1) by auto
  next
    case False
    have "parsed_offset ?ix = covered_length a" "prefix_hash ?ix \<noteq> []"
      using sha by (simp_all add: answered_def)
    with apply_short_source [OF stored [unfolded s(2)] named False] show ?thesis
      using ix(2) unfolding s(1) by (cases "covered_length a = 0") auto
  qed
qed

lemma resume_after:
  assumes "stateless parser" "holds_text view (a @ b)" "stands_for x g parser_rev a row"
    and "map_of (opt_file_index opts) (lf_source_file_id f) = Some row"
    and "opt_parser_revision opts = parser_rev" "lf_identity g = lf_identity f" "lf_size f = length (a @ b)" "b \<noteq> []"
  shows "resume_point x parser opts view f =
    (if covered_length a = 0 then None else Some (covered_length a, take (covered_length a) (a @ b)))"
proof -
  have "length (last_line a) \<le> length a" using complete_and_last [of a] by (metis length_append le_add2)
  then have "covered_length a \<le> length a" by (simp add: covered_length_def complete_lines_def)
  moreover from this have "prefix_hasher (fv_prefix view) (covered_length a) = Some (take (covered_length a) a)"
    using assms(2) by (auto simp: holds_text_def prefix_hasher_def)
  moreover have "index_size row < length (a @ b)"
  proof -
    have "0 < length b" using assms(8) by simp
    then show ?thesis using assms(3) unfolding stands_for_def length_append by linarith
  qed
  ultimately show ?thesis
    using assms by (auto simp: resume_point_def stands_for_def stateless_def)
qed

subsection \<open>The sample logs\<close>

definition sample_range :: scan_range where "sample_range = \<lparr>start_ms = 0, end_ms = 1782864000000\<rparr>"

definition options_for :: "usage_cache \<Rightarrow> scan_options" where
  "options_for c = \<lparr>opt_start_at = ''1970-01-01T00:00:00Z'', opt_end_at = sample_end,
     opt_parser_revision = default_parser_revision, opt_file_index = usage_file_index ClaudeCode c, opt_cancelled = (\<lambda>_. False)\<rparr>"

definition sample_reading :: "unit reading" where
  "sample_reading = \<lparr>rd_parser = (), rd_records = [], rd_reasons = [], rd_ignored = 0, rd_seen = 0, rd_looks = 0, rd_stopped = False\<rparr>"

abbreviation sample_claude :: "unit usage_parser" where "sample_claude \<equiv> claude_logs (scan_logs sample_scan_externs)"

definition read_log :: "string \<Rightarrow> usage_cache \<Rightarrow> unit reading \<times> usage_source_scan" where
  "read_log t c = read_source sample_scan_externs sample_claude (options_for c) sample_range (view_of t) (sample_log t) sample_reading"

definition told :: "string \<Rightarrow> usage_cache \<Rightarrow> store_error + int set \<times> usage_cache" where
  "told t c = apply_source (log_times (scan_logs sample_scan_externs)) (\<lambda>_. 100) ClaudeCode (snd (read_log t c)) ({}, c)"

definition cache_after :: "string \<Rightarrow> usage_cache \<Rightarrow> usage_cache" where
  "cache_after t c = (case told t c of Inl _ \<Rightarrow> c | Inr (_, c') \<Rightarrow> c')"

lemma steady_sample: "steady (view_of t) (sample_log t) (log_text t)"
proof -
  have "all_read (unread bs [])" "bytes_of (unread bs []) = bs" for bs by (simp_all add: unread_def)
  then show ?thesis
    by (simp add: steady_def holds_text_def view_of_def sample_log_def log_text_def Let_def)
qed

lemma sample_hash: "sha256_hex sample_scan_externs bytes \<noteq> []"
  by (simp add: sample_scan_externs_def)

lemma sample_files [simp]:
  "lf_source_file_id (sample_log t) = ''file''" "lf_path (sample_log t) = \<lparr>is_absolute = True, parts = [''logs'', ''a.jsonl'']\<rparr>"
  "lf_identity (sample_log t) = ''1:2''" "fresh_reading sample_reading" "rd_reasons sample_reading = []"
  "opt_file_index (options_for c) = usage_file_index ClaudeCode c" "opt_parser_revision (options_for c) = default_parser_revision"
  by (simp_all add: sample_log_def fresh_reading_def sample_reading_def options_for_def)

lemma told_cache_after: "\<not> isl (told t c) \<Longrightarrow> \<exists>D. told t c = Inr (D, cache_after t c)"
  by (cases "told t c") (auto simp: cache_after_def split: prod.splits)

lemma never_read: "map_of (file_index empty_cache) k = None" "delete_records agent f empty_cache = empty_cache"
  by (simp_all add: empty_cache_def delete_records_def)

text \<open>A log that grew is its complete lines, then what followed them when it was shorter and what was added.\<close>

lemma grown_text:
  assumes "length (last_line a) \<le> max_jsonl_line_bytes"
  shows "drop (covered_length a) (a @ b) = last_line a @ b" "covered_length a \<le> length (a @ b)"
    and "covered_length (a @ b) = covered_length a + covered_length (last_line a @ b)"
    and "yields x parser rng f (text_items (a @ b) 0) =
      yields x parser rng f (text_items (complete_lines a) 0) @ yields x parser rng f (text_items (last_line a @ b) (covered_length a))"
proof -
  note n = covered_complete [OF assms]
  have ab: "a @ b = complete_lines a @ last_line a @ b"
    using complete_and_last [of a] by (metis append.assoc)
  show "drop (covered_length a) (a @ b) = last_line a @ b" unfolding ab n by simp
  show "covered_length a \<le> length (a @ b)" unfolding ab n by simp
  show "covered_length (a @ b) = covered_length a + covered_length (last_line a @ b)"
    by (subst ab) (simp add: n covered_length_append [OF complete_lines_end])
  show "yields x parser rng f (text_items (a @ b) 0) =
      yields x parser rng f (text_items (complete_lines a) 0) @ yields x parser rng f (text_items (last_line a @ b) (covered_length a))"
    by (subst ab) (simp add: n text_items_append [OF complete_lines_end])
qed

text \<open>Where a grown log is read on from: the end of what its row in the index answers for, if it has one.\<close>

lemma resume_grown:
  assumes "stateless parser" and "map_of index0 (agent, lf_source_file_id f1) = None"
    and "file_index c1 = index0 \<and> covered_length a = 0 \<or>
      (\<exists>row. file_index c1 = AList.update (agent, lf_source_file_id f1) row index0 \<and> stands_for x f1 (opt_parser_revision opts) a row)"
    and "opt_file_index opts = usage_file_index agent c1" "steady view f2 (a @ b)" "b \<noteq> []"
    and "lf_source_file_id f2 = lf_source_file_id f1" "lf_identity f2 = lf_identity f1"
  shows "resume_point x parser opts view f2 =
    (if covered_length a = 0 then None else Some (covered_length a, take (covered_length a) (a @ b)))"
  using assms(3)
proof
  assume "file_index c1 = index0 \<and> covered_length a = 0"
  then show ?thesis using assms(2,4,7) by (simp add: resume_point_def)
next
  assume "\<exists>row. file_index c1 = AList.update (agent, lf_source_file_id f1) row index0 \<and> stands_for x f1 (opt_parser_revision opts) a row"
  then obtain row where "map_of (opt_file_index opts) (lf_source_file_id f2) = Some row" "stands_for x f1 (opt_parser_revision opts) a row"
    using assms(4,7) by (auto simp: update_conv)
  from resume_after [OF assms(1) _ this(2,1) refl] show ?thesis
    using assms(5,6,8) by (simp add: steady_def)
qed

text \<open>C4: A log read when it held \<open>a\<close>, and read again when \<open>b\<close> was added, leaves the cache with the records and the index that
  one reading of all of it leaves.\<close>

theorem grown_log_reads_as_one:
  assumes parser: "stateless parser" and sha: "\<And>bytes. sha256_hex x bytes \<noteq> []"
    and files: "lf_source_file_id f2 = lf_source_file_id f1" "lf_path f2 = lf_path f1" "lf_identity f2 = lf_identity f1"
    and never: "map_of (file_index c) (agent, lf_source_file_id f1) = None" "delete_records agent (lf_source_file_id f1) c = c"
    and tail: "length (last_line a) \<le> max_jsonl_line_bytes"
      "yields x parser rng f1 (line_item (last_line a) True (length (complete_lines a))) = []"
    and first: "read_source x parser opts1 rng view1 f1 st1 = (st1', s1)" "steady view1 f1 a" "fresh_reading st1" "\<not> rd_stopped st1'"
      "opt_file_index opts1 = usage_file_index agent c" "apply_source y size_of agent s1 (D, c) = Inr (D1, c1)"
    and second: "read_source x parser opts2 rng view2 f2 st2 = (st2', s2)" "steady view2 f2 (a @ b)" "b \<noteq> []" "fresh_reading st2"
      "\<not> rd_stopped st2'" "opt_file_index opts2 = usage_file_index agent c1" "opt_parser_revision opts2 = opt_parser_revision opts1"
      "rd_reasons st2' = []" "apply_source y size_of agent s2 (D', c1) = Inr (D2, c2)"
    and whole: "read_source x parser opts3 rng view2 f2 st3 = (st3', s3)" "fresh_reading st3" "\<not> rd_stopped st3'"
      "opt_file_index opts3 = usage_file_index agent c" "opt_parser_revision opts3 = opt_parser_revision opts1"
      "rd_reasons st3' = []" "apply_source y size_of agent s3 (D'', c) = Inr (D3, c3)"
  shows "file_records c2 = file_records c3 \<and> file_index c2 = file_index c3"
proof -
  let ?id = "lf_source_file_id f1" and ?n = "covered_length a" and ?rev = "opt_parser_revision opts1"
  let ?st = "store_record y agent ?id" and ?ys = "\<lambda>t p. yields x parser rng f2 (text_items t p)"
  note same = yields_same_file [OF files(1,2), of x parser rng]
  let ?rest = "last_line a @ b"
  note grown = grown_text [OF tail(1), where b = b]
  have ya: "yields x parser rng f1 (text_items a 0) = ?ys (complete_lines a) 0"
    using tail(2) by (simp add: text_items_complete [of a 0] same)
  have one: "file_records c1 = fold ?st (?ys (complete_lines a) 0) (file_records c)"
    "file_index c1 = file_index c \<and> ?n = 0 \<or> (\<exists>row. file_index c1 = AList.update (agent, ?id) row (file_index c) \<and> stands_for x f1 ?rev a row)"
    using first_scan_stored [OF parser sha first(2,1,3,4) never(1) first(5) never(2) first(6)] ya by simp_all
  note resume = resume_grown [OF parser never(1) one(2) [folded second(7)] second(6,2,3) files(1,3)]
  from read_source_yields [OF parser second(2,4) resume grown(2) second(1,5)]
  have s2: "rd_records st2' = ?ys ?rest ?n"
    "s2 = source_scan (0 < ?n) (answered x ?rev f2 (a @ b) (covered_length (a @ b))) f2 (rd_records st2') opts2 []"
    by (simp_all add: grown(1,3) second(7,8) del: drop_append)
  have "resume_point x parser opts3 view2 f2 = (if (0::nat) = 0 then None else Some (0, take 0 (a @ b)))"
    using whole(4) never(1) files(1) by (simp add: resume_point_def)
  from read_source_yields [OF parser second(2) whole(2) this le0 whole(1,3)]
  have s3: "rd_records st3' = ?ys (complete_lines a) 0 @ ?ys ?rest ?n"
    "s3 = source_scan False (answered x ?rev f2 (a @ b) (covered_length (a @ b))) f2 (rd_records st3') opts3 []"
    by (simp_all add: grown(4) whole(5,6))
  have named: "named (rd_records st2')" "named (rd_records st3')"
    using yields_named by (auto simp: named_def s2(1) s3(1))
  note two = apply_complete_source [OF second(9) [unfolded s2(2)] named(1), unfolded files(1)]
  note three = apply_complete_source [OF whole(7) [unfolded s3(2)] named(2), unfolded files(1)]
  have "file_records (if 0 < ?n then c1 else delete_records agent ?id c1) = fold ?st (?ys (complete_lines a) 0) (file_records c)"
  proof (cases "0 < ?n")
    case False
    then have "complete_lines a = []" using covered_complete [OF tail(1)] by simp
    then have none: "?ys (complete_lines a) 0 = []" by (simp add: yields_def)
    then have "file_records c1 = file_records c" using one(1) by simp
    then have "file_records (delete_records agent ?id c1) = file_records (delete_records agent ?id c)"
      by (simp add: delete_records_def)
    then show ?thesis using False none never(2) by simp
  qed (simp add: one(1))
  then have "file_records c2 = file_records c3"
    using two three never(2) by (simp add: s2(1) s3(1))
  moreover have "file_index c2 = file_index c3"
    using two three one(2) by auto
  ultimately show ?thesis by simp
qed

theorem grown_log_reads_as_one_witness:
  "let one = cache_after ''a!a!'' empty_cache; two = cache_after ''a!a!a!'' one; whole = cache_after ''a!a!a!'' empty_cache in
   file_records two = file_records whole \<and> file_index two = file_index whole \<and> length (file_records whole) = 3"
proof -
  let ?one = "cache_after ''a!a!'' empty_cache"
  obtain st1 s1 where r1: "read_log ''a!a!'' empty_cache = (st1, s1)" by fastforce
  obtain st2 s2 where r2: "read_log ''a!a!a!'' ?one = (st2, s2)" by fastforce
  obtain st3 s3 where r3: "read_log ''a!a!a!'' empty_cache = (st3, s3)" by fastforce
  have ok: "\<not> isl (told ''a!a!'' empty_cache)" "\<not> isl (told ''a!a!a!'' ?one)" "\<not> isl (told ''a!a!a!'' empty_cache)"
    by code_simp+
  from ok [THEN told_cache_after] obtain D1 D2 D3 where t: "told ''a!a!'' empty_cache = Inr (D1, ?one)"
    "told ''a!a!a!'' ?one = Inr (D2, cache_after ''a!a!a!'' ?one)"
    "told ''a!a!a!'' empty_cache = Inr (D3, cache_after ''a!a!a!'' empty_cache)" by blast
  have run: "\<not> rd_stopped (fst (read_log ''a!a!'' empty_cache))" "\<not> rd_stopped (fst (read_log ''a!a!a!'' ?one))"
    "\<not> rd_stopped (fst (read_log ''a!a!a!'' empty_cache))" "rd_reasons (fst (read_log ''a!a!a!'' ?one)) = []"
    "rd_reasons (fst (read_log ''a!a!a!'' empty_cache)) = []"
    by code_simp+
  have tail: "length (last_line (log_text ''a!a!'')) \<le> max_jsonl_line_bytes"
    "line_item (last_line (log_text ''a!a!'')) True (length (complete_lines (log_text ''a!a!''))) = []"
    by code_simp+
  have joined: "log_text ''a!a!a!'' = log_text ''a!a!'' @ log_text ''a!''" by (simp add: log_text_def)
  have more: "log_text ''a!'' \<noteq> []" by (simp add: log_text_def)
  have "file_records (cache_after ''a!a!a!'' ?one) = file_records (cache_after ''a!a!a!'' empty_cache) \<and>
      file_index (cache_after ''a!a!a!'' ?one) = file_index (cache_after ''a!a!a!'' empty_cache)"
    by (rule grown_log_reads_as_one [OF log_parsers_stateless(1) sample_hash, where a = "log_text ''a!a!''" and b = "log_text ''a!''" and
          ?f1.0 = "sample_log ''a!a!''" and ?f2.0 = "sample_log ''a!a!a!''" and agent = ClaudeCode and c = empty_cache,
          OF _ _ _ _ _ tail(1) _ r1 [unfolded read_log_def] steady_sample _ _ _ t(1) [unfolded told_def r1 snd_conv]
          r2 [unfolded read_log_def] _ _ _ _ _ _ _ t(2) [unfolded told_def r2 snd_conv]
          r3 [unfolded read_log_def] _ _ _ _ _ t(3) [unfolded told_def r3 snd_conv]])
      (use run more in \<open>simp_all add: never_read tail(2) yields_def r1 r2 r3 steady_sample [of "''a!a!a!''", unfolded joined]\<close>)
  moreover have "length (file_records (cache_after ''a!a!a!'' empty_cache)) = 3" by code_simp
  ultimately show ?thesis by (simp add: Let_def)
qed

subsection \<open>A log that came up short\<close>

lemma text_items_ended: "ends_line t \<Longrightarrow> text_items (drop (covered_length t) t) n = []"
proof -
  assume "ends_line t"
  then have "last_line (t @ []) = last_line []" by (rule last_line_append)
  then have "last_line t = []" by (simp add: last_line_def)
  then show ?thesis by (simp add: covered_length_def complete_lines_def)
qed

text \<open>C28: A log that came up short (a line of it is no JSON, or is too long, or its timestamp is not one) and
  ends on a line boundary is taken for complete by the next scan, which reads none of it again: the hours marked partial for
  it are unmarked, though nothing about the log has changed.\<close>

theorem short_log_is_complete_next_time:
  assumes parser: "stateless parser" and sha: "\<And>bytes. sha256_hex x bytes \<noteq> []"
    and never: "map_of (file_index c) (agent, lf_source_file_id f) = None" "delete_records agent (lf_source_file_id f) c = c"
    and log: "steady view f t" "ends_line t" "t \<noteq> []"
    and first: "read_source x parser opts1 rng view f st1 = (st1', s1)" "fresh_reading st1" "\<not> rd_stopped st1'"
      "opt_file_index opts1 = usage_file_index agent c" "rd_reasons st1' \<noteq> []" "apply_source y size_of agent s1 (D, c) = Inr (D1, c1)"
    and second: "read_source x parser opts2 rng view f st2 = (st2', s2)" "fresh_reading st2" "rd_reasons st2 = []" "\<not> rd_stopped st2'"
      "opt_file_index opts2 = usage_file_index agent c1" "opt_parser_revision opts2 = opt_parser_revision opts1"
      "apply_source y size_of agent s2 (D', c1) = Inr (D2, c2)"
  shows "\<not> scan_complete s1 \<and> scan_complete s2 \<and> rd_records st2' = [] \<and> file_records c2 = file_records c1 \<and>
    (\<forall>h. (agent, lf_source_file_id f, h) \<notin> set (partial_sources c2))"
proof -
  let ?id = "lf_source_file_id f" and ?n = "covered_length t"
  have n: "?n = length t"
    using last_line_append [OF log(2), of "[]"] by (simp add: covered_length_def complete_lines_def last_line_def)
  have "resume_point x parser opts1 view f = (if (0::nat) = 0 then None else Some (0, take 0 t))"
    using first(4) never(1) by (simp add: resume_point_def)
  from read_source_yields [OF parser log(1) first(2) this le0 first(1,3)]
  have s1: "s1 = source_scan False (answered x (opt_parser_revision opts1) f t ?n) f (rd_records st1') opts1 (rd_reasons st1')"
    "rd_records st1' = yields x parser rng f (text_items t 0)" by simp_all
  have "named (rd_records st1')" using yields_named by (auto simp: named_def s1(2))
  note one = apply_short_source [OF first(6) [unfolded s1(1)] this first(5)]
  have at_end: "0 < ?n" using log(3) n by simp
  then have row: "map_of (opt_file_index opts2) ?id = Some ((answered x (opt_parser_revision opts1) f t ?n)
      \<lparr>index_identity := lf_identity f, index_size := 0, index_modified_ns := 0\<rparr>)"
    using one sha second(5) by (simp add: answered_def update_conv)
  have "prefix_hasher (fv_prefix view) ?n = Some t"
    using log(1) n at_end by (simp add: steady_def holds_text_def prefix_hasher_def)
  then have "resume_point x parser opts2 view f = (if ?n = 0 then None else Some (?n, take ?n t))"
    using row parser log(1) second(6) at_end n
    by (simp add: resume_point_def answered_def file_index_of_def stateless_def steady_def)
  from read_source_yields [OF parser log(1) second(2) this _ second(1,4)]
  have s2: "rd_records st2' = []" "rd_reasons st2' = []"
    "s2 = source_scan True (answered x (opt_parser_revision opts2) f t (?n + covered_length (drop ?n t))) f (rd_records st2') opts2 (rd_reasons st2')"
    using n at_end text_items_ended [OF log(2)] second(3) by (simp_all add: yields_def)
  have "named (rd_records st2')" by (simp add: named_def s2(1))
  from apply_complete_source [OF second(7) [unfolded s2(3,2)] this]
  have two: "file_records c2 = file_records c1" "partial_sources c2 = partial_sources (delete_partial_sources agent ?id c1)"
    by (simp_all add: s2(1))
  show ?thesis
    using two s2 first(5) by (auto simp: s1(1) source_scan_def delete_partial_sources_def)
qed

theorem short_log_is_complete_next_time_witness:
  "let one = cache_after ''a!x!'' empty_cache; two = cache_after ''a!x!'' one in
   partial_sources one \<noteq> [] \<and> file_records two = file_records one \<and> length (file_records two) = 1 \<and>
   (\<forall>h. (ClaudeCode, ''file'', h) \<notin> set (partial_sources two))"
proof -
  let ?one = "cache_after ''a!x!'' empty_cache"
  obtain st1 s1 where r1: "read_log ''a!x!'' empty_cache = (st1, s1)" by fastforce
  obtain st2 s2 where r2: "read_log ''a!x!'' ?one = (st2, s2)" by fastforce
  have ok: "\<not> isl (told ''a!x!'' empty_cache)" "\<not> isl (told ''a!x!'' ?one)" by code_simp+
  from ok [THEN told_cache_after] obtain D1 D2 where t: "told ''a!x!'' empty_cache = Inr (D1, ?one)"
    "told ''a!x!'' ?one = Inr (D2, cache_after ''a!x!'' ?one)" by blast
  have run: "\<not> rd_stopped (fst (read_log ''a!x!'' empty_cache))" "\<not> rd_stopped (fst (read_log ''a!x!'' ?one))"
    "rd_reasons (fst (read_log ''a!x!'' empty_cache)) \<noteq> []"
    by code_simp+
  have "file_records (cache_after ''a!x!'' ?one) = file_records ?one \<and>
      (\<forall>h. (ClaudeCode, ''file'', h) \<notin> set (partial_sources (cache_after ''a!x!'' ?one)))"
    using short_log_is_complete_next_time [OF log_parsers_stateless(1) sample_hash _ _ steady_sample [of "''a!x!''"] _ _
        r1 [unfolded read_log_def] _ _ _ _ t(1) [unfolded told_def r1 snd_conv] r2 [unfolded read_log_def] _ _ _ _ _
        t(2) [unfolded told_def r2 snd_conv]] run
    by (simp add: never_read r1 r2 ends_line_def log_text_def)
  moreover have "partial_sources ?one \<noteq> [] \<and> length (file_records ?one) = 1" by code_simp
  ultimately show ?thesis by (simp add: Let_def)
qed

subsection \<open>A line a scan was stopped at\<close>


subsection \<open>A long unfinished line\<close>

text \<open>An unfinished last line that is already too long is answered for, so that the scan that reads on finds what
  was added to it as a line of its own, where a scan of the whole log finds one line that is too long.\<close>

theorem long_line_is_read_in_two:
  assumes "newline \<notin> set t" "max_jsonl_line_bytes < length t" "newline \<notin> set w" "length w \<le> max_jsonl_line_bytes" "trim_cr w \<noteq> []"
  shows "text_items (t @ w @ [newline]) 0 = [Oversized] \<and>
    text_items (drop (covered_length t) (t @ w @ [newline])) (covered_length t) = [Line (trim_cr w) False (length t)]"
proof -
  have "last_line t = t" using assms(1) unfolding last_line_def by (subst takeWhile_eq_all_conv [THEN iffD2]) auto
  then have "covered_length t = length t" using assms(2) by (simp add: covered_length_def)
  moreover have "text_items ((t @ w) @ [newline]) 0 = [Oversized]"
    using assms text_items_line [of "t @ w" "[]" 0] by (simp add: line_item_def)
  ultimately show ?thesis
    using assms text_items_line [of w "[]" "length t"] by (simp add: line_item_def)
qed

theorem long_line_is_read_in_two_witness:
  "\<exists>t. text_items (t @ ''{}'' @ [newline]) 0 = [Oversized] \<and>
     text_items (drop (covered_length t) (t @ ''{}'' @ [newline])) (covered_length t) = [Line ''{}'' False (length t)]"
proof -
  let ?t = "replicate (Suc max_jsonl_line_bytes) CHR ''x''"
  have "newline \<notin> set ?t" unfolding set_replicate_Suc by (simp add: newline_def)
  moreover have "max_jsonl_line_bytes < length ?t" unfolding length_replicate by (rule lessI)
  moreover have w: "newline \<notin> set ''{}''" "length ''{}'' \<le> max_jsonl_line_bytes" "trim_cr ''{}'' \<noteq> []" "trim_cr ''{}'' = ''{}''"
    by code_simp+
  ultimately show ?thesis using long_line_is_read_in_two [OF _ _ w(1-3), of ?t] unfolding w(4) by blast
qed

end
