(* ===== verification/Spec2Isabelle.thy ===== *)
theory Spec2Isabelle
  imports Pricing_Tree Scheduler Quota_History Grok_Billing Session_Lanes Relay_Costs Overview Usage_Upload
    Usage_Gemini Usage_Resume
begin

text \<open>
  Quota's background service, \<open>packages/service/src\<close> (all paths below are relative to it). One process per Mac
  asks AI providers how much of a subscription is left, reads what the coding agents on this Mac logged of their
  usage, prices it, shows both to the menu bar app and, for a signed-in Account, exchanges them with Relay.

  The parts and how they meet.

  \<^item> Usage. An agent's logs are read (\<open>usage/scan.rs\<close>) line by line through the agent's parser (\<open>usage/codex.rs\<close>,
    \<open>claude.rs\<close>, \<open>pi.rs\<close>, \<open>grok.rs\<close>, \<open>gemini.rs\<close>, \<open>copilot.rs\<close>) into records. The cache (\<open>state/mod.rs\<close>) keeps a
    file's records and folds the hours they touch into facts (\<open>usage/mod.rs\<close>). The upload stages dirty hours in the
    outbox and sends it in batches (\<open>service/backend.rs\<close>).
  \<^item> Prices. A row is priced through one entry of a catalog; what rows cost is folded up the tree a surface shows
    (\<open>pricing.rs\<close>).
  \<^item> Quota. The scheduler (\<open>service/mod.rs\<close>, \<open>service/schedule.rs\<close>) decides when a pass runs, the cadence gate
    (\<open>service/cadence.rs\<close>) which providers it asks, and the lanes (\<open>service/mod.rs\<close>) what runs beside what. An
    answer becomes a reading (\<open>observation.rs\<close>, \<open>pace.rs\<close>), a sample of the history (\<open>history.rs\<close>) and a row of the
    Overview (\<open>service/backend.rs\<close>).
  \<^item> Account. The stored session and its epoch (\<open>state/mod.rs\<close>) are what every lane that speaks to Relay
    holds; what Relay sends is checked before it is used (\<open>relay/mod.rs\<close>).

  Which theory models what. Definitions have the names of the source; a record has the fields of the struct, with a
  prefix where two structs share a field; an operation of a guarded state is a function from the state, and its
  error is the left of a sum or \<open>None\<close>.

  \<^item> \<open>Prelude\<close>, \<open>Text_Bytes\<close>, \<open>Doubles\<close>, \<open>Json\<close>, \<open>Civil_Time\<close>: results, ordered maps and checked arithmetic;
    text as UTF-8 bytes; \<open>f64\<close> as the rational it stands for; \<open>serde_json::Value\<close>; the calendar of
    \<open>providers/common/json.rs\<close> and \<open>state/mod.rs\<close>.
  \<^item> \<open>Usage_Rows\<close>, \<open>Usage_Fold\<close>: the rows of \<open>usage/mod.rs\<close>, their checks and their folds.
  \<^item> \<open>Usage_Parsers\<close>, \<open>Usage_Read\<close>, \<open>Usage_Scan\<close>, \<open>Usage_Gemini\<close>: what a line says; how a file is cut into
    lines (\<open>read_jsonl\<close>); a scan of an agent's files (\<open>scan_jsonl_files\<close>, \<open>scan_file\<close>); Gemini's and Copilot's logs.
    \<open>Usage_Valid\<close> and \<open>Usage_Resume\<close> prove what scans promise, one at a time and one after another.
  \<^item> \<open>Usage_Store\<close>, \<open>Usage_Upload\<close>: \<open>apply_usage_scan\<close> and the facts of an hour; the outbox and its drain.
  \<^item> \<open>Pricing_Decimal\<close>, \<open>Pricing_Catalog\<close>, \<open>Pricing_Cost\<close>, \<open>Pricing_Tree\<close>: \<open>pricing.rs\<close> in its own order.
    \<open>Relay_Costs\<close> sets the costs beside the check of a cost in \<open>relay/mod.rs\<close>.
  \<^item> \<open>Providers\<close>, \<open>Cadence\<close>, \<open>Schedule\<close>, \<open>Lanes\<close>, \<open>Scheduler\<close>: \<open>catalog.rs\<close>, \<open>service/cadence.rs\<close>,
    \<open>service/schedule.rs\<close>, the lanes as a step relation, and the scheduler's loop.
  \<^item> \<open>Observation\<close>, \<open>Quota_History\<close>, \<open>Overview\<close>: a reading, the history, the Overview.
  \<^item> \<open>Protobuf\<close>, \<open>Provider_Types\<close>, \<open>Grok_Billing\<close>: the schemaless reader of \<open>providers/grok/billing_rpc.rs\<close>
    and the window it makes of any bytes.
  \<^item> \<open>Relay_Validation\<close>, \<open>Session_Store\<close>, \<open>Session_Lanes\<close>: the checks of \<open>relay/mod.rs\<close>, the stored session,
    and the interleavings of those who write it, as a step relation.

  Interfaces. \<open>ordered_map\<close> (\<open>Prelude\<close>) is a \<open>BTreeMap\<close>; \<open>keyed_accumulator\<close> and \<open>capped_accumulator\<close> are the loops
  that add an item to what its key holds, interpreted as the hour folds of \<open>Usage_Fold\<close>; \<open>largest_per_key\<close> keeps the
  largest entry of a key, interpreted as the merge of devices and as the points of a plan (\<open>Quota_History\<close>);
  \<open>validated_upload\<close> is what a drain asks of Relay's client, interpreted as \<open>account_upload_usage\<close>
  (\<open>Usage_Upload\<close>); \<open>log_parser\<close> is what a scan asks of a parser, interpreted as the parsers of Codex, Pi and Grok
  (\<open>Usage_Valid\<close>) and Gemini (\<open>Usage_Gemini\<close>).

  What the lemmas show, by group.

  \<^item> Nothing is lost in a fold: hours, totals, project and overflow rows conserve every count and cost; facts do
    not depend on the order of reading; after a scan the facts of every hour are those of its records; folding
    the costs of a tree's leaves is folding its rows.
  \<^item> Reading: a log is read line by line however it is cut into buffers; a log read in two goes leaves what one
    reading leaves; what a parser answers is valid.
  \<^item> Prices: a valid catalog prices a row through one entry; a row costs its exact price rounded half up once.
  \<^item> Asking: gate and scheduler agree; a 429 keeps a provider quiet; a pass asks admitted providers only and a wake
    makes progress; a full refresh runs alone and no request is left pending.
  \<^item> Sending: a batch is the longest that fits; a drain forgets settled hours only; staging loses none; chunks of
    history carry every point.
  \<^item> Session: a write at an epoch replaces the session that was read unless someone signed out; an active session
    can always be used.
  \<^item> Foreign bytes: the protobuf scan finds every number of a message; the billing window is sound for any body.
  \<^item> Where the code falls short of this, a theorem shows the run: a Quota pass that is overtaken, an hour of more
    than 512 rows, a session signed out while a lane holds it, the record a sign-out leaves, the line a scan was
    stopped at, a log that came up short, a service tier with a slash, a Gemini scan that was cancelled.

  Bounds. No definition runs on fuel: a loop is a function with a measure (the bytes left, the buffers left, the
  hours left, the interval of a binary search), so that it returns is part of its definition. Integers keep the
  width of the source where a result can leave it (\<open>safe_add\<close>, \<open>checked_add\<close>, \<open>wrap_i64\<close>, \<open>8 word\<close> and \<open>64 word\<close>);
  caps such as 512 rows to an hour, 16 MiB to a line or 256 hours to an upload are the constants of the source. A
  finite double is a rational, rounded to 53 bits after each operation; overflow to infinity is not modelled.

  Parameters. What is not this repository's code is an argument: the clock, \<open>chrono\<close>'s parsing and printing,
  \<open>serde_json\<close>'s decoding and the length of its encoding (\<open>externs\<close>, \<open>scan_externs\<close>, \<open>upload_externs\<close>), SHA-256,
  the jitter drawn, what a file holds and whether it opens, what Relay and providers answer, when a pass is
  cancelled. Theorems hold for all of them, or name what they rely on as a hypothesis, with a witness.

  Not modelled: the HTTP collectors and Relay's transport (\<open>providers\<close>, \<open>relay/mod.rs\<close>), the reading and renewal of
  credentials; SQLite itself, its locks, failures and migrations (\<open>migration\<close>); sockets, threads and the command
  line (\<open>ipc.rs\<close>, \<open>command.rs\<close>); the directories a scan walks and the agents that keep databases (\<open>usage/opencode.rs\<close>,
  \<open>kilo.rs\<close>, \<open>cursor.rs\<close>, \<open>antigravity.rs\<close>); the period trees and session rows of the Usage surface; downloads of
  the model catalog and the status pages; \<open>chrono\<close>'s range limits; and the Swift and TypeScript apps.
\<close>

end
